(* ===== verification/Fasco_Prelude.thy ===== *)
theory Fasco_Prelude
  imports Main "HOL-Library.Word" "HOL-Library.AList"
begin

text \<open>
  The shared vocabulary of the development: the result type of the stateful operations, the
  combinators they are composed with, assertions under the two build configurations
  (with and without \<open>NDEBUG\<close>), scoped locking in the style of \<open>MutexLocker\<close>, unsigned
  \<open>size_t\<close> arithmetic, and the generic lemmas the component theories use.
\<close>

subsection \<open>Faults and stateful computations\<close>

text \<open>
  A fault is a way an operation can end other than by returning: a failed \<open>assert\<close>, an access
  through a null or dangling pointer, a jump to an address no context was made for, a
  \<open>std::bad_alloc\<close> thrown by \<open>new\<close>, relocking a held non-recursive mutex, \<open>::abort\<close>. The
  state reached at the fault is kept, since \<open>std::bad_alloc\<close> is an exception a caller may catch.
  \<open>NoFuel\<close> is no behaviour of the code: it marks that a loop was cut off by its fuel.
\<close>

datatype fault =
    AssertFail
  | NullDeref
  | DanglingPtr
  | WildJump
  | BadAlloc
  | Deadlock
  | Aborted
  | NoFuel

type_synonym ('s, 'a) comp = "'s \<Rightarrow> (fault + 'a) \<times> 's"

named_theorems comp_defs "definitions of the combinators, applied to a state"

definition ret :: "'a \<Rightarrow> ('s, 'a) comp" where
  "ret x s = (Inr x, s)"

definition raise :: "fault \<Rightarrow> ('s, 'a) comp" where
  "raise e s = (Inl e, s)"

definition bnd :: "('s, 'a) comp \<Rightarrow> ('a \<Rightarrow> ('s, 'b) comp) \<Rightarrow> ('s, 'b) comp" where
  "bnd m f s = (case m s of (r, s') \<Rightarrow> (case r of Inl e \<Rightarrow> (Inl e, s') | Inr x \<Rightarrow> f x s'))"

definition seq :: "('s, 'a) comp \<Rightarrow> ('s, 'b) comp \<Rightarrow> ('s, 'b) comp" where
  "seq m n = bnd m (\<lambda>_. n)"

definition gets :: "('s \<Rightarrow> 'a) \<Rightarrow> ('s, 'a) comp" where
  "gets f s = (Inr (f s), s)"

definition modify :: "('s \<Rightarrow> 's) \<Rightarrow> ('s, unit) comp" where
  "modify f s = (Inr (), f s)"

definition skip :: "('s, unit) comp" where
  "skip = ret ()"

text \<open>
  Reading through a pointer that may be null or dangling: \<open>deref e f\<close> faults with \<open>e\<close> where
  the partial reader \<open>f\<close> has no value.
\<close>

definition deref :: "fault \<Rightarrow> ('s \<Rightarrow> 'a option) \<Rightarrow> ('s, 'a) comp" where
  "deref e f s = (case f s of None \<Rightarrow> (Inl e, s) | Some x \<Rightarrow> (Inr x, s))"

text \<open>
  \<open>assert(b)\<close> of the source. \<open>dbg\<close> is true in a build without \<open>NDEBUG\<close>. The argument is a
  computation, because the macro does not evaluate it at all in an \<open>NDEBUG\<close> build.
\<close>

definition cassert :: "bool \<Rightarrow> ('s, bool) comp \<Rightarrow> ('s, unit) comp" where
  "cassert dbg c = (if dbg then bnd c (\<lambda>b. if b then ret () else raise AssertFail) else ret ())"

lemma ret_apply [simp]: "ret x s = (Inr x, s)"
  by (simp add: ret_def)

lemma raise_apply [simp]: "raise e s = (Inl e, s)"
  by (simp add: raise_def)

lemma gets_apply [simp]: "gets f s = (Inr (f s), s)"
  by (simp add: gets_def)

lemma modify_apply [simp]: "modify f s = (Inr (), f s)"
  by (simp add: modify_def)

lemma skip_apply [simp]: "skip s = (Inr (), s)"
  by (simp add: skip_def)

lemma deref_apply [simp]:
  "deref e f s = (case f s of None \<Rightarrow> (Inl e, s) | Some x \<Rightarrow> (Inr x, s))"
  by (simp add: deref_def)

lemma bnd_Inr: "m s = (Inr x, s') \<Longrightarrow> bnd m f s = f x s'"
  by (simp add: bnd_def)

lemma bnd_Inl: "m s = (Inl e, s') \<Longrightarrow> bnd m f s = (Inl e, s')"
  by (simp add: bnd_def)

lemma seq_Inr: "m s = (Inr x, s') \<Longrightarrow> seq m n s = n s'"
  by (simp add: seq_def bnd_Inr)

lemma seq_Inl: "m s = (Inl e, s') \<Longrightarrow> seq m n s = (Inl e, s')"
  by (simp add: seq_def bnd_Inl)

lemma bnd_apply [comp_defs]:
  "bnd m f s = (case m s of (r, s') \<Rightarrow> (case r of Inl e \<Rightarrow> (Inl e, s') | Inr x \<Rightarrow> f x s'))"
  by (simp add: bnd_def)

lemma seq_apply [comp_defs]:
  "seq m n s = (case m s of (r, s') \<Rightarrow> (case r of Inl e \<Rightarrow> (Inl e, s') | Inr x \<Rightarrow> n s'))"
  by (simp add: seq_def bnd_def)

lemma cassert_apply [comp_defs]:
  "cassert dbg c s =
    (if dbg then bnd c (\<lambda>b. if b then ret () else raise AssertFail) s else (Inr (), s))"
  by (simp add: cassert_def)

lemma cassert_ndebug [simp]: "cassert False c = ret ()"
  by (simp add: cassert_def)

text \<open>A returned value is decomposed along \<open>bnd\<close> and \<open>seq\<close>.\<close>

lemma bnd_InrE:
  assumes "bnd m f s = (Inr y, t)"
  obtains x s' where "m s = (Inr x, s')" and "f x s' = (Inr y, t)"
  using assms by (auto simp: bnd_def split: prod.splits sum.splits)

lemma seq_InrE:
  assumes "seq m n s = (Inr y, t)"
  obtains x s' where "m s = (Inr x, s')" and "n s' = (Inr y, t)"
  using assms by (auto simp: seq_def elim: bnd_InrE)

subsection \<open>Results that keep a property of the state\<close>

text \<open>
  \<open>keeps m I\<close>: whatever \<open>m\<close> does (return or fault), a state with \<open>I\<close> stays one.
\<close>

definition keeps :: "('s, 'a) comp \<Rightarrow> ('s \<Rightarrow> bool) \<Rightarrow> bool" where
  "keeps m I \<longleftrightarrow> (\<forall>s r t. I s \<longrightarrow> m s = (r, t) \<longrightarrow> I t)"

lemma keepsI: "(\<And>s r t. I s \<Longrightarrow> m s = (r, t) \<Longrightarrow> I t) \<Longrightarrow> keeps m I"
  by (auto simp: keeps_def)

lemma keepsD: "keeps m I \<Longrightarrow> I s \<Longrightarrow> m s = (r, t) \<Longrightarrow> I t"
  by (auto simp: keeps_def)

lemma keeps_ret [intro, simp]: "keeps (ret x) I"
  and keeps_raise [intro, simp]: "keeps (raise e) I"
  and keeps_gets [intro, simp]: "keeps (gets f) I"
  and keeps_skip [intro, simp]: "keeps skip I"
  by (auto simp: keeps_def)

lemma keeps_deref [intro, simp]: "keeps (deref e f) I"
  by (auto simp: keeps_def split: option.splits)

lemma keeps_modify: "(\<And>s. I s \<Longrightarrow> I (f s)) \<Longrightarrow> keeps (modify f) I"
  by (auto simp: keeps_def)

lemma keeps_bnd:
  assumes m: "keeps m I" and f: "\<And>x. keeps (f x) I"
  shows "keeps (bnd m f) I"
proof (rule keepsI)
  fix s r t
  assume "I s" and run: "bnd m f s = (r, t)"
  obtain q s' where ms: "m s = (q, s')"
    by (cases "m s")
  have "I s'"
    using keepsD [OF m \<open>I s\<close> ms] .
  show "I t"
  proof (cases q)
    case (Inl e)
    with run ms \<open>I s'\<close> show ?thesis by (simp add: bnd_def)
  next
    case (Inr x)
    with run ms have "f x s' = (r, t)" by (simp add: bnd_def)
    then show ?thesis by (rule keepsD [OF f \<open>I s'\<close>])
  qed
qed

lemma keeps_seq: "keeps m I \<Longrightarrow> keeps n I \<Longrightarrow> keeps (seq m n) I"
  by (simp add: seq_def keeps_bnd)

lemma keeps_if: "(b \<Longrightarrow> keeps m I) \<Longrightarrow> (\<not> b \<Longrightarrow> keeps n I) \<Longrightarrow> keeps (if b then m else n) I"
  by simp

lemma keeps_cassert: "keeps c I \<Longrightarrow> keeps (cassert dbg c) I"
  by (auto simp: cassert_def intro!: keeps_bnd)

lemmas keeps_intros = keeps_bnd keeps_seq keeps_if keeps_cassert

subsection \<open>Scoped locking\<close>

text \<open>
  \<open>Mutex\<close> (base/Mutex.h) is a wrapper of a non-recursive pthread mutex; what the callers of
  one thread see of it is whether it is held. \<open>MutexLocker\<close> (base/MutexLocker.h) locks in its
  constructor and unlocks in its destructor, on every way out of the scope.
\<close>

record Mutex =
  mutex_held :: bool

definition Mutex_init :: Mutex where
  "Mutex_init = \<lparr>mutex_held = False\<rparr>"

definition Mutex_lock :: "('s \<Rightarrow> Mutex) \<Rightarrow> (Mutex \<Rightarrow> 's \<Rightarrow> 's) \<Rightarrow> ('s, unit) comp" where
  "Mutex_lock get put =
    bnd (gets get) (\<lambda>m. if mutex_held m then raise Deadlock
      else modify (put (m\<lparr>mutex_held := True\<rparr>)))"

definition Mutex_unlock :: "('s \<Rightarrow> Mutex) \<Rightarrow> (Mutex \<Rightarrow> 's \<Rightarrow> 's) \<Rightarrow> ('s, unit) comp" where
  "Mutex_unlock get put = bnd (gets get) (\<lambda>m. modify (put (m\<lparr>mutex_held := False\<rparr>)))"

definition MutexLocker ::
  "('s \<Rightarrow> Mutex) \<Rightarrow> (Mutex \<Rightarrow> 's \<Rightarrow> 's) \<Rightarrow> ('s, 'a) comp \<Rightarrow> ('s, 'a) comp" where
  "MutexLocker get put body =
    seq (Mutex_lock get put)
      (\<lambda>s. case body s of (r, s') \<Rightarrow> (r, snd (Mutex_unlock get put s')))"

text \<open>
  The interface of a lock: where an object keeps its mutex. The laws are those of a record
  field. What a client learns: a locked scope runs its body with the mutex held, gives the
  body's result, and leaves the mutex free whether the body returned or threw.
\<close>

locale mutex_field =
  fixes get :: "'s \<Rightarrow> Mutex"
    and put :: "Mutex \<Rightarrow> 's \<Rightarrow> 's"
  assumes get_put: "get (put m s) = m"
    and put_put: "put m (put m' s) = put m s"
    and put_get: "put (get s) s = s"
begin

definition free :: "'s \<Rightarrow> bool" where
  "free s \<longleftrightarrow> \<not> mutex_held (get s)"

definition held :: "'s \<Rightarrow> 's" where
  "held s = put ((get s)\<lparr>mutex_held := True\<rparr>) s"

definition released :: "'s \<Rightarrow> 's" where
  "released s = put ((get s)\<lparr>mutex_held := False\<rparr>) s"

lemma locker_free:
  "free s \<Longrightarrow> MutexLocker get put body s = (case body (held s) of (r, t) \<Rightarrow> (r, released t))"
  by (simp add: MutexLocker_def Mutex_lock_def Mutex_unlock_def comp_defs free_def held_def
      released_def split: prod.splits)

lemma locker_deadlock:
  "\<not> free s \<Longrightarrow> MutexLocker get put body s = (Inl Deadlock, s)"
  by (simp add: MutexLocker_def Mutex_lock_def comp_defs free_def)

lemma locker_leaves_free:
  "free s \<Longrightarrow> MutexLocker get put body s = (r, t) \<Longrightarrow> free t"
  by (auto simp: locker_free free_def released_def get_put split: prod.splits)

lemma released_held: "free s \<Longrightarrow> released (held s) = s"
proof -
  assume "free s"
  then have "(get s)\<lparr>mutex_held := False\<rparr> = get s"
    by (simp add: free_def)
  then show ?thesis
    by (simp add: released_def held_def get_put put_put put_get)
qed

end

subsection \<open>Unsigned sizes\<close>

text \<open>\<open>size_t\<close> is 64 bits wide; the code's counters wrap at \<open>2 ^ 64\<close> in both directions.\<close>

definition sz_inc :: "nat \<Rightarrow> nat" where
  "sz_inc n = (n + 1) mod 2 ^ 64"

definition sz_sub :: "nat \<Rightarrow> nat \<Rightarrow> nat" where
  "sz_sub n k = (if k \<le> n then n - k else 2 ^ 64 + n - k)"

lemma sz_inc_small [simp]: "n < 2 ^ 64 - 1 \<Longrightarrow> sz_inc n = n + 1"
  by (simp add: sz_inc_def)

lemma sz_sub_small [simp]: "k \<le> n \<Longrightarrow> sz_sub n k = n - k"
  by (simp add: sz_sub_def)

text \<open>A duplicate-free list of non-null addresses is shorter than the address space.\<close>

lemma distinct_addresses_bound:
  fixes xs :: "64 word list"
  assumes "distinct xs" and "0 \<notin> set xs"
  shows "length xs < 2 ^ 64"
proof -
  have "length xs = card (set xs)"
    using assms(1) by (simp add: distinct_card)
  also have "\<dots> \<le> card (UNIV - {0 :: 64 word})"
    using assms(2) by (intro card_mono) auto
  also have "\<dots> = 2 ^ 64 - 1"
    by (simp add: card_Diff_singleton card_word)
  finally show ?thesis
    by simp
qed

subsection \<open>Association lists\<close>

lemma length_update_new:
  "k \<notin> fst ` set al \<Longrightarrow> length (AList.update k v al) = Suc (length al)"
  by (induction al) auto

lemma length_update_old:
  "k \<in> fst ` set al \<Longrightarrow> length (AList.update k v al) = length al"
  by (induction al) auto

lemma length_update_le: "length (AList.update k v al) \<le> Suc (length al)"
  by (induction al) auto

lemma map_of_None_key: "map_of al k = None \<Longrightarrow> k \<notin> fst ` set al"
  by (simp add: map_of_eq_None_iff)

end
