(* ===== verification/Fasco_Memory.thy ===== *)
theory Fasco_Memory
  imports Fasco_Prelude
begin

text \<open>
  Byte-addressed memory: \<open>memcpy\<close> as the coroutine stacks use it, and the little-endian loads and
  stores of the context switch, of 64 bits for the x86-64 build and of 32 bits for the i386 one.
  Addresses are words of the build's width and all address arithmetic wraps, as the machine's does.
\<close>

unbundle bit_operations_syntax

type_synonym addr = "64 word"
type_synonym byte = "8 word"
type_synonym memory = "addr \<Rightarrow> byte"

definition in_range :: "'a::len word \<Rightarrow> nat \<Rightarrow> 'a word \<Rightarrow> bool" where
  "in_range a n x \<longleftrightarrow> unat (x - a) < n"

definition apart :: "'a::len word \<Rightarrow> nat \<Rightarrow> 'a word \<Rightarrow> nat \<Rightarrow> bool" where
  "apart a n b k \<longleftrightarrow> n \<le> unat (b - a) \<and> k \<le> unat (a - b)"

definition read_bytes :: "('a::len word \<Rightarrow> byte) \<Rightarrow> 'a word \<Rightarrow> nat \<Rightarrow> byte list" where
  "read_bytes m a n = map (\<lambda>i. m (a + of_nat i)) [0..<n]"

definition write_bytes :: "'a::len word \<Rightarrow> byte list \<Rightarrow> ('a word \<Rightarrow> byte) \<Rightarrow> 'a word \<Rightarrow> byte" where
  "write_bytes a bs m = (\<lambda>x. if unat (x - a) < length bs then bs ! unat (x - a) else m x)"

lemma length_read_bytes [simp]: "length (read_bytes m a n) = n"
  by (simp add: read_bytes_def)

lemma nth_read_bytes [simp]: "i < n \<Longrightarrow> read_bytes m a n ! i = m (a + of_nat i)"
  by (simp add: read_bytes_def)

lemma apart_sym: "apart a n b k \<Longrightarrow> apart b k a n"
  by (auto simp: apart_def)

lemma apart_disjoint:
  assumes "apart a n b k" and "in_range a n x"
  shows "\<not> in_range b k x"
proof
  assume "in_range b k x"
  then have v: "unat (x - b) < k" by (simp add: in_range_def)
  from assms(2) have u: "unat (x - a) < n" by (simp add: in_range_def)
  have d: "b - a = (x - a) - (x - b)" "a - b = (x - b) - (x - a)" by simp_all
  show False
  proof (cases "x - b \<le> x - a")
    case True
    then have "unat ((x - a) - (x - b)) \<le> unat (x - a)"
      by (simp only: unat_sub diff_le_self)
    then have "unat (b - a) \<le> unat (x - a)"
      by (simp only: d(1) [symmetric])
    with u assms(1) show False by (simp add: apart_def)
  next
    case False
    then have "x - a \<le> x - b" by simp
    then have "unat ((x - b) - (x - a)) \<le> unat (x - b)"
      by (simp only: unat_sub diff_le_self)
    then have "unat (a - b) \<le> unat (x - b)"
      by (simp only: d(2) [symmetric])
    with v assms(1) show False by (simp add: apart_def)
  qed
qed

lemma write_bytes_outside: "\<not> in_range a (length bs) x \<Longrightarrow> write_bytes a bs m x = m x"
  by (simp add: write_bytes_def in_range_def)

text \<open>For a region that fits into the address space; then the same for 64-bit addresses.\<close>

lemma write_bytes_at:
  fixes a :: "'a::len word"
  shows "i < length bs \<Longrightarrow> length bs \<le> 2 ^ LENGTH('a) \<Longrightarrow> write_bytes a bs m (a + of_nat i) = bs ! i"
  by (simp add: write_bytes_def unat_of_nat take_bit_nat_eq_self)

lemma in_range_at:
  fixes a :: "'a::len word"
  shows "i < n \<Longrightarrow> n \<le> 2 ^ LENGTH('a) \<Longrightarrow> in_range a n (a + of_nat i)"
  by (simp add: in_range_def unat_of_nat take_bit_nat_eq_self)

lemma read_write_at:
  fixes a :: "'a::len word"
  assumes "length bs \<le> 2 ^ LENGTH('a)"
  shows "read_bytes (write_bytes a bs m) a (length bs) = bs"
  using assms by (intro nth_equalityI) (simp_all add: write_bytes_at)

lemma read_bytes_same:
  fixes a :: "'a::len word"
  assumes "\<And>x. in_range a n x \<Longrightarrow> m x = m' x" and "n \<le> 2 ^ LENGTH('a)"
  shows "read_bytes m a n = read_bytes m' a n"
  using assms(2) by (intro nth_equalityI) (simp_all add: assms(1) in_range_at)

lemma read_write_elsewhere:
  fixes a :: "'a::len word"
  assumes "apart a n b (length bs)" and "n \<le> 2 ^ LENGTH('a)"
  shows "read_bytes (write_bytes b bs m) a n = read_bytes m a n"
  by (rule read_bytes_same)
    (use assms in \<open>auto intro!: write_bytes_outside dest: apart_disjoint\<close>)

lemma write_bytes_nth:
  "i < length bs \<Longrightarrow> length bs \<le> 2 ^ 64 \<Longrightarrow> write_bytes a bs m ((a :: addr) + of_nat i) = bs ! i"
  by (rule write_bytes_at) simp_all

lemma in_range_offset: "i < n \<Longrightarrow> n \<le> 2 ^ 64 \<Longrightarrow> in_range (a :: addr) n (a + of_nat i)"
  by (rule in_range_at) simp_all

lemma read_write_same: "length bs \<le> 2 ^ 64 \<Longrightarrow> read_bytes (write_bytes (a :: addr) bs m) a (length bs) = bs"
  by (rule read_write_at) simp

lemma read_bytes_cong:
  "(\<And>x. in_range (a :: addr) n x \<Longrightarrow> m x = m' x) \<Longrightarrow> n \<le> 2 ^ 64 \<Longrightarrow> read_bytes m a n = read_bytes m' a n"
  by (rule read_bytes_same) simp_all

lemma read_write_apart:
  "apart (a :: addr) n b (length bs) \<Longrightarrow> n \<le> 2 ^ 64 \<Longrightarrow> read_bytes (write_bytes b bs m) a n = read_bytes m a n"
  by (rule read_write_elsewhere) simp_all

lemma unat_le_word_size: "unat (x :: 64 word) \<le> 2 ^ 64"
  by (rule less_imp_le) (use unsigned_less [of x, where ?'a = nat] in simp)

text \<open>\<open>memcpy\<close> between disjoint regions: the destination receives the source's bytes.\<close>

definition memcpy :: "addr \<Rightarrow> addr \<Rightarrow> nat \<Rightarrow> memory \<Rightarrow> memory" where
  "memcpy dst src n m = write_bytes dst (read_bytes m src n) m"

lemma memcpy_copies: "n \<le> 2 ^ 64 \<Longrightarrow> read_bytes (memcpy dst src n m) dst n = read_bytes m src n"
  using read_write_same [of "read_bytes m src n"] by (simp add: memcpy_def)

subsection \<open>Little-endian loads and stores\<close>

definition bytes_of :: "'b::len word \<Rightarrow> byte list" where
  "bytes_of v = map (\<lambda>i. ucast (drop_bit (8 * i) v)) [0..<LENGTH('b) div 8]"

lemma rcat_bytes_of:
  fixes v :: "'b::len word"
  assumes "LENGTH('b) mod 8 = 0"
  shows "word_rcat (rev (bytes_of v)) = v"
proof (rule bit_word_eqI)
  fix n
  assume n: "n < LENGTH('b)"
  have k: "n div 8 < LENGTH('b) div 8" "n mod 8 < 8"
    using n assms by (auto intro: div_less_mono)
  have "bit (word_rcat (rev (bytes_of v)) :: 'b word) n \<longleftrightarrow>
    n div 8 < length (bytes_of v) \<and> bit (bytes_of v ! (n div 8)) (n mod 8)"
    using n bit_horner_sum_uint_exp_iff [of "bytes_of v" n] by (simp add: word_rcat_def bit_simps)
  also have "\<dots> \<longleftrightarrow> bit v (8 * (n div 8) + n mod 8)"
    using n k by (simp add: bytes_of_def bit_simps del: upt_rec_numeral)
  finally show "bit (word_rcat (rev (bytes_of v)) :: 'b word) n \<longleftrightarrow> bit v n"
    by simp
qed

definition bytes64 :: "64 word \<Rightarrow> byte list" where
  "bytes64 v = map (\<lambda>i. ucast (drop_bit (8 * i) v)) [0..<8]"

definition load64 :: "memory \<Rightarrow> addr \<Rightarrow> 64 word" where
  "load64 m a = word_rcat (rev (read_bytes m a 8))"

definition store64 :: "addr \<Rightarrow> 64 word \<Rightarrow> memory \<Rightarrow> memory" where
  "store64 a v m = write_bytes a (bytes64 v) m"

lemma length_bytes64 [simp]: "length (bytes64 v) = 8"
  by (simp add: bytes64_def)

lemma rcat_bytes64: "word_rcat (rev (bytes64 v)) = v"
  using rcat_bytes_of [of v] by (simp add: bytes64_def bytes_of_def del: upt_rec_numeral)

lemma load_store_same [simp]: "load64 (store64 a v m) a = v"
  using read_write_same [of "bytes64 v" a m] by (simp add: load64_def store64_def rcat_bytes64)

lemma load_store_apart: "apart a 8 b 8 \<Longrightarrow> load64 (store64 b v m) a = load64 m a"
  by (simp add: load64_def store64_def read_write_apart)

lemma store64_outside: "\<not> in_range a 8 x \<Longrightarrow> store64 a v m x = m x"
  by (simp add: store64_def write_bytes_outside)

lemma load64_cong: "(\<And>x. in_range a 8 x \<Longrightarrow> m x = m' x) \<Longrightarrow> load64 m a = load64 m' a"
  unfolding load64_def by (subst read_bytes_cong [of a 8 m m']) auto

text \<open>The same for the i386 build.\<close>

type_synonym addr32 = "32 word"
type_synonym memory32 = "addr32 \<Rightarrow> byte"

definition load32 :: "memory32 \<Rightarrow> addr32 \<Rightarrow> 32 word" where
  "load32 m a = word_rcat (rev (read_bytes m a 4))"

definition store32 :: "addr32 \<Rightarrow> 32 word \<Rightarrow> memory32 \<Rightarrow> memory32" where
  "store32 a v m = write_bytes a (bytes_of v) m"

lemma length_bytes32 [simp]: "length (bytes_of (v :: 32 word)) = 4"
  by (simp add: bytes_of_def)

lemma load32_store32 [simp]: "load32 (store32 a v m) a = v"
  using read_write_at [of "bytes_of v" a m] rcat_bytes_of [of v] by (simp add: load32_def store32_def)

lemma load32_store32_apart: "apart a 4 b 4 \<Longrightarrow> load32 (store32 b v m) a = load32 m a"
  by (simp add: load32_def store32_def read_write_elsewhere)

lemma store32_outside: "\<not> in_range a 4 x \<Longrightarrow> store32 a v m x = m x"
  by (simp add: store32_def write_bytes_outside)

lemma load32_cong: "(\<And>x. in_range a 4 x \<Longrightarrow> m x = m' x) \<Longrightarrow> load32 m a = load32 m' a"
  unfolding load32_def by (subst read_bytes_same [of a 4 m m']) auto

end
