(* ===== verification/Mcontext.thy ===== *)
theory Mcontext
  imports Fasco_Memory
begin

text \<open>
  The machine context of mco/Mcontext.h, Mcontext.cpp and swap.S, for the \<open>__x86_64__\<close>
  build: the register slots, \<open>McontextInit\<close>, \<open>McontextMake\<close>, the instructions of \<open>mco_swap\<close>
  over registers and byte memory, and the functional context switch \<open>mcontext_swap\<close> that
  the coroutine layer uses, which the instruction sequence is shown to implement.
\<close>

subsection \<open>Registers and contexts\<close>

text \<open>
  The slots of \<open>Mcontext::regs\<close>, in the order of the \<open>#define\<close>s. The slot \<open>RET\<close> holds the
  instruction address; in a CPU's register file it stands for the instruction pointer.
\<close>

datatype reg = RAX | RBX | RCX | RDX | RDI | RSI | RBP | R8 | R9 | R10 | R11 | R12 | R13
  | R14 | R15 | RET | RSP

type_synonym regfile = "reg \<Rightarrow> 64 word"

fun slot :: "reg \<Rightarrow> nat" where
  "slot RAX = 0"
| "slot RBX = 1"
| "slot RCX = 2"
| "slot RDX = 3"
| "slot RDI = 4"
| "slot RSI = 5"
| "slot RBP = 6"
| "slot R8 = 7"
| "slot R9 = 8"
| "slot R10 = 9"
| "slot R11 = 10"
| "slot R12 = 11"
| "slot R13 = 12"
| "slot R14 = 13"
| "slot R15 = 14"
| "slot RET = 15"
| "slot RSP = 16"

record Mcontext =
  regs :: regfile
  ss_size :: "64 word"
  ss_sp :: addr

definition McontextInit :: "Mcontext \<Rightarrow> Mcontext" where
  "McontextInit c = \<lparr>regs = (\<lambda>_. 0), ss_size = 0, ss_sp = 0\<rparr>"

definition McontextMake :: "Mcontext \<Rightarrow> 64 word \<Rightarrow> 64 word \<Rightarrow> Mcontext" where
  "McontextMake c pfn conarg =
    (let c = c\<lparr>regs := (\<lambda>_. 0)\<rparr>;
         sp = ss_sp c + ss_size c - 1;
         sp = sp AND (- 16);
         c = c\<lparr>regs := (regs c)(RDI := conarg)\<rparr>;
         c = c\<lparr>regs := (regs c)(RSP := sp - 8)\<rparr>
     in c\<lparr>regs := (regs c)(RET := pfn)\<rparr>)"

subsection \<open>The functional context switch\<close>

text \<open>
  \<open>cpu\<close> is the register file of the caller of \<open>mco_swap\<close> as it is to be resumed: \<open>RET\<close> the
  return address the call pushed, \<open>RSP\<close> the stack pointer after that return.
\<close>

definition save_regs :: "regfile \<Rightarrow> regfile" where
  "save_regs cpu = cpu(RAX := cpu RSP)"

definition enter_regs :: "regfile \<Rightarrow> regfile" where
  "enter_regs r = r(RAX := 0)"

definition mcontext_swap :: "regfile \<Rightarrow> Mcontext \<Rightarrow> Mcontext \<Rightarrow> Mcontext \<times> regfile" where
  "mcontext_swap cpu cur co = (cur\<lparr>regs := save_regs cpu\<rparr>, enter_regs (regs co))"

subsection \<open>The instructions of mco_swap\<close>

datatype instr =
    LEAQ "64 word" reg reg
  | PUSHQ reg
  | PUSHQ_MEM "64 word" reg
  | POPQ reg
  | MOVQ reg reg
  | XORL_EAX
  | RETQ

record machine =
  rfile :: regfile
  mmem :: memory

definition push64 :: "64 word \<Rightarrow> machine \<Rightarrow> machine" where
  "push64 v m = m\<lparr>rfile := (rfile m)(RSP := rfile m RSP - 8),
     mmem := store64 (rfile m RSP - 8) v (mmem m)\<rparr>"

definition pop64 :: "reg \<Rightarrow> machine \<Rightarrow> machine" where
  "pop64 r m = m\<lparr>rfile := (rfile m)(RSP := rfile m RSP + 8, r := load64 (mmem m) (rfile m RSP))\<rparr>"

fun exec1 :: "instr \<Rightarrow> machine \<Rightarrow> machine" where
  "exec1 (LEAQ d b r) m = m\<lparr>rfile := (rfile m)(r := rfile m b + d)\<rparr>"
| "exec1 (PUSHQ r) m = push64 (rfile m r) m"
| "exec1 (PUSHQ_MEM d b) m = push64 (load64 (mmem m) (rfile m b + d)) m"
| "exec1 (POPQ r) m = pop64 r m"
| "exec1 (MOVQ s r) m = m\<lparr>rfile := (rfile m)(r := rfile m s)\<rparr>"
| "exec1 XORL_EAX m = m\<lparr>rfile := (rfile m)(RAX := 0)\<rparr>"
| "exec1 RETQ m = pop64 RET m"

fun exec :: "instr list \<Rightarrow> machine \<Rightarrow> machine" where
  "exec [] m = m"
| "exec (c # cs) m = exec cs (exec1 c m)"

definition mco_swap_save :: "instr list" where
  "mco_swap_save =
    [LEAQ 8 RSP RAX, LEAQ 136 RDI RSP, PUSHQ RAX, PUSHQ_MEM (- 8) RAX,
     PUSHQ R15, PUSHQ R14, PUSHQ R13, PUSHQ R12, PUSHQ R11, PUSHQ R10, PUSHQ R9, PUSHQ R8,
     PUSHQ RBP, PUSHQ RSI, PUSHQ RDI, PUSHQ RDX, PUSHQ RCX, PUSHQ RBX, PUSHQ RAX]"

definition mco_swap_load :: "instr list" where
  "mco_swap_load =
    [MOVQ RSI RSP, POPQ RAX, POPQ RBX, POPQ RCX, POPQ RDX, POPQ RDI, POPQ RSI, POPQ RBP,
     POPQ R8, POPQ R9, POPQ R10, POPQ R11, POPQ R12, POPQ R13, POPQ R14, POPQ R15,
     POPQ RAX, POPQ RSP, PUSHQ RAX, XORL_EAX, RETQ]"

definition mco_swap :: "machine \<Rightarrow> machine" where
  "mco_swap m = exec (mco_swap_save @ mco_swap_load) m"

lemma exec_append: "exec (cs @ ds) m = exec ds (exec cs m)"
  by (induction cs arbitrary: m) auto

subsection \<open>Contexts in memory\<close>

text \<open>
  \<open>ctx_regs m p\<close> reads the register slots of the context at address \<open>p\<close>; \<open>ctx_store p R m\<close>
  writes them. \<open>call_view m\<close> is the caller of \<open>mco_swap\<close> as the functional switch sees it.
\<close>

definition slot_addr :: "addr \<Rightarrow> reg \<Rightarrow> addr" where
  "slot_addr p r = p + of_nat (8 * slot r)"

definition ctx_regs :: "memory \<Rightarrow> addr \<Rightarrow> regfile" where
  "ctx_regs m p = (\<lambda>r. load64 m (slot_addr p r))"

definition slots_down :: "reg list" where
  "slots_down = [RSP, RET, R15, R14, R13, R12, R11, R10, R9, R8, RBP, RSI, RDI, RDX, RCX, RBX, RAX]"

definition ctx_store :: "addr \<Rightarrow> regfile \<Rightarrow> memory \<Rightarrow> memory" where
  "ctx_store p R m = fold (\<lambda>r. store64 (slot_addr p r) (R r)) slots_down m"

definition call_view :: "machine \<Rightarrow> regfile" where
  "call_view m = (rfile m)(RSP := rfile m RSP + 8, RET := load64 (mmem m) (rfile m RSP))"

lemma slots_apart: "r \<noteq> r' \<Longrightarrow>
  apart (slot_addr p r) 8 (slot_addr p r') 8"
  by (cases r; cases r') (simp_all add: apart_def slot_addr_def)

lemma ctx_regs_store1:
  "ctx_regs (store64 (slot_addr p r) v m) p = (ctx_regs m p)(r := v)"
  by (rule ext) (auto simp: ctx_regs_def load_store_apart [OF slots_apart])

lemma ctx_regs_fold:
  "ctx_regs (fold (\<lambda>r. store64 (slot_addr p r) (R r)) rs m) p =
   (\<lambda>r. if r \<in> set rs then R r else ctx_regs m p r)"
  by (induction rs arbitrary: m) (auto simp: ctx_regs_store1 fun_eq_iff)

lemma slots_down_all: "r \<in> set slots_down"
  by (cases r) (simp_all add: slots_down_def)

lemma ctx_regs_store: "ctx_regs (ctx_store p R m) p = R"
  by (simp add: ctx_store_def ctx_regs_fold slots_down_all)

lemma slot_in_ctx: "in_range (slot_addr p r) 8 x \<Longrightarrow> in_range p 136 x"
proof -
  assume "in_range (slot_addr p r) 8 x"
  then have d: "unat (x - p - of_nat (8 * slot r)) < 8"
    by (simp add: in_range_def slot_addr_def diff_diff_eq)
  have s: "8 * slot r \<le> 128"
    by (cases r) simp_all
  have "unat (x - p) \<le> unat (x - p - of_nat (8 * slot r)) + unat (of_nat (8 * slot r) :: 64 word)"
    by (metis diff_add_cancel unat_word_ariths(1) mod_less_eq_dividend)
  also have "unat (of_nat (8 * slot r) :: 64 word) = 8 * slot r"
    using s by (simp only: unat_of_nat) (simp add: take_bit_nat_eq_self)
  finally show ?thesis
    using d s by (simp add: in_range_def)
qed

lemma ctx_store_outside: "\<not> in_range p 136 x \<Longrightarrow> ctx_store p R m x = m x"
proof -
  assume "\<not> in_range p 136 x"
  then have "\<not> in_range (slot_addr p r) 8 x" for r
    using slot_in_ctx by blast
  then have "fold (\<lambda>r. store64 (slot_addr p r) (R r)) rs m x = m x" for rs
    by (induction rs arbitrary: m) (simp_all add: store64_outside)
  then show ?thesis by (simp add: ctx_store_def)
qed

lemma ctx_regs_cong:
  assumes "\<And>x. in_range p 136 x \<Longrightarrow> m x = m' x"
  shows "ctx_regs m p = ctx_regs m' p"
  unfolding ctx_regs_def using assms slot_in_ctx
  by (intro ext load64_cong) blast

subsection \<open>mco_swap implements the functional switch\<close>

lemma exec_save:
  assumes "apart (rfile m RSP) 8 (rfile m RDI + 128) 8"
  shows "exec mco_swap_save m = m\<lparr>rfile := (rfile m)(RAX := rfile m RSP + 8, RSP := rfile m RDI),
    mmem := ctx_store (rfile m RDI) (save_regs (call_view m)) (mmem m)\<rparr>"
proof -
  have "load64 (store64 (rfile m RDI + 128) v (mmem m)) (rfile m RSP) = load64 (mmem m) (rfile m RSP)"
    for v
    using assms by (rule load_store_apart)
  then show ?thesis
    by (simp add: mco_swap_save_def push64_def ctx_store_def slots_down_def save_regs_def
        call_view_def slot_addr_def add.commute)
qed

lemma exec_load:
  defines "Q m \<equiv> ctx_regs (mmem m) (rfile m RSI)"
  shows "exec mco_swap_load m = m\<lparr>rfile := enter_regs (Q m),
    mmem := store64 (Q m RSP - 8) (Q m RET) (mmem m)\<rparr>"
proof -
  have "rfile (exec mco_swap_load m) r = enter_regs (Q m) r" for r
    by (cases r) (simp_all add: mco_swap_load_def push64_def pop64_def enter_regs_def Q_def
        ctx_regs_def slot_addr_def add.commute)
  moreover have "mmem (exec mco_swap_load m) = store64 (Q m RSP - 8) (Q m RET) (mmem m)"
    by (simp add: mco_swap_load_def push64_def pop64_def Q_def ctx_regs_def slot_addr_def
        add.commute)
  ultimately show ?thesis
    by (intro machine.equality) (auto simp: fun_eq_iff)
qed

text \<open>
  C14. The 38 instructions of \<open>mco_swap\<close> implement the functional context switch: called with the
  suspended context at \<open>rdi\<close> and the target at \<open>rsi\<close> (disjoint, and the return address
  not inside the saved context), the CPU ends with the target's registers (\<open>rax\<close> zero, the
  instruction pointer at the target's resume address), the memory at \<open>rdi\<close> holds the
  caller's registers as they are to be resumed, and no other byte changes but the eight just
  below the target's stack pointer.
\<close>

theorem mco_swap_refines:
  assumes ret: "apart (rfile m RSP) 8 (rfile m RDI + 128) 8"
    and dis: "apart (rfile m RDI) 136 (rfile m RSI) 136"
    and co: "regs co = ctx_regs (mmem m) (rfile m RSI)"
    and swap: "mcontext_swap (call_view m) cur co = (cur', cpu')"
  shows "rfile (mco_swap m) = cpu' \<and>
    mmem (mco_swap m) = store64 (cpu' RSP - 8) (cpu' RET)
      (ctx_store (rfile m RDI) (regs cur') (mmem m))"
proof -
  let ?m = "exec mco_swap_save m"
  have saved: "?m = m\<lparr>rfile := (rfile m)(RAX := rfile m RSP + 8, RSP := rfile m RDI),
      mmem := ctx_store (rfile m RDI) (save_regs (call_view m)) (mmem m)\<rparr>"
    by (rule exec_save [OF ret])
  have rsi: "rfile ?m RSI = rfile m RSI"
    by (simp add: saved)
  have "mmem ?m x = mmem m x" if "in_range (rfile m RSI) 136 x" for x
    using that dis by (auto simp: saved intro!: ctx_store_outside dest: apart_disjoint)
  then have "ctx_regs (mmem ?m) (rfile ?m RSI) = ctx_regs (mmem m) (rfile m RSI)"
    unfolding rsi by (rule ctx_regs_cong)
  then have "mco_swap m = ?m\<lparr>rfile := enter_regs (regs co),
      mmem := store64 (regs co RSP - 8) (regs co RET) (mmem ?m)\<rparr>"
    by (simp add: mco_swap_def exec_append exec_load co)
  then show ?thesis
    using swap by (auto simp: saved mcontext_swap_def enter_regs_def)
qed

text \<open>
  A concrete machine for the witnesses: registers numbered by their slots, the contexts at
  4096 and 8192, the stack at 65536 with return address 77.
\<close>

definition demo_machine :: machine where
  "demo_machine = \<lparr>rfile = (\<lambda>r. of_nat (slot r))(RDI := 4096, RSI := 8192, RSP := 65536),
     mmem = store64 65536 77 (ctx_store 8192 (\<lambda>r. 1000 + of_nat (slot r)) (\<lambda>_. 0))\<rparr>"

lemma demo_machine_target:
  "ctx_regs (mmem demo_machine) 8192 = (\<lambda>r. 1000 + of_nat (slot r))"
proof -
  have "mmem demo_machine x = ctx_store 8192 (\<lambda>r. 1000 + of_nat (slot r)) (\<lambda>_. 0) x"
    if "in_range 8192 136 x" for x
  proof -
    have "apart (8192 :: addr) 136 65536 8" by (simp add: apart_def)
    with that have "\<not> in_range 65536 8 x" by (blast dest: apart_disjoint)
    then show ?thesis by (simp add: demo_machine_def store64_outside)
  qed
  then have "ctx_regs (mmem demo_machine) 8192 =
      ctx_regs (ctx_store 8192 (\<lambda>r. 1000 + of_nat (slot r)) (\<lambda>_. 0)) 8192"
    by (rule ctx_regs_cong)
  then show ?thesis by (simp add: ctx_regs_store)
qed

theorem mco_swap_refines_witness:
  "rfile (mco_swap demo_machine) RET = 1015 \<and> rfile (mco_swap demo_machine) RSP = 1016 \<and>
   rfile (mco_swap demo_machine) RBX = 1001 \<and> rfile (mco_swap demo_machine) RAX = 0"
proof -
  let ?c = "\<lparr>regs = \<lambda>r. 1000 + of_nat (slot r), ss_size = 0, ss_sp = 0\<rparr>"
  have 1: "apart (rfile demo_machine RSP) 8 (rfile demo_machine RDI + 128) 8"
    and 2: "apart (rfile demo_machine RDI) 136 (rfile demo_machine RSI) 136"
    and 3: "regs ?c = ctx_regs (mmem demo_machine) (rfile demo_machine RSI)"
    using demo_machine_target by (simp_all add: demo_machine_def apart_def)
  from mco_swap_refines [OF 1 2 3, of ?c "fst (mcontext_swap (call_view demo_machine) ?c ?c)"
      "snd (mcontext_swap (call_view demo_machine) ?c ?c)"]
  show ?thesis by (simp add: mcontext_swap_def enter_regs_def)
qed

subsection \<open>There and back\<close>

text \<open>
  The contract of a context switch, as the coroutine layer relies on it, for any register file with
  an accumulator and a stack pointer: what is saved of the
  caller and what the target continues with. Its consequence is the round trip: whoever
  switches to a context saved by a switch gives its owner every register back as it was,
  but the accumulator, which carries the zero result.
\<close>

locale context_switch =
  fixes swap :: "('r \<Rightarrow> 'v::zero) \<Rightarrow> 'c \<Rightarrow> 'c \<Rightarrow> 'c \<times> ('r \<Rightarrow> 'v)"
    and saved :: "'c \<Rightarrow> 'r \<Rightarrow> 'v"
    and acc sp :: 'r
  assumes switch_saves: "saved (fst (swap cpu cur co)) r = (if r = acc then cpu sp else cpu r)"
    and switch_enters: "snd (swap cpu cur co) r = (if r = acc then 0 else saved co r)"
begin

lemma there_and_back:
  assumes "saved co' = saved (fst (swap cpu cur co))"
  shows "snd (swap cpu' other co') = cpu(acc := 0)"
  by (rule ext) (simp add: switch_enters assms switch_saves)

lemma enters_resume_point: "r \<noteq> acc \<Longrightarrow> snd (swap cpu cur co) r = saved co r"
  by (simp add: switch_enters)

end

interpretation sw: context_switch mcontext_swap regs RAX RSP
  by unfold_locales (simp_all add: mcontext_swap_def save_regs_def enter_regs_def)

text \<open>
  The round trip of the assembly: after one \<open>mco_swap\<close> away and, later, from any machine
  state in which the saved context is intact, one \<open>mco_swap\<close> back, every register is what it
  was before the first call returned (the callee-saved ones among them), the stack pointer is
  the caller's, execution continues at the caller's return address, and \<open>eax\<close> is 0.
\<close>

theorem mco_swap_there_and_back:
  assumes away: "apart (rfile m RSP) 8 (rfile m RDI + 128) 8"
      "apart (rfile m RDI) 136 (rfile m RSI) 136"
    and below: "apart (rfile m RDI) 136 (ctx_regs (mmem m) (rfile m RSI) RSP - 8) 8"
    and intact: "rfile n RSI = rfile m RDI"
      "ctx_regs (mmem n) (rfile m RDI) = ctx_regs (mmem (mco_swap m)) (rfile m RDI)"
    and again: "apart (rfile n RSP) 8 (rfile n RDI + 128) 8"
      "apart (rfile n RDI) 136 (rfile n RSI) 136"
  shows "rfile (mco_swap n) = (call_view m)(RAX := 0)"
proof -
  let ?q = "\<lparr>regs = ctx_regs (mmem m) (rfile m RSI), ss_size = 0, ss_sp = 0\<rparr>"
  let ?p = "\<lparr>regs = ctx_regs (mmem n) (rfile n RSI), ss_size = 0, ss_sp = 0\<rparr>"
  obtain p' cpu' where S: "mcontext_swap (call_view m) ?p ?q = (p', cpu')"
    by (cases "mcontext_swap (call_view m) ?p ?q")
  have mem: "mmem (mco_swap m) = store64 (cpu' RSP - 8) (cpu' RET)
      (ctx_store (rfile m RDI) (regs p') (mmem m))"
    using mco_swap_refines [OF away _ S] by simp
  have rsp: "cpu' RSP = ctx_regs (mmem m) (rfile m RSI) RSP"
    using S by (auto simp: mcontext_swap_def enter_regs_def)
  have "ctx_regs (mmem (mco_swap m)) (rfile m RDI) =
      ctx_regs (ctx_store (rfile m RDI) (regs p') (mmem m)) (rfile m RDI)"
    by (rule ctx_regs_cong)
      (use below in \<open>auto simp: mem rsp intro!: store64_outside dest: apart_disjoint\<close>)
  then have intact': "regs ?p = regs (fst (mcontext_swap (call_view m) ?p ?q))"
    unfolding S fst_conv using intact by (simp add: ctx_regs_store)
  obtain q' cpu'' where B: "mcontext_swap (call_view n) ?q ?p = (q', cpu'')"
    by (cases "mcontext_swap (call_view n) ?q ?p")
  have "rfile (mco_swap n) = cpu''"
    using mco_swap_refines [OF again _ B] by simp
  also have "cpu'' = (call_view m)(RAX := 0)"
    using sw.there_and_back [OF intact', of "call_view n" ?q] by (simp only: B snd_conv)
  finally show ?thesis .
qed

text \<open>The witness: the demo machine switches away, and its target switches straight back.\<close>

definition demo_back :: machine where
  "demo_back = \<lparr>rfile = (\<lambda>r. 0)(RDI := 8192, RSI := 4096, RSP := 131072),
     mmem = mmem (mco_swap demo_machine)\<rparr>"

theorem mco_swap_there_and_back_witness:
  "rfile (mco_swap demo_back) = (call_view demo_machine)(RAX := 0) \<and>
   rfile (mco_swap demo_back) RET = 77 \<and> rfile (mco_swap demo_back) RSP = 65544"
proof -
  have 1: "apart (rfile demo_machine RSP) 8 (rfile demo_machine RDI + 128) 8"
      "apart (rfile demo_machine RDI) 136 (rfile demo_machine RSI) 136"
      "apart (rfile demo_machine RDI) 136
         (ctx_regs (mmem demo_machine) (rfile demo_machine RSI) RSP - 8) 8"
    using demo_machine_target by (simp_all add: demo_machine_def apart_def)
  have 2: "rfile demo_back RSI = rfile demo_machine RDI"
      "ctx_regs (mmem demo_back) (rfile demo_machine RDI) =
         ctx_regs (mmem (mco_swap demo_machine)) (rfile demo_machine RDI)"
      "apart (rfile demo_back RSP) 8 (rfile demo_back RDI + 128) 8"
      "apart (rfile demo_back RDI) 136 (rfile demo_back RSI) 136"
    by (simp_all add: demo_back_def demo_machine_def apart_def)
  show ?thesis
    using mco_swap_there_and_back [OF 1 2]
    by (simp add: call_view_def demo_machine_def)
qed

subsection \<open>Fresh contexts\<close>

lemma unat_and_m16:
  fixes x :: "'a::len word"
  shows "unat (x AND (- 16)) = unat x - unat x mod 16"
proof -
  have m: "(- 16 :: 'a word) = NOT (mask 4)"
    by (simp add: mask_eq_decr_exp not_eq_complement)
  have "(x AND mask 4) AND (x AND NOT (mask 4)) = 0"
    "(x AND mask 4) OR (x AND NOT (mask 4)) = x"
    by (auto intro!: bit_word_eqI simp: bit_simps)
  then have s: "(x AND mask 4) + (x AND NOT (mask 4)) = x"
    using word_plus_and_or [of "x AND mask 4" "x AND NOT (mask 4)"] by simp
  have k: "unat (x AND mask 4) = unat x mod 16"
    by (simp only: take_bit_eq_mask [symmetric] unsigned_take_bit_eq) (simp add: take_bit_eq_mod)
  have "x AND NOT (mask 4) = x - (x AND mask 4)"
    using s by (metis add_diff_cancel_left')
  moreover have "x AND mask 4 \<le> x"
    by (simp add: word_and_le2)
  ultimately show ?thesis
    by (simp add: m unat_sub k)
qed

lemma align_down_nat:
  fixes t :: nat
  assumes "16 \<le> t"
  shows "t - t mod 16 - 8 = 16 * (t div 16 - 1) + 8" and "t < t - t mod 16 - 8 + 24"
    and "t - t mod 16 - 8 + 8 \<le> t" and "8 \<le> t - t mod 16"
proof -
  have e: "t - t mod 16 = 16 * (t div 16)"
    by (simp add: minus_mod_eq_mult_div)
  obtain k where k: "t div 16 = Suc k"
    using assms by (cases "t div 16") (auto simp: div_eq_0_iff)
  show "t - t mod 16 - 8 = 16 * (t div 16 - 1) + 8"
    unfolding e k by simp
  have t: "t = 16 * Suc k + t mod 16" and m: "t mod 16 < 16"
    using k div_mult_mod_eq [of t 16] by simp_all
  show "t < t - t mod 16 - 8 + 24"
    unfolding e k using t m by linarith
  show "t - t mod 16 - 8 + 8 \<le> t"
    unfolding e k using t by simp
  show "8 \<le> t - t mod 16"
    unfolding e k by simp
qed

lemma unat_align_down:
  fixes x :: "64 word"
  assumes "16 \<le> unat x"
  shows "unat ((x AND (- 16)) - 8) = unat x - unat x mod 16 - 8"
proof -
  have "8 \<le> unat x - unat x mod 16"
    using assms by (rule align_down_nat)
  then have "8 \<le> x AND (- 16)"
    by (simp add: word_le_nat_alt unat_and_m16)
  then show ?thesis
    by (simp add: unat_sub unat_and_m16)
qed

text \<open>
  A context made by \<open>McontextMake\<close> starts its function as the x86-64 ABI asks: the switch
  to it continues at \<open>pfn\<close> with the argument in \<open>rdi\<close> and every other general register 0;
  the stack pointer is 8 modulo 16, and both the slot \<open>mco_swap\<close> writes below it and the
  return-address slot at it lie inside the stack block, provided the block has 32 bytes and
  does not wrap around.
\<close>

theorem McontextMake_entry:
  assumes size: "32 \<le> unat (ss_size c)"
    and nowrap: "unat (ss_sp c) + unat (ss_size c) \<le> 2 ^ 64"
    and R: "R = snd (mcontext_swap cpu cur (McontextMake c pfn arg))"
  shows "R RET = pfn \<and> R RDI = arg \<and> (\<forall>r. r \<notin> {RET, RDI, RSP} \<longrightarrow> R r = 0) \<and>
    unat (R RSP) mod 16 = 8 \<and>
    unat (ss_sp c) + 8 \<le> unat (R RSP) \<and>
    unat (R RSP) + 8 \<le> unat (ss_sp c) + unat (ss_size c)"
proof -
  let ?top = "ss_sp c + ss_size c - 1"
  have "1 \<le> ss_size c"
    using size by (simp add: word_le_nat_alt)
  then have d: "unat (ss_size c - 1) = unat (ss_size c) - 1"
    by (simp add: unat_sub)
  have "unat ?top = unat (ss_sp c + (ss_size c - 1))"
    by (simp add: algebra_simps)
  also have "\<dots> = unat (ss_sp c) + (unat (ss_size c) - 1)"
    using nowrap size d by (subst unat_word_ariths) simp
  finally have top: "unat ?top = unat (ss_sp c) + (unat (ss_size c) - 1)" .
  have rsp: "R RSP = (?top AND (- 16)) - 8"
    using R by (simp add: mcontext_swap_def enter_regs_def McontextMake_def Let_def)
  have t16: "16 \<le> unat ?top"
    using top size by simp
  have "unat (R RSP) = unat ?top - unat ?top mod 16 - 8"
    unfolding rsp by (rule unat_align_down [OF t16])
  then have sp: "unat (R RSP) = 16 * (unat ?top div 16 - 1) + 8"
      "unat ?top < unat (R RSP) + 24" "unat (R RSP) + 8 \<le> unat ?top"
    using align_down_nat [OF t16] by simp_all
  have "unat (R RSP) mod 16 = 8"
    unfolding sp(1) by (simp only: mod_mult_self4 mod_less)
  then have "unat (R RSP) mod 16 = 8 \<and> unat (ss_sp c) + 8 \<le> unat (R RSP) \<and>
      unat (R RSP) + 8 \<le> unat (ss_sp c) + unat (ss_size c)"
    using sp(2,3) top size by linarith
  moreover have "R r = 0" if "r \<notin> {RET, RDI, RSP}" for r
    using R that by (simp add: mcontext_swap_def enter_regs_def McontextMake_def Let_def)
  moreover have "R RET = pfn" "R RDI = arg"
    using R by (simp_all add: mcontext_swap_def enter_regs_def McontextMake_def Let_def)
  ultimately show ?thesis by blast
qed

theorem McontextMake_entry_witness:
  "snd (mcontext_swap (\<lambda>_. 0) \<lparr>regs = \<lambda>_. 1, ss_size = 1, ss_sp = 1\<rparr>
       (McontextMake \<lparr>regs = \<lambda>_. 5, ss_size = 4096, ss_sp = 65536\<rparr> 7 9)) RSP
     = 69608 \<and> unat (69608 :: 64 word) mod 16 = 8"
  using McontextMake_entry [OF _ _ refl, of "\<lparr>regs = \<lambda>_. 5, ss_size = 4096, ss_sp = 65536\<rparr>"
      "\<lambda>_. 0" "\<lparr>regs = \<lambda>_. 1, ss_size = 1, ss_sp = 1\<rparr>" 7 9]
  by (simp add: mcontext_swap_def enter_regs_def McontextMake_def Let_def)

end
