(* ===== verification/Mcontext_i386.thy ===== *)
theory Mcontext_i386
  imports Mcontext
begin

text \<open>
  The machine context of mco/Mcontext.h, Mcontext.cpp and swap.S for the \<open>__i386__\<close> build. The
  arguments of a call are on the stack here: \<open>mco_swap\<close> finds its two contexts above the return
  address, and \<open>McontextMake\<close> writes the argument of the function into the new stack. The
  coroutine layer is modelled for the x86-64 build; what it relies on of a switch is the
  locale \<open>context_switch\<close>, which this build satisfies as well.
\<close>

subsection \<open>Registers and contexts\<close>

datatype reg32 = EAX | EBX | ECX | EDX | EDI | ESI | EBP | ERET | ESP

type_synonym regfile32 = "reg32 \<Rightarrow> 32 word"

fun slot32 :: "reg32 \<Rightarrow> nat" where
  "slot32 EAX = 0"
| "slot32 EBX = 1"
| "slot32 ECX = 2"
| "slot32 EDX = 3"
| "slot32 EDI = 4"
| "slot32 ESI = 5"
| "slot32 EBP = 6"
| "slot32 ERET = 7"
| "slot32 ESP = 8"

record Mcontext32 =
  regs32 :: regfile32
  ss_size32 :: "32 word"
  ss_sp32 :: addr32

definition McontextInit32 :: "Mcontext32 \<Rightarrow> Mcontext32" where
  "McontextInit32 c = \<lparr>regs32 = (\<lambda>_. 0), ss_size32 = 0, ss_sp32 = 0\<rparr>"

definition McontextMake32 :: "Mcontext32 \<Rightarrow> 32 word \<Rightarrow> 32 word \<Rightarrow> memory32 \<Rightarrow> Mcontext32 \<times> memory32" where
  "McontextMake32 c pfn s m =
    (let c = c\<lparr>regs32 := (\<lambda>_. 0)\<rparr>;
         sp = ss_sp32 c + ss_size32 c - 4;
         sp = sp AND (- 16);
         m = store32 sp s m;
         c = c\<lparr>regs32 := (regs32 c)(ESP := sp - 4)\<rparr>
     in (c\<lparr>regs32 := (regs32 c)(ERET := pfn)\<rparr>, m))"

definition mcontext_swap32 :: "regfile32 \<Rightarrow> Mcontext32 \<Rightarrow> Mcontext32 \<Rightarrow> Mcontext32 \<times> regfile32" where
  "mcontext_swap32 cpu cur co = (cur\<lparr>regs32 := cpu(EAX := cpu ESP)\<rparr>, (regs32 co)(EAX := 0))"

interpretation sw32: context_switch mcontext_swap32 regs32 EAX ESP
  by unfold_locales (simp_all add: mcontext_swap32_def)

subsection \<open>The instructions of mco_swap\<close>

datatype instr32 =
    LEAL "32 word" reg32 reg32
  | MOVL_MEM "32 word" reg32 reg32
  | PUSHL reg32
  | PUSHL_MEM "32 word" reg32
  | POPL reg32
  | XORL_EAX_EAX
  | RETL

record machine32 =
  rfile32 :: regfile32
  mmem32 :: memory32

definition push32 :: "32 word \<Rightarrow> machine32 \<Rightarrow> machine32" where
  "push32 v m = m\<lparr>rfile32 := (rfile32 m)(ESP := rfile32 m ESP - 4),
     mmem32 := store32 (rfile32 m ESP - 4) v (mmem32 m)\<rparr>"

definition pop32 :: "reg32 \<Rightarrow> machine32 \<Rightarrow> machine32" where
  "pop32 r m = m\<lparr>rfile32 := (rfile32 m)(ESP := rfile32 m ESP + 4, r := load32 (mmem32 m) (rfile32 m ESP))\<rparr>"

fun step32 :: "instr32 \<Rightarrow> machine32 \<Rightarrow> machine32" where
  "step32 (LEAL d b r) m = m\<lparr>rfile32 := (rfile32 m)(r := rfile32 m b + d)\<rparr>"
| "step32 (MOVL_MEM d b r) m = m\<lparr>rfile32 := (rfile32 m)(r := load32 (mmem32 m) (rfile32 m b + d))\<rparr>"
| "step32 (PUSHL r) m = push32 (rfile32 m r) m"
| "step32 (PUSHL_MEM d b) m = push32 (load32 (mmem32 m) (rfile32 m b + d)) m"
| "step32 (POPL r) m = pop32 r m"
| "step32 XORL_EAX_EAX m = m\<lparr>rfile32 := (rfile32 m)(EAX := 0)\<rparr>"
| "step32 RETL m = pop32 ERET m"

definition exec32 :: "instr32 list \<Rightarrow> machine32 \<Rightarrow> machine32" where
  "exec32 cs m = fold step32 cs m"

definition mco_swap32_save :: "instr32 list" where
  "mco_swap32_save =
    [LEAL 4 ESP EAX, MOVL_MEM 4 ESP ESP, LEAL 36 ESP ESP,
     PUSHL EAX, PUSHL_MEM (- 4) EAX, PUSHL EBP, PUSHL ESI,
     PUSHL EDI, PUSHL EDX, PUSHL ECX, PUSHL EBX, PUSHL EAX]"

definition mco_swap32_load :: "instr32 list" where
  "mco_swap32_load =
    [MOVL_MEM 4 EAX ESP, POPL EAX, POPL EBX, POPL ECX, POPL EDX, POPL EDI,
     POPL ESI, POPL EBP, POPL EAX, POPL ESP, PUSHL EAX, XORL_EAX_EAX, RETL]"

definition mco_swap32 :: "machine32 \<Rightarrow> machine32" where
  "mco_swap32 m = exec32 (mco_swap32_save @ mco_swap32_load) m"

subsection \<open>Contexts in memory\<close>

definition slot_addr32 :: "addr32 \<Rightarrow> reg32 \<Rightarrow> addr32" where
  "slot_addr32 p r = p + of_nat (4 * slot32 r)"

definition ctx_regs32 :: "memory32 \<Rightarrow> addr32 \<Rightarrow> regfile32" where
  "ctx_regs32 m p = (\<lambda>r. load32 m (slot_addr32 p r))"

definition slots_down32 :: "reg32 list" where
  "slots_down32 = [ESP, ERET, EBP, ESI, EDI, EDX, ECX, EBX, EAX]"

definition ctx_store32 :: "addr32 \<Rightarrow> regfile32 \<Rightarrow> memory32 \<Rightarrow> memory32" where
  "ctx_store32 p R m = fold (\<lambda>r. store32 (slot_addr32 p r) (R r)) slots_down32 m"

text \<open>The caller of \<open>mco_swap\<close> as it is to be resumed, and the \<open>i\<close>-th argument of its call.\<close>

definition call_view32 :: "machine32 \<Rightarrow> regfile32" where
  "call_view32 m = (rfile32 m)(ESP := rfile32 m ESP + 4, ERET := load32 (mmem32 m) (rfile32 m ESP))"

definition arg32 :: "machine32 \<Rightarrow> nat \<Rightarrow> 32 word" where
  "arg32 m i = load32 (mmem32 m) (rfile32 m ESP + 4 + of_nat (4 * i))"

lemma slots_apart32: "r \<noteq> r' \<Longrightarrow> apart (slot_addr32 p r) 4 (slot_addr32 p r') 4"
  by (cases r; cases r') (simp_all add: apart_def slot_addr32_def)

lemma ctx_regs32_fold:
  "ctx_regs32 (fold (\<lambda>r. store32 (slot_addr32 p r) (R r)) rs m) p =
   (\<lambda>r. if r \<in> set rs then R r else ctx_regs32 m p r)"
proof (induction rs arbitrary: m)
  case (Cons r rs)
  have "ctx_regs32 (store32 (slot_addr32 p r) (R r) m) p = (ctx_regs32 m p)(r := R r)"
    by (rule ext) (auto simp: ctx_regs32_def load32_store32_apart [OF slots_apart32])
  with Cons show ?case by (auto simp: fun_eq_iff)
qed simp

lemma ctx_regs32_store: "ctx_regs32 (ctx_store32 p R m) p = R"
proof -
  have "r \<in> set slots_down32" for r
    by (cases r) (simp_all add: slots_down32_def)
  then show ?thesis by (simp add: ctx_store32_def ctx_regs32_fold)
qed

lemma slot_in_ctx32: "in_range (slot_addr32 p r) 4 x \<Longrightarrow> in_range p 36 x"
proof -
  assume "in_range (slot_addr32 p r) 4 x"
  then have d: "unat (x - p - of_nat (4 * slot32 r)) < 4"
    by (simp add: in_range_def slot_addr32_def diff_diff_eq)
  have s: "4 * slot32 r \<le> 32"
    by (cases r) simp_all
  have "unat (x - p) \<le> unat (x - p - of_nat (4 * slot32 r)) + unat (of_nat (4 * slot32 r) :: 32 word)"
    by (metis diff_add_cancel unat_word_ariths(1) mod_less_eq_dividend)
  also have "unat (of_nat (4 * slot32 r) :: 32 word) = 4 * slot32 r"
    using s by (simp only: unat_of_nat) (simp add: take_bit_nat_eq_self)
  finally show ?thesis
    using d s by (simp add: in_range_def)
qed

lemma ctx_store32_outside: "\<not> in_range p 36 x \<Longrightarrow> ctx_store32 p R m x = m x"
proof -
  assume "\<not> in_range p 36 x"
  then have "\<not> in_range (slot_addr32 p r) 4 x" for r
    using slot_in_ctx32 by blast
  then have "fold (\<lambda>r. store32 (slot_addr32 p r) (R r)) rs m x = m x" for rs
    by (induction rs arbitrary: m) (simp_all add: store32_outside)
  then show ?thesis by (simp add: ctx_store32_def)
qed

lemma ctx_regs32_cong:
  assumes "\<And>x. in_range p 36 x \<Longrightarrow> m x = m' x"
  shows "ctx_regs32 m p = ctx_regs32 m' p"
  unfolding ctx_regs32_def using assms slot_in_ctx32
  by (intro ext load32_cong) blast

subsection \<open>mco_swap implements the functional switch\<close>

lemma exec32_save:
  defines "p m \<equiv> arg32 m 0"
  assumes ret: "apart (rfile32 m ESP) 4 (p m + 32) 4"
  shows "exec32 mco_swap32_save m = m\<lparr>rfile32 := (rfile32 m)(EAX := rfile32 m ESP + 4, ESP := p m),
    mmem32 := ctx_store32 (p m) ((call_view32 m)(EAX := rfile32 m ESP + 4)) (mmem32 m)\<rparr>"
proof -
  have "load32 (store32 (p m + 32) v (mmem32 m)) (rfile32 m ESP) = load32 (mmem32 m) (rfile32 m ESP)" for v
    using ret by (rule load32_store32_apart)
  then show ?thesis
    by (simp add: exec32_def mco_swap32_save_def push32_def ctx_store32_def slots_down32_def
        call_view32_def slot_addr32_def p_def arg32_def add.commute)
qed

lemma exec32_load:
  defines "Q m \<equiv> ctx_regs32 (mmem32 m) (load32 (mmem32 m) (rfile32 m EAX + 4))"
  shows "exec32 mco_swap32_load m = m\<lparr>rfile32 := (Q m)(EAX := 0),
    mmem32 := store32 (Q m ESP - 4) (Q m ERET) (mmem32 m)\<rparr>"
proof -
  have "rfile32 (exec32 mco_swap32_load m) r = ((Q m)(EAX := 0)) r" for r
    by (cases r) (simp_all add: exec32_def mco_swap32_load_def push32_def pop32_def Q_def
        ctx_regs32_def slot_addr32_def add.commute)
  moreover have "mmem32 (exec32 mco_swap32_load m) = store32 (Q m ESP - 4) (Q m ERET) (mmem32 m)"
    by (simp add: exec32_def mco_swap32_load_def push32_def pop32_def Q_def ctx_regs32_def
        slot_addr32_def add.commute)
  ultimately show ?thesis
    by (intro machine32.equality) (auto simp: fun_eq_iff)
qed

text \<open>
  C15. The 25 instructions of the i386 \<open>mco_swap\<close> implement the functional context switch: called
  with the suspended context and the target as arguments on the stack (disjoint, and neither the
  return address nor the second argument inside the saved context), the CPU ends with the target's
  registers (\<open>eax\<close> zero, the instruction pointer at the target's resume address), the first
  context holds the caller's registers as they are to be resumed, and no other byte changes but
  the four just below the target's stack pointer.
\<close>

theorem mco_swap32_refines:
  assumes ret: "apart (rfile32 m ESP) 4 (arg32 m 0 + 32) 4"
    and arg: "apart (arg32 m 0) 36 (rfile32 m ESP + 8) 4"
    and dis: "apart (arg32 m 0) 36 (arg32 m 1) 36"
    and co: "regs32 co = ctx_regs32 (mmem32 m) (arg32 m 1)"
    and swap: "mcontext_swap32 (call_view32 m) cur co = (cur', cpu')"
  shows "rfile32 (mco_swap32 m) = cpu' \<and>
    mmem32 (mco_swap32 m) = store32 (cpu' ESP - 4) (cpu' ERET)
      (ctx_store32 (arg32 m 0) (regs32 cur') (mmem32 m))"
proof -
  let ?m = "exec32 mco_swap32_save m"
  have saved: "?m = m\<lparr>rfile32 := (rfile32 m)(EAX := rfile32 m ESP + 4, ESP := arg32 m 0),
      mmem32 := ctx_store32 (arg32 m 0) ((call_view32 m)(EAX := rfile32 m ESP + 4)) (mmem32 m)\<rparr>"
    by (rule exec32_save [OF ret])
  have same: "mmem32 ?m x = mmem32 m x" if "\<not> in_range (arg32 m 0) 36 x" for x
    using that by (simp add: saved ctx_store32_outside)
  have q: "load32 (mmem32 ?m) (rfile32 ?m EAX + 4) = arg32 m 1"
    unfolding arg32_def [of m 1] using arg same
    by (auto simp: saved add.assoc intro!: load32_cong dest: apart_disjoint [OF apart_sym])
  have "ctx_regs32 (mmem32 ?m) (arg32 m 1) = ctx_regs32 (mmem32 m) (arg32 m 1)"
    using dis same by (intro ctx_regs32_cong) (blast dest: apart_disjoint)
  then have "mco_swap32 m = ?m\<lparr>rfile32 := (regs32 co)(EAX := 0),
      mmem32 := store32 (regs32 co ESP - 4) (regs32 co ERET) (mmem32 ?m)\<rparr>"
    using exec32_load [of ?m] q co by (simp add: mco_swap32_def exec32_def)
  then show ?thesis
    using swap by (auto simp: saved mcontext_swap32_def call_view32_def)
qed

text \<open>
  A machine for the witness: the contexts at 4096 and 8192, their addresses above the return
  address 77 on the stack at 65536.
\<close>

definition demo_machine32 :: machine32 where
  "demo_machine32 = \<lparr>rfile32 = (\<lambda>r. of_nat (slot32 r))(ESP := 65536),
     mmem32 = store32 65544 8192 (store32 65540 4096 (store32 65536 77
       (ctx_store32 8192 (\<lambda>r. 1000 + of_nat (slot32 r)) (\<lambda>_. 0))))\<rparr>"

lemma demo_machine32_args:
  "load32 (mmem32 demo_machine32) 65536 = 77" "arg32 demo_machine32 0 = 4096" "arg32 demo_machine32 1 = 8192"
  by (simp_all add: demo_machine32_def arg32_def load32_store32_apart apart_def)

lemma demo_machine32_target:
  "ctx_regs32 (mmem32 demo_machine32) 8192 = (\<lambda>r. 1000 + of_nat (slot32 r))"
proof -
  let ?m = "ctx_store32 8192 (\<lambda>r. 1000 + of_nat (slot32 r)) (\<lambda>_. 0)"
  have "mmem32 demo_machine32 x = ?m x" if x: "in_range 8192 36 x" for x
  proof -
    have "apart (8192 :: addr32) 36 a 4" if "a \<in> {65536, 65540, 65544}" for a
      using that by (auto simp: apart_def)
    then have "\<not> in_range a 4 x" if "a \<in> {65536, 65540, 65544}" for a
      using that x by (blast dest: apart_disjoint)
    then show ?thesis by (simp add: demo_machine32_def store32_outside)
  qed
  then have "ctx_regs32 (mmem32 demo_machine32) 8192 = ctx_regs32 ?m 8192"
    by (rule ctx_regs32_cong)
  then show ?thesis by (simp add: ctx_regs32_store)
qed

theorem mco_swap32_refines_witness:
  "rfile32 (mco_swap32 demo_machine32) ERET = 1007 \<and> rfile32 (mco_swap32 demo_machine32) ESP = 1008 \<and>
   rfile32 (mco_swap32 demo_machine32) EBX = 1001 \<and> rfile32 (mco_swap32 demo_machine32) EAX = 0"
proof -
  let ?c = "\<lparr>regs32 = \<lambda>r. 1000 + of_nat (slot32 r), ss_size32 = 0, ss_sp32 = 0\<rparr>"
  let ?s = "mcontext_swap32 (call_view32 demo_machine32) ?c ?c"
  have esp: "rfile32 demo_machine32 ESP = 65536"
    by (simp add: demo_machine32_def)
  have "apart (rfile32 demo_machine32 ESP) 4 (arg32 demo_machine32 0 + 32) 4"
      "apart (arg32 demo_machine32 0) 36 (rfile32 demo_machine32 ESP + 8) 4"
      "apart (arg32 demo_machine32 0) 36 (arg32 demo_machine32 1) 36"
      "regs32 ?c = ctx_regs32 (mmem32 demo_machine32) (arg32 demo_machine32 1)"
    unfolding demo_machine32_args(2,3) esp demo_machine32_target by (simp_all add: apart_def)
  from mco_swap32_refines [OF this, of ?c "fst ?s" "snd ?s"] show ?thesis
    by (simp add: mcontext_swap32_def)
qed

subsection \<open>Fresh contexts\<close>

lemma align_down32:
  fixes x :: "32 word"
  assumes "16 \<le> unat x"
  shows "unat (x AND (- 16)) = unat x - unat x mod 16" "unat ((x AND (- 16)) - 4) + 4 = unat (x AND (- 16))"
proof -
  show e: "unat (x AND (- 16)) = unat x - unat x mod 16"
    by (rule unat_and_m16)
  have "8 \<le> unat x - unat x mod 16"
    using assms by (rule align_down_nat)
  then have "4 \<le> x AND (- 16)"
    by (simp add: word_le_nat_alt e)
  then show "unat ((x AND (- 16)) - 4) + 4 = unat (x AND (- 16))"
    by (simp add: unat_sub word_le_nat_alt)
qed

text \<open>
  A context made by \<open>McontextMake\<close> starts its function as the i386 ABI asks: the switch to it
  continues at \<open>pfn\<close> with every general register 0, the argument is the word above the return
  address slot, 16-aligned, also after \<open>mco_swap\<close> has written below the stack pointer, and
  all of this is inside the stack block, provided the block has 32 bytes and does not wrap around.
\<close>

theorem McontextMake32_entry:
  assumes size: "32 \<le> unat (ss_size32 c)"
    and nowrap: "unat (ss_sp32 c) + unat (ss_size32 c) \<le> 2 ^ 32"
    and made: "McontextMake32 c pfn s m = (c', m')" and R: "R = snd (mcontext_swap32 cpu cur c')"
  shows "R ERET = pfn \<and> (\<forall>r. r \<notin> {ERET, ESP} \<longrightarrow> R r = 0) \<and>
    (\<forall>v. load32 (store32 (R ESP - 4) v m') (R ESP + 4) = s) \<and> unat (R ESP + 4) mod 16 = 0 \<and>
    unat (ss_sp32 c) + 4 \<le> unat (R ESP) \<and> unat (R ESP) + 8 \<le> unat (ss_sp32 c) + unat (ss_size32 c)"
proof -
  let ?top = "ss_sp32 c + ss_size32 c - 4"
  let ?sp = "?top AND (- 16)"
  have c': "m' = store32 ?sp s m" "R ESP = ?sp - 4" "R ERET = pfn" "\<And>r. r \<notin> {ERET, ESP} \<Longrightarrow> R r = 0"
    using made R by (auto simp: McontextMake32_def Let_def mcontext_swap32_def)
  have "4 \<le> ss_size32 c"
    using size by (simp add: word_le_nat_alt)
  then have d: "unat (ss_size32 c - 4) = unat (ss_size32 c) - 4"
    by (simp add: unat_sub)
  have "unat ?top = unat (ss_sp32 c + (ss_size32 c - 4))"
    by (simp add: algebra_simps)
  also have "\<dots> = unat (ss_sp32 c) + (unat (ss_size32 c) - 4)"
    using nowrap size d by (subst unat_word_ariths) simp
  finally have top: "unat ?top = unat (ss_sp32 c) + (unat (ss_size32 c) - 4)" .
  then have t16: "16 \<le> unat ?top"
    using size by simp
  note sp = align_down32 [OF t16]
  have mod: "unat ?sp mod 16 = 0"
    unfolding sp(1) by (simp add: minus_mod_eq_mult_div)
  have "unat ?top mod 16 < 16" "unat ?top mod 16 \<le> unat ?top"
    by simp_all
  then have "unat (ss_sp32 c) + 4 \<le> unat (R ESP)" "unat (R ESP) + 8 \<le> unat (ss_sp32 c) + unat (ss_size32 c)"
    using sp top size unfolding c'(2) by linarith+
  moreover have "load32 (store32 (R ESP - 4) v m') (R ESP + 4) = s" for v
    by (simp add: c'(1,2) load32_store32_apart apart_def)
  moreover have "unat (R ESP + 4) mod 16 = 0"
    using mod by (simp add: c'(2))
  ultimately show ?thesis
    using c'(3,4) by blast
qed

theorem McontextMake32_example:
  "let (c, m) = McontextMake32 \<lparr>regs32 = \<lambda>_. 5, ss_size32 = 4096, ss_sp32 = 65536\<rparr> 7 9 (\<lambda>_. 0)
   in load32 m (regs32 c ESP + 4) = 9 \<and> regs32 c ESP = 69612"
  by (simp add: McontextMake32_def Let_def)

end
