(* ===== verification/PoolInThreads.thy ===== *)
theory PoolInThreads
  imports Fasco_Prelude
begin

text \<open>
  tools/PoolInThreads.hpp: one lazily created instance per item type, holding one lazily
  created item per thread id under a mutex. The pool is a static of the process, so it is a
  field of whatever world the operations run in; the field is given by its reader and writer.
  The item's constructor is an operation of that world (creating a stack manager allocates).
  Both templates (items by \<open>shared_ptr\<close> and by pointer) have the same code.

  tools/CallStack.hpp: the generic call stack (included by base/McoPool.h).
\<close>

subsection \<open>The pool\<close>

record 'a PoolInThreads =
  pools :: "int \<rightharpoonup> 'a"
  pool_mutex :: Mutex

definition PoolInThreads_new :: "'a PoolInThreads" where
  "PoolInThreads_new = \<lparr>pools = Map.empty, pool_mutex = Mutex_init\<rparr>"

definition Instance ::
  "('w \<Rightarrow> 'a PoolInThreads option) \<Rightarrow> ('a PoolInThreads option \<Rightarrow> 'w \<Rightarrow> 'w) \<Rightarrow> ('w, unit) comp"
where
  "Instance pget pput =
    modify (\<lambda>w. if pget w = None then pput (Some PoolInThreads_new) w else w)"

text \<open>The fields of the instance, read and written through the static pointer.\<close>

definition inst :: "('w \<Rightarrow> 'a PoolInThreads option) \<Rightarrow> 'w \<Rightarrow> 'a PoolInThreads" where
  "inst pget w = (case pget w of None \<Rightarrow> PoolInThreads_new | Some p \<Rightarrow> p)"

definition inst_mutex :: "('w \<Rightarrow> 'a PoolInThreads option) \<Rightarrow> 'w \<Rightarrow> Mutex" where
  "inst_mutex pget w = pool_mutex (inst pget w)"

definition set_inst_mutex ::
  "('w \<Rightarrow> 'a PoolInThreads option) \<Rightarrow> ('a PoolInThreads option \<Rightarrow> 'w \<Rightarrow> 'w) \<Rightarrow> Mutex \<Rightarrow> 'w \<Rightarrow> 'w"
where
  "set_inst_mutex pget pput mu w = pput (Some ((inst pget w)\<lparr>pool_mutex := mu\<rparr>)) w"

definition set_item ::
  "('w \<Rightarrow> 'a PoolInThreads option) \<Rightarrow> ('a PoolInThreads option \<Rightarrow> 'w \<Rightarrow> 'w) \<Rightarrow> int \<Rightarrow> 'a \<Rightarrow> 'w \<Rightarrow> 'w"
where
  "set_item pget pput tid x w =
    pput (Some ((inst pget w)\<lparr>pools := (pools (inst pget w))(tid \<mapsto> x)\<rparr>)) w"

definition getT ::
  "('w \<Rightarrow> 'a PoolInThreads option) \<Rightarrow> ('a PoolInThreads option \<Rightarrow> 'w \<Rightarrow> 'w) \<Rightarrow>
   ('w, 'a) comp \<Rightarrow> int \<Rightarrow> ('w, 'a) comp"
where
  "getT pget pput mk tid =
    MutexLocker (inst_mutex pget) (set_inst_mutex pget pput)
      (bnd (gets (\<lambda>w. pools (inst pget w) tid)) (\<lambda>iter.
        case iter of
          Some x \<Rightarrow> ret x
        | None \<Rightarrow> bnd mk (\<lambda>x. seq (modify (set_item pget pput tid x)) (ret x))))"

definition Item ::
  "('w \<Rightarrow> 'a PoolInThreads option) \<Rightarrow> ('a PoolInThreads option \<Rightarrow> 'w \<Rightarrow> 'w) \<Rightarrow>
   ('w, 'a) comp \<Rightarrow> int \<Rightarrow> ('w, 'a) comp"
where
  "Item pget pput mk tid = seq (Instance pget pput) (getT pget pput mk tid)"

text \<open>What is in the pool, and whether its mutex is free.\<close>

definition lookup_item :: "('w \<Rightarrow> 'a PoolInThreads option) \<Rightarrow> 'w \<Rightarrow> int \<rightharpoonup> 'a" where
  "lookup_item pget w tid = (case pget w of None \<Rightarrow> None | Some p \<Rightarrow> pools p tid)"

definition pool_free :: "('w \<Rightarrow> 'a PoolInThreads option) \<Rightarrow> 'w \<Rightarrow> bool" where
  "pool_free pget w \<longleftrightarrow> \<not> mutex_held (inst_mutex pget w)"

lemma inst_lookup [simp]: "pools (inst pget w) tid = lookup_item pget w tid"
  by (simp add: inst_def lookup_item_def PoolInThreads_new_def split: option.splits)

subsection \<open>The contract of a per-thread pool\<close>

text \<open>
  Where the world keeps a pool (the laws of a record field), and a constructor that does not
  touch it. The client learns: an item once created is returned by every later call of the
  same thread id and no call changes it; a first call creates exactly that thread's item;
  other threads' items stay; the mutex is free afterwards.
\<close>

locale pool_field =
  fixes pget :: "'w \<Rightarrow> 'a PoolInThreads option"
    and pput :: "'a PoolInThreads option \<Rightarrow> 'w \<Rightarrow> 'w"
    and mk :: "('w, 'a) comp"
  assumes pget_pput: "pget (pput p w) = p"
    and pput_pput: "pput p (pput p' w) = pput p w"
    and pput_pget: "pput (pget w) w = w"
    and mk_frame: "mk w = (r, w') \<Longrightarrow> pget w' = pget w"
begin

lemma pool_mutex_field:
  "inst_mutex pget (set_inst_mutex pget pput m w) = m"
  "set_inst_mutex pget pput m (set_inst_mutex pget pput m' w) = set_inst_mutex pget pput m w"
  by (simp_all add: inst_mutex_def set_inst_mutex_def inst_def pget_pput pput_pput)

lemma set_inst_mutex_same:
  "pget w = Some p \<Longrightarrow> pool_mutex p = m \<Longrightarrow> set_inst_mutex pget pput m w = w"
  by (metis (mono_tags, lifting) PoolInThreads.surjective PoolInThreads.update_convs(2) inst_def
      option.simps(5) pput_pget set_inst_mutex_def)

lemma item_hit:
  assumes free: "pool_free pget w" and hit: "lookup_item pget w tid = Some x"
  shows "Item pget pput mk tid w = (Inr x, w)"
proof -
  obtain p where p: "pget w = Some p"
    using hit by (auto simp: lookup_item_def split: option.splits)
  have m: "\<not> mutex_held (pool_mutex p)"
    using free p by (simp add: pool_free_def inst_mutex_def inst_def)
  let ?w = "set_inst_mutex pget pput ((pool_mutex p)\<lparr>mutex_held := True\<rparr>) w"
  have px: "pools p tid = Some x"
    using hit p by (simp add: lookup_item_def)
  have im: "inst_mutex pget w = pool_mutex p"
    using p by (simp add: inst_mutex_def inst_def)
  have w1: "lookup_item pget ?w tid = Some x"
    using p px by (simp add: set_inst_mutex_def lookup_item_def pget_pput inst_def)
  have w2: "set_inst_mutex pget pput ((pool_mutex p)\<lparr>mutex_held := False\<rparr>) w = w"
    using p m by (intro set_inst_mutex_same) auto
  show ?thesis
    using m w1 w2
    by (simp add: Item_def Instance_def p getT_def MutexLocker_def Mutex_lock_def Mutex_unlock_def
        comp_defs im pool_mutex_field)
qed

lemma item_miss:
  assumes free: "pool_free pget w" and miss: "lookup_item pget w tid = None"
    and mk: "\<And>w. mk w = (Inr x, f w)"
  shows "\<exists>w'. Item pget pput mk tid w = (Inr x, w') \<and> pool_free pget w' \<and>
    lookup_item pget w' = (lookup_item pget w)(tid \<mapsto> x)"
proof -
  let ?w = "if pget w = None then pput (Some PoolInThreads_new) w else w"
  have free': "\<not> mutex_held (inst_mutex pget ?w)"
    using free by (auto simp: pool_free_def inst_mutex_def inst_def pget_pput)
  have look: "lookup_item pget ?w = lookup_item pget w"
    by (auto simp: lookup_item_def pget_pput PoolInThreads_new_def fun_eq_iff)
  let ?h = "set_inst_mutex pget pput ((inst_mutex pget ?w)\<lparr>mutex_held := True\<rparr>) ?w"
  have h: "lookup_item pget ?h = lookup_item pget w"
    unfolding look [symmetric]
    by (auto simp: lookup_item_def set_inst_mutex_def pget_pput inst_def fun_eq_iff
        PoolInThreads_new_def split: option.splits)
  have fh: "lookup_item pget (f ?h) = lookup_item pget w"
    using mk_frame [OF mk, of ?h] h by (simp add: lookup_item_def fun_eq_iff)
  let ?s = "set_item pget pput tid x (f ?h)"
  have s: "lookup_item pget ?s = (lookup_item pget w)(tid \<mapsto> x)"
    unfolding fh [symmetric]
    by (auto simp: set_item_def lookup_item_def pget_pput inst_def PoolInThreads_new_def fun_eq_iff
        split: option.splits)
  let ?u = "snd (Mutex_unlock (inst_mutex pget) (set_inst_mutex pget pput) ?s)"
  have "Item pget pput mk tid w = (Inr x, ?u)"
    using free' h miss
    by (simp add: Item_def Instance_def getT_def MutexLocker_def Mutex_lock_def comp_defs mk
        split del: if_split)
  moreover have "pool_free pget ?u"
    by (simp add: Mutex_unlock_def comp_defs pool_free_def pool_mutex_field)
  moreover have "lookup_item pget ?u = lookup_item pget ?s"
    by (auto simp: Mutex_unlock_def comp_defs set_inst_mutex_def lookup_item_def pget_pput inst_def
        fun_eq_iff PoolInThreads_new_def split: option.splits)
  ultimately show ?thesis
    using s by auto
qed

end

subsection \<open>The generic call stack\<close>

text \<open>
  tools/CallStack.hpp: an \<open>unordered_map\<close> from positions (its entries as an association list)
  and an index that \<open>getCurrIndex\<close> hands out by reference. \<open>operator[]\<close> at a missing position
  inserts a default value, which is a parameter here.
\<close>

record 'a CallStack =
  gen_stack :: "(nat \<times> 'a) list"
  curIndex :: nat

definition CallStack_new :: "'a CallStack" where
  "CallStack_new = \<lparr>gen_stack = [], curIndex = 0\<rparr>"

definition CallStack_getCurrIndex :: "'a CallStack \<Rightarrow> nat" where
  "CallStack_getCurrIndex s = curIndex s"

definition CallStack_setCurrIndex :: "nat \<Rightarrow> 'a CallStack \<Rightarrow> 'a CallStack" where
  "CallStack_setCurrIndex i s = s\<lparr>curIndex := i\<rparr>"

definition CallStack_at :: "'a \<Rightarrow> nat \<Rightarrow> 'a CallStack \<Rightarrow> 'a \<times> 'a CallStack" where
  "CallStack_at d i s = (case map_of (gen_stack s) i of Some x \<Rightarrow> (x, s)
     | None \<Rightarrow> (d, s\<lparr>gen_stack := AList.update i d (gen_stack s)\<rparr>))"

definition CallStack_store :: "'a \<Rightarrow> nat \<Rightarrow> 'a \<Rightarrow> 'a CallStack \<Rightarrow> 'a CallStack" where
  "CallStack_store d i x s =
    (let t = snd (CallStack_at d i s) in t\<lparr>gen_stack := AList.update i x (gen_stack t)\<rparr>)"

definition CallStack_empty :: "'a CallStack \<Rightarrow> bool" where
  "CallStack_empty s \<longleftrightarrow> length (gen_stack s) = 0"

text \<open>
  In the generic call stack a value stored at a position is what \<open>operator[]\<close> gives there
  afterwards, without changing the stack again; other positions and the index are untouched.
  The stack is never \<open>empty\<close> again, since popping only lowers the index.
\<close>

theorem CallStack_store_at:
  "CallStack_at d' i (CallStack_store d i x s) = (x, CallStack_store d i x s) \<and>
   (j \<noteq> i \<longrightarrow> map_of (gen_stack (CallStack_store d i x s)) j = map_of (gen_stack s) j) \<and>
   CallStack_getCurrIndex (CallStack_store d i x s) = CallStack_getCurrIndex s \<and>
   \<not> CallStack_empty (CallStack_setCurrIndex k (CallStack_store d i x s))"
proof -
  let ?s = "CallStack_store d i x s"
  have m: "map_of (gen_stack ?s) = (map_of (gen_stack s))(i \<mapsto> x)"
    by (cases "map_of (gen_stack s) i")
      (simp_all add: CallStack_store_def CallStack_at_def update_conv Let_def fun_eq_iff)
  have "map_of (gen_stack ?s) i = Some x"
    using m by simp
  then have "gen_stack ?s \<noteq> []"
    by auto
  then have "\<not> CallStack_empty (CallStack_setCurrIndex k ?s)"
    by (simp add: CallStack_empty_def CallStack_setCurrIndex_def)
  moreover have "CallStack_getCurrIndex ?s = CallStack_getCurrIndex s"
    by (simp add: CallStack_getCurrIndex_def CallStack_store_def CallStack_at_def Let_def
        split: option.splits)
  ultimately show ?thesis
    using m by (simp add: CallStack_at_def)
qed

theorem CallStack_store_at_witness:
  "fst (CallStack_at (0 :: nat) 0 (CallStack_store 0 1 7 (CallStack_store 0 0 5 CallStack_new))) = 5"
proof -
  have "map_of (gen_stack (CallStack_store (0 :: nat) 1 7 (CallStack_store 0 0 5 CallStack_new))) 0 = Some 5"
    using CallStack_store_at [of 0 1 0 7 "CallStack_store (0 :: nat) 0 5 CallStack_new" 0]
    by (simp add: CallStack_store_def CallStack_at_def CallStack_new_def Let_def)
  then show ?thesis by (simp add: CallStack_at_def)
qed

end
