(* ===== verification/Instance_Race.thy ===== *)
theory Instance_Race
  imports PoolInThreads
begin

text \<open>
  \<open>PoolInThreads::Instance\<close> (and \<open>EventLoopPool::Instance\<close>, \<open>CommonLog::Instance\<close>, which have the same
  text) statement by statement, run by many threads at once: the test of the static pointer, the
  creation and assignment, and the read of the pointer for the return. Pools are numbered in the
  order of their creation.
\<close>

datatype ipc = Testing | Creating | Returning | Got nat

record istate =
  i_inst :: "nat option"
  i_next :: nat
  i_pc :: "int \<Rightarrow> ipc"

definition at_pc :: "istate \<Rightarrow> int \<Rightarrow> ipc \<Rightarrow> istate" where
  "at_pc s t p = s\<lparr>i_pc := (i_pc s)(t := p)\<rparr>"

inductive istep :: "istate \<Rightarrow> istate \<Rightarrow> bool" where
  istep_null: "i_pc s t = Testing \<Longrightarrow> i_inst s = None \<Longrightarrow> istep s (at_pc s t Creating)"
| istep_set: "i_pc s t = Testing \<Longrightarrow> i_inst s = Some a \<Longrightarrow> istep s (at_pc s t Returning)"
| istep_create: "i_pc s t = Creating \<Longrightarrow>
    istep s (at_pc (s\<lparr>i_inst := Some (i_next s), i_next := Suc (i_next s)\<rparr>) t Returning)"
| istep_return: "i_pc s t = Returning \<Longrightarrow> i_inst s = Some a \<Longrightarrow> istep s (at_pc s t (Got a))"

inductive_cases istepE: "istep s s'"

lemma at_pc_fields [simp]:
  "i_inst (at_pc s t p) = i_inst s" "i_next (at_pc s t p) = i_next s"
  "i_pc (at_pc s t p) = (i_pc s)(t := p)"
  by (simp_all add: at_pc_def)

definition istart :: istate where
  "istart = \<lparr>i_inst = None, i_next = 0, i_pc = (\<lambda>_. Testing)\<rparr>"

text \<open>A pool is there and nobody is about to make another one.\<close>

definition settled :: "nat \<Rightarrow> istate \<Rightarrow> bool" where
  "settled a s \<longleftrightarrow> i_inst s = Some a \<and> (\<forall>t. i_pc s t \<noteq> Creating) \<and> (\<forall>t b. i_pc s t = Got b \<longrightarrow> b = a)"

lemma settled_step: "istep s s' \<Longrightarrow> settled a s \<Longrightarrow> settled a s'"
  by (erule istepE) (auto simp: settled_def)

lemma race_run:
  "\<exists>r. istep\<^sup>*\<^sup>* istart r \<and> i_pc r 1 = Got 0 \<and> i_pc r 2 = Got (Suc 0)"
proof -
  let ?a = "at_pc istart 1 Creating"
  let ?b = "at_pc ?a 2 Creating"
  let ?c = "at_pc (?b\<lparr>i_inst := Some (i_next ?b), i_next := Suc (i_next ?b)\<rparr>) 1 Returning"
  let ?d = "at_pc ?c 1 (Got 0)"
  let ?e = "at_pc (?d\<lparr>i_inst := Some (i_next ?d), i_next := Suc (i_next ?d)\<rparr>) 2 Returning"
  let ?f = "at_pc ?e 2 (Got (Suc 0))"
  have "istep istart ?a" "istep ?a ?b"
    by (rule istep_null; simp add: istart_def)+
  moreover have "istep ?b ?c" "istep ?d ?e"
    by (rule istep_create; simp)+
  moreover have "istep ?c ?d" "istep ?e ?f"
    by (rule istep_return; simp add: istart_def)+
  ultimately have "istep\<^sup>*\<^sup>* istart ?f"
    by (meson converse_rtranclp_into_rtranclp rtranclp.rtrancl_refl)
  then show ?thesis
    by (intro exI [of _ ?f]) simp
qed

text \<open>
  C34. Threads share one pool if one of them got it before the others began: from a state with a
  pool in which no thread is between the test and the assignment, every thread that ever
  returns from \<open>Instance\<close> returns this pool, whatever the interleaving. Without that they need
  not: two threads that both test first return different pools, and what the first one then
  stores in its pool nobody finds again.
\<close>

theorem instance_shared_once_made:
  assumes "settled a s" and "istep\<^sup>*\<^sup>* s s'"
  shows "settled a s' \<and> (\<forall>t b. i_pc s' t = Got b \<longrightarrow> b = a) \<and>
    (\<exists>r. istep\<^sup>*\<^sup>* istart r \<and> i_pc r 1 = Got 0 \<and> i_pc r 2 = Got (Suc 0))"
proof -
  have "settled a s'"
    using assms(2,1) by (induction rule: rtranclp_induct) (auto intro: settled_step)
  then show ?thesis
    using race_run by (auto simp: settled_def)
qed

theorem instance_shared_once_made_witness:
  "settled 0 (at_pc (at_pc (istart\<lparr>i_inst := Some 0, i_next := 1\<rparr>) 5 Returning) 5 (Got 0))"
proof -
  let ?s = "istart\<lparr>i_inst := Some 0, i_next := 1\<rparr>"
  have "istep ?s (at_pc ?s 5 Returning)"
    by (rule istep_set) (simp_all add: istart_def)
  moreover have "istep (at_pc ?s 5 Returning) (at_pc (at_pc ?s 5 Returning) 5 (Got 0))"
    by (rule istep_return) (simp_all add: istart_def)
  moreover have "settled 0 ?s"
    by (simp add: settled_def istart_def)
  ultimately show ?thesis
    using instance_shared_once_made [of 0 ?s "at_pc (at_pc ?s 5 Returning) 5 (Got 0)"]
    by (meson converse_rtranclp_into_rtranclp rtranclp.rtrancl_refl)
qed

end
