(* ===== verification/Locked_Object.thy ===== *)
theory Locked_Object
  imports Fasco_Prelude
begin

text \<open>
  Threads that call the operations of one object, each of which holds the object's mutex from its
  first statement to its return (\<open>MutexLocker\<close>, base/MutexLocker.h, as the first statement of the
  function). The other theories run such an operation as one step; here the statements of
  different threads are interleaved, and every run is shown to be one of atomic operations.
\<close>

subsection \<open>The interleaved runs\<close>

text \<open>
  An operation \<open>op\<close> starts at the local state \<open>enter op\<close>; \<open>micro\<close> executes one statement on the
  shared state, after which the operation goes on from a local state or returns a result.
\<close>

datatype ('op, 'loc, 'res) cpc =
    Outside
  | Wanting 'op
  | Inside 'op 'loc
  | Leaving 'op 'res
  | Returned 'op 'res

record ('sh, 'op, 'loc, 'res) cstate =
  shared :: 'sh
  holder :: "int option"
  cpcs :: "int \<Rightarrow> ('op, 'loc, 'res) cpc"

definition move :: "int \<Rightarrow> ('op, 'loc, 'res) cpc \<Rightarrow> ('sh, 'op, 'loc, 'res) cstate \<Rightarrow> ('sh, 'op, 'loc, 'res) cstate" where
  "move t p s = s\<lparr>cpcs := (cpcs s)(t := p)\<rparr>"

inductive cstep ::
  "('op \<Rightarrow> 'loc) \<Rightarrow> ('loc \<Rightarrow> 'sh \<Rightarrow> ('loc + 'res) \<times> 'sh) \<Rightarrow>
    ('sh, 'op, 'loc, 'res) cstate \<Rightarrow> ('sh, 'op, 'loc, 'res) cstate \<Rightarrow> bool"
  for enter :: "'op \<Rightarrow> 'loc" and micro :: "'loc \<Rightarrow> 'sh \<Rightarrow> ('loc + 'res) \<times> 'sh"
where
  c_call: "cpcs s t = Outside \<or> cpcs s t = Returned op' r' \<Longrightarrow> cstep enter micro s (move t (Wanting op) s)"
| c_lock: "cpcs s t = Wanting op \<Longrightarrow> holder s = None \<Longrightarrow>
    cstep enter micro s (move t (Inside op (enter op)) (s\<lparr>holder := Some t\<rparr>))"
| c_statement: "cpcs s t = Inside op l \<Longrightarrow> micro l (shared s) = (Inl l', sh) \<Longrightarrow>
    cstep enter micro s (move t (Inside op l') (s\<lparr>shared := sh\<rparr>))"
| c_return: "cpcs s t = Inside op l \<Longrightarrow> micro l (shared s) = (Inr r, sh) \<Longrightarrow>
    cstep enter micro s (move t (Leaving op r) (s\<lparr>shared := sh\<rparr>))"
| c_unlock: "cpcs s t = Leaving op r \<Longrightarrow>
    cstep enter micro s (move t (Returned op r) (s\<lparr>holder := None\<rparr>))"

inductive_cases cstepE: "cstep enter micro s s'"

definition cstart :: "'sh \<Rightarrow> ('sh, 'op, 'loc, 'res) cstate" where
  "cstart sh = \<lparr>shared = sh, holder = None, cpcs = (\<lambda>_. Outside)\<rparr>"

lemma move_fields [simp]:
  "shared (move t p s) = shared s" "holder (move t p s) = holder s"
  "cpcs (move t p s) = (cpcs s)(t := p)"
  by (simp_all add: move_def)

text \<open>The result that a thread has or is about to have.\<close>

definition result_of :: "('sh, 'op, 'loc, 'res) cstate \<Rightarrow> int \<Rightarrow> 'op \<Rightarrow> 'res \<Rightarrow> bool" where
  "result_of s t op r \<longleftrightarrow> cpcs s t = Leaving op r \<or> cpcs s t = Returned op r"

text \<open>A thread is between the lock and the unlock exactly if it holds the mutex.\<close>

definition critical :: "('op, 'loc, 'res) cpc \<Rightarrow> bool" where
  "critical p \<longleftrightarrow> (case p of Inside _ _ \<Rightarrow> True | Leaving _ _ \<Rightarrow> True | _ \<Rightarrow> False)"

lemma critical_simps [simp]:
  "\<not> critical Outside" "\<not> critical (Wanting op)" "critical (Inside op l)" "critical (Leaving op r)"
  "\<not> critical (Returned op r)"
  by (simp_all add: critical_def)

definition exclusive :: "('sh, 'op, 'loc, 'res) cstate \<Rightarrow> bool" where
  "exclusive s \<longleftrightarrow> (\<forall>t. critical (cpcs s t) = (holder s = Some t))"

lemma exclusive_start: "exclusive (cstart sh)"
  by (simp add: exclusive_def cstart_def)

lemma exclusive_move:
  assumes "exclusive s" "holder s = Some t \<or> holder s = None" "critical p = (h = Some t)" "h = Some t \<or> h = None"
  shows "exclusive (move t p (s\<lparr>holder := h\<rparr>))"
  using assms by (auto simp: exclusive_def)

lemma exclusive_stay:
  assumes "exclusive s" "critical p = critical (cpcs s t)"
  shows "exclusive (move t p s)"
  using assms by (simp add: exclusive_def)

lemma exclusive_shared [simp]: "exclusive (s\<lparr>shared := sh\<rparr>) = exclusive s"
  by (simp add: exclusive_def)

lemma exclusive_step: "cstep enter micro s s' \<Longrightarrow> exclusive s \<Longrightarrow> exclusive s'"
proof (induction rule: cstep.induct)
  case (c_call s t op' r' op)
  then show ?case by (auto intro: exclusive_stay)
next
  case (c_lock s t op)
  then show ?case by (intro exclusive_move) simp_all
next
  case (c_statement s t op l l' sh)
  then show ?case by (intro exclusive_stay) simp_all
next
  case (c_return s t op l r sh)
  then show ?case by (intro exclusive_stay) simp_all
next
  case (c_unlock s t op r)
  then have "holder s = Some t"
    by (metis critical_simps(4) exclusive_def)
  with c_unlock show ?case by (intro exclusive_move) simp_all
qed

lemma exclusive_other: "exclusive s \<Longrightarrow> critical (cpcs s t) \<Longrightarrow> critical (cpcs s t') \<Longrightarrow> t' = t"
  by (simp add: exclusive_def)

text \<open>No operation is under way.\<close>

definition idle :: "('sh, 'op, 'loc, 'res) cstate \<Rightarrow> bool" where
  "idle s \<longleftrightarrow> (\<forall>t op l. cpcs s t \<noteq> Inside op l)"

lemma idle_free: "exclusive s \<Longrightarrow> holder s = None \<Longrightarrow> idle s"
  unfolding idle_def exclusive_def by (metis critical_simps(3) option.distinct(1))

lemma idle_holder [simp]: "idle (s\<lparr>holder := h\<rparr>) = idle s"
  by (simp add: idle_def)

lemma idle_back: "idle (move t p s) \<Longrightarrow> \<forall>op l. cpcs s t \<noteq> Inside op l \<Longrightarrow> idle s"
  unfolding idle_def by (metis fun_upd_other move_fields(3))

text \<open>
  A scheduler: \<open>(t, Some op)\<close> lets thread \<open>t\<close> call \<open>op\<close>, \<open>(t, None)\<close> lets it go on if it can.
\<close>

definition turn ::
  "('op \<Rightarrow> 'loc) \<Rightarrow> ('loc \<Rightarrow> 'sh \<Rightarrow> ('loc + 'res) \<times> 'sh) \<Rightarrow> int \<Rightarrow>
    ('sh, 'op, 'loc, 'res) cstate \<Rightarrow> ('sh, 'op, 'loc, 'res) cstate"
where
  "turn enter micro t s = (case cpcs s t of
      Wanting op \<Rightarrow> if holder s = None then move t (Inside op (enter op)) (s\<lparr>holder := Some t\<rparr>) else s
    | Inside op l \<Rightarrow> (case micro l (shared s) of
          (Inl l', sh) \<Rightarrow> move t (Inside op l') (s\<lparr>shared := sh\<rparr>)
        | (Inr r, sh) \<Rightarrow> move t (Leaving op r) (s\<lparr>shared := sh\<rparr>))
    | Leaving op r \<Rightarrow> move t (Returned op r) (s\<lparr>holder := None\<rparr>)
    | _ \<Rightarrow> s)"

fun schedule ::
  "('op \<Rightarrow> 'loc) \<Rightarrow> ('loc \<Rightarrow> 'sh \<Rightarrow> ('loc + 'res) \<times> 'sh) \<Rightarrow> (int \<times> 'op option) list \<Rightarrow>
    ('sh, 'op, 'loc, 'res) cstate \<Rightarrow> ('sh, 'op, 'loc, 'res) cstate"
where
  "schedule enter micro [] s = s"
| "schedule enter micro ((t, None) # ts) s = schedule enter micro ts (turn enter micro t s)"
| "schedule enter micro ((t, Some op) # ts) s = schedule enter micro ts
    (case cpcs s t of
       Outside \<Rightarrow> move t (Wanting op) s
     | Returned op' r \<Rightarrow> move t (Wanting op) s
     | _ \<Rightarrow> s)"

lemma turn_step: "turn enter micro t s = s \<or> cstep enter micro s (turn enter micro t s)"
  by (auto simp: turn_def split: cpc.split prod.split sum.split
      intro: c_lock c_statement c_return c_unlock)

lemma schedule_run: "(cstep enter micro)\<^sup>*\<^sup>* s (schedule enter micro ts s)"
proof (induction enter micro ts s rule: schedule.induct)
  case (2 enter micro t ts s)
  then show ?case
    using turn_step [of enter micro t s] by (auto intro: converse_rtranclp_into_rtranclp)
next
  case (3 enter micro t op ts s)
  have "cpcs s t = Outside \<or> (\<exists>op' r. cpcs s t = Returned op' r) \<Longrightarrow> cstep enter micro s (move t (Wanting op) s)"
    by (auto intro: c_call)
  with 3 show ?case
    by (auto split: cpc.splits intro: converse_rtranclp_into_rtranclp)
qed simp

subsection \<open>Runs of atomic operations\<close>

fun atomically :: "('op \<Rightarrow> 'sh \<Rightarrow> 'res \<times> 'sh) \<Rightarrow> 'op list \<Rightarrow> 'sh \<Rightarrow> 'res list \<times> 'sh" where
  "atomically whole [] sh = ([], sh)"
| "atomically whole (op # ops) sh =
    (case whole op sh of (r, sh') \<Rightarrow> case atomically whole ops sh' of (rs, sh'') \<Rightarrow> (r # rs, sh''))"

lemma atomically_snoc:
  "atomically whole ops sh = (rs, a) \<Longrightarrow> whole op a = (r, b) \<Longrightarrow>
    atomically whole (ops @ [op]) sh = (rs @ [r], b)"
  by (induction ops arbitrary: sh rs) (auto split: prod.splits)

lemma atomically_length: "atomically whole ops sh = (rs, a) \<Longrightarrow> length rs = length ops"
  by (induction ops arbitrary: sh rs) (auto split: prod.splits)

text \<open>The call at place \<open>i\<close> of a sequence, with the states before and after it.\<close>

lemma atomically_nth:
  assumes "atomically whole ops sh = (rs, a)" "i < length ops"
  shows "\<exists>b c. atomically whole (take i ops) sh = (take i rs, b) \<and> whole (ops ! i) b = (rs ! i, c) \<and>
    atomically whole (drop (Suc i) ops) c = (drop (Suc i) rs, a)"
  using assms
proof (induction ops arbitrary: sh rs i)
  case (Cons op ops)
  obtain r b rs' where b: "whole op sh = (r, b)" "atomically whole ops b = (rs', a)" "rs = r # rs'"
    using Cons.prems(1) by (auto split: prod.splits)
  show ?case
  proof (cases i)
    case 0
    then show ?thesis using b by simp
  next
    case (Suc k)
    then show ?thesis using b Cons.IH [OF b(2), of k] Cons.prems(2) by auto
  qed
qed simp

text \<open>
  The calls that have a result in an interleaved run stand at places \<open>place\<close> of their own in the
  sequence \<open>ops\<close> of atomic operations.
\<close>

definition linearised ::
  "'op list \<Rightarrow> 'res list \<Rightarrow> (int \<Rightarrow> nat) \<Rightarrow> ('sh, 'op, 'loc, 'res) cstate \<Rightarrow> bool"
where
  "linearised ops rs place s \<longleftrightarrow>
    (\<forall>t op r. result_of s t op r \<longrightarrow> place t < length ops \<and> ops ! place t = op \<and> rs ! place t = r) \<and>
    (\<forall>t t' op op' r r'. result_of s t op r \<longrightarrow> result_of s t' op' r' \<longrightarrow> place t = place t' \<longrightarrow> t = t')"

lemma linearised_snoc:
  assumes lin: "linearised ops rs place s" and len: "length rs = length ops"
    and new: "cpcs s' t = Leaving op r"
    and old: "\<forall>t' op' r'. t' \<noteq> t \<longrightarrow> result_of s' t' op' r' \<longrightarrow> result_of s t' op' r'"
  shows "linearised (ops @ [op]) (rs @ [r]) (place(t := length ops)) s'"
proof -
  have t: "op' = op \<and> r' = r" if "result_of s' t op' r'" for op' r'
    using that new by (simp add: result_of_def)
  have o: "place t' < length ops \<and> ops ! place t' = op' \<and> rs ! place t' = r'"
    if "result_of s' t' op' r'" "t' \<noteq> t" for t' op' r'
    using lin old that unfolding linearised_def by blast
  show ?thesis
    unfolding linearised_def
  proof (intro conjI allI impI)
    fix t1 t2 op1 op2 r1 r2
    assume r: "result_of s' t1 op1 r1" "result_of s' t2 op2 r2"
      and p: "(place(t := length ops)) t1 = (place(t := length ops)) t2"
    show "t1 = t2"
    proof (cases "t1 = t \<or> t2 = t")
      case True
      then show ?thesis using p o [OF r(1)] o [OF r(2)] by (auto split: if_splits)
    next
      case False
      then show ?thesis using p r lin old unfolding linearised_def by (simp split: if_splits) blast
    qed
  qed (use t o len in \<open>auto simp: nth_append less_SucI\<close>)
qed

lemma linearised_found:
  assumes "linearised ops rs place s" "length rs = length ops" "result_of s t op r"
  shows "(op, r) \<in> set (zip ops rs)"
  using assms unfolding linearised_def set_zip by force

subsection \<open>The contract of an operation under the lock\<close>

text \<open>
  \<open>whole\<close> is the operation as one function, \<open>ok\<close> what it needs of the shared state. The provider
  promises that the statements of an operation, run one after the other from the state at its
  lock, end with the result and the state of \<open>whole\<close>, and that it does end (\<open>rank\<close>). The client
  learns that any interleaving of threads is a run of atomic operations.
\<close>

definition runs_to ::
  "('loc \<Rightarrow> 'sh \<Rightarrow> ('loc + 'res) \<times> 'sh) \<Rightarrow> 'loc \<times> 'sh \<Rightarrow> 'loc \<times> 'sh \<Rightarrow> bool" where
  "runs_to micro = (\<lambda>c d. micro (fst c) (snd c) = (Inl (fst d), snd d))\<^sup>*\<^sup>*"

lemma runs_to_refl: "runs_to micro c c"
  by (simp add: runs_to_def)

lemma runs_to_step: "runs_to micro c (l, sh) \<Longrightarrow> micro l sh = (Inl l', sh') \<Longrightarrow> runs_to micro c (l', sh')"
  unfolding runs_to_def by (erule rtranclp.rtrancl_into_rtrancl) simp

locale locked_object =
  fixes enter :: "'op \<Rightarrow> 'loc"
    and micro :: "'loc \<Rightarrow> 'sh \<Rightarrow> ('loc + 'res) \<times> 'sh"
    and whole :: "'op \<Rightarrow> 'sh \<Rightarrow> 'res \<times> 'sh"
    and ok :: "'sh \<Rightarrow> bool"
    and rank :: "'loc \<Rightarrow> nat"
  assumes statements: "ok a \<Longrightarrow> runs_to micro (enter op, a) (l, sh) \<Longrightarrow> micro l sh = (Inr r, sh') \<Longrightarrow>
      whole op a = (r, sh')"
    and whole_ok: "ok a \<Longrightarrow> whole op a = (r, a') \<Longrightarrow> ok a'"
    and rank_down: "micro l sh = (Inl l', sh') \<Longrightarrow> rank l' < rank l"
begin

text \<open>\<open>a\<close> is the state that the atomic operations have produced so far.\<close>

definition simulated :: "('sh, 'op, 'loc, 'res) cstate \<Rightarrow> 'sh \<Rightarrow> bool" where
  "simulated s a \<longleftrightarrow> exclusive s \<and> ok a \<and>
    (\<forall>t op l. cpcs s t = Inside op l \<longrightarrow> runs_to micro (enter op, a) (l, shared s)) \<and>
    (idle s \<longrightarrow> shared s = a)"

lemma simulated_start: "ok sh \<Longrightarrow> simulated (cstart sh) sh"
  by (auto simp: simulated_def exclusive_start) (auto simp: cstart_def)

text \<open>A step is one atomic operation, with its result, or none.\<close>

definition matched :: "('sh, 'op, 'loc, 'res) cstate \<Rightarrow> 'sh \<Rightarrow> ('sh, 'op, 'loc, 'res) cstate \<Rightarrow> 'sh \<Rightarrow> bool" where
  "matched s a s' a' \<longleftrightarrow> (a' = a \<and> (\<forall>t op r. result_of s' t op r \<longrightarrow> result_of s t op r)) \<or>
    (\<exists>t op l r. cpcs s t = Inside op l \<and> cpcs s' t = Leaving op r \<and> whole op a = (r, a') \<and>
      (\<forall>t' op' r'. t' \<noteq> t \<longrightarrow> result_of s' t' op' r' \<longrightarrow> result_of s t' op' r'))"

lemma simulated_step:
  assumes step: "cstep enter micro s s'" and sim: "simulated s a"
  shows "\<exists>a'. simulated s' a' \<and> matched s a s' a'"
proof -
  have ex: "exclusive s" "exclusive s'" and "ok a"
    using sim exclusive_step [OF step] by (simp_all add: simulated_def)
  note parts = sim [unfolded simulated_def]
  from step show ?thesis
  proof cases
    case (c_call t op' r' op)
    then have "\<forall>op l. cpcs s t \<noteq> Inside op l" by auto
    then have "idle s' \<Longrightarrow> shared s' = a"
      using parts idle_back c_call(1) by fastforce
    then have "simulated s' a"
      using parts ex(2) c_call(1) by (auto simp: simulated_def split: if_splits)
    moreover have "matched s a s' a"
      using c_call by (auto simp: matched_def result_of_def split: if_splits)
    ultimately show ?thesis by blast
  next
    case (c_lock t op)
    have "idle s"
      using ex(1) c_lock(3) by (rule idle_free)
    then have "simulated s' a"
      using parts ex(2) c_lock(1) by (auto simp: simulated_def idle_def runs_to_refl split: if_splits)
    moreover have "matched s a s' a"
      using c_lock by (auto simp: matched_def result_of_def split: if_splits)
    ultimately show ?thesis by blast
  next
    case (c_statement t op l l' sh)
    have only: "t' = t" if "cpcs s t' = Inside op' k" for t' op' k
      using exclusive_other [OF ex(1), of t t'] that c_statement(2) by simp
    have "runs_to micro (enter op, a) (l, shared s)"
      using parts c_statement(2) by blast
    from runs_to_step [OF this c_statement(3)] have "simulated s' a"
      using parts ex(2) c_statement(1) only by (auto simp: simulated_def idle_def split: if_splits)
    moreover have "matched s a s' a"
      using c_statement by (auto simp: matched_def result_of_def split: if_splits)
    ultimately show ?thesis by blast
  next
    case (c_return t op l r sh)
    have only: "t' = t" if "cpcs s t' = Inside op' k" for t' op' k
      using exclusive_other [OF ex(1), of t t'] that c_return(2) by simp
    have "runs_to micro (enter op, a) (l, shared s)"
      using parts c_return(2) by blast
    then have w: "whole op a = (r, sh)" "ok sh"
      using statements [OF \<open>ok a\<close> _ c_return(3)] whole_ok [OF \<open>ok a\<close>] by blast+
    have "simulated s' sh"
      using ex(2) w(2) c_return(1) only by (auto simp: simulated_def split: if_splits)
    moreover have "matched s a s' sh"
      unfolding matched_def using w(1) c_return(1,2)
      by (intro disjI2 exI [of _ t] exI [of _ op] exI [of _ l] exI [of _ r]) (auto simp: result_of_def)
    ultimately show ?thesis by blast
  next
    case (c_unlock t op r)
    have "\<forall>op l. cpcs s t \<noteq> Inside op l"
      using c_unlock(2) by simp
    then have "idle s' \<Longrightarrow> idle s"
      using idle_back [of t "Returned op r" "s\<lparr>holder := None\<rparr>"] c_unlock(1) by simp
    then have "simulated s' a"
      using parts ex(2) c_unlock(1) by (auto simp: simulated_def split: if_splits)
    moreover have "matched s a s' a"
      using c_unlock by (auto simp: matched_def result_of_def split: if_splits)
    ultimately show ?thesis by blast
  qed
qed

lemma interleaved_run:
  assumes run: "(cstep enter micro)\<^sup>*\<^sup>* (cstart sh) s" and ok: "ok sh"
  shows "\<exists>ops rs place a. atomically whole ops sh = (rs, a) \<and> simulated s a \<and> linearised ops rs place s"
  using run
proof (induction rule: rtranclp_induct)
  case base
  have "atomically whole [] sh = ([], sh)" "linearised [] [] (\<lambda>_. 0) (cstart sh)"
    by (simp_all add: linearised_def result_of_def cstart_def)
  then show ?case
    using simulated_start [OF ok] by blast
next
  case (step s s')
  then obtain ops rs place a where IH: "atomically whole ops sh = (rs, a)" "simulated s a"
      "linearised ops rs place s"
    by blast
  obtain a' where a': "simulated s' a'" "matched s a s' a'"
    using simulated_step [OF step(2) IH(2)] by blast
  from a'(2) show ?case
    unfolding matched_def
  proof (elim disjE conjE exE)
    assume "a' = a" "\<forall>t op r. result_of s' t op r \<longrightarrow> result_of s t op r"
    moreover from this have "linearised ops rs place s'"
      using IH(3) unfolding linearised_def by blast
    ultimately show ?thesis
      using IH(1) a'(1) by blast
  next
    fix t op l r
    assume m: "cpcs s' t = Leaving op r" "whole op a = (r, a')"
      "\<forall>t' op' r'. t' \<noteq> t \<longrightarrow> result_of s' t' op' r' \<longrightarrow> result_of s t' op' r'"
    then show ?thesis
      using atomically_snoc [OF IH(1) m(2)] a'(1)
        linearised_snoc [OF IH(3) atomically_length [OF IH(1)] m(1,3)] by blast
  qed
qed

lemma ops_ok: "atomically whole ops sh = (rs, a) \<Longrightarrow> ok sh \<Longrightarrow> ok a"
proof (induction ops arbitrary: sh rs)
  case (Cons op ops)
  obtain r b where "whole op sh = (r, b)"
    by fastforce
  with Cons whole_ok [OF Cons.prems(2) this] show ?case
    by (auto split: prod.splits)
qed simp

text \<open>Whoever holds the lock can go on alone until it has released it.\<close>

lemma inside_leaves:
  assumes "cpcs s t = Inside op l"
  shows "\<exists>s' r. (cstep enter micro)\<^sup>*\<^sup>* s s' \<and> cpcs s' t = Leaving op r \<and> holder s' = holder s \<and>
    (\<forall>t'. t' \<noteq> t \<longrightarrow> cpcs s' t' = cpcs s t')"
  using assms
proof (induction "rank l" arbitrary: s l rule: less_induct)
  case less
  obtain x sh where x: "micro l (shared s) = (x, sh)"
    by fastforce
  show ?case
  proof (cases x)
    case (Inl l')
    let ?s = "move t (Inside op l') (s\<lparr>shared := sh\<rparr>)"
    have "cstep enter micro s ?s"
      using less.prems x Inl by (blast intro: c_statement)
    moreover obtain s' r where "(cstep enter micro)\<^sup>*\<^sup>* ?s s'" "cpcs s' t = Leaving op r"
        "holder s' = holder ?s" "\<forall>t'. t' \<noteq> t \<longrightarrow> cpcs s' t' = cpcs ?s t'"
      using less.hyps [of l' ?s] rank_down x Inl by auto
    ultimately show ?thesis
      by (intro exI [of _ s'] exI [of _ r]) (auto intro: converse_rtranclp_into_rtranclp)
  next
    case (Inr r)
    have "cstep enter micro s (move t (Leaving op r) (s\<lparr>shared := sh\<rparr>))"
      using less.prems x Inr by (blast intro: c_return)
    then show ?thesis
      by (intro exI [of _ "move t (Leaving op r) (s\<lparr>shared := sh\<rparr>)"] exI [of _ r]) auto
  qed
qed

lemma lock_released:
  assumes "exclusive s" "holder s = Some t"
  shows "\<exists>s'. (cstep enter micro)\<^sup>*\<^sup>* s s' \<and> holder s' = None \<and> (\<forall>t'. t' \<noteq> t \<longrightarrow> cpcs s' t' = cpcs s t')"
proof -
  have unlock: "\<exists>u. (cstep enter micro)\<^sup>*\<^sup>* v u \<and> holder u = None \<and> (\<forall>t'. t' \<noteq> t \<longrightarrow> cpcs u t' = cpcs v t')"
    if "cpcs v t = Leaving op r" for v op r
    by (intro exI [of _ "move t (Returned op r) (v\<lparr>holder := None\<rparr>)"])
      (auto intro!: r_into_rtranclp c_unlock [OF that])
  have "critical (cpcs s t)"
    using assms by (simp add: exclusive_def)
  then consider (i) op l where "cpcs s t = Inside op l" | (l) op r where "cpcs s t = Leaving op r"
    by (auto simp: critical_def split: cpc.splits)
  then show ?thesis
  proof cases
    case i
    then obtain v r where v: "(cstep enter micro)\<^sup>*\<^sup>* s v" "cpcs v t = Leaving op r"
        "\<forall>t'. t' \<noteq> t \<longrightarrow> cpcs v t' = cpcs s t'"
      using inside_leaves by blast
    then show ?thesis
      using unlock [OF v(2)] by (metis rtranclp_trans)
  next
    case l
    then show ?thesis
      using unlock by blast
  qed
qed

text \<open>So a thread that waits for the lock can always be let in.\<close>

lemma nobody_starves:
  assumes "exclusive s" "cpcs s t = Wanting op"
  shows "\<exists>s'. (cstep enter micro)\<^sup>*\<^sup>* s s' \<and> cpcs s' t = Inside op (enter op)"
proof -
  obtain u where u: "(cstep enter micro)\<^sup>*\<^sup>* s u" "holder u = None" "cpcs u t = Wanting op"
  proof (cases "holder s")
    case None
    then show thesis using assms(2) that [of s] by simp
  next
    case (Some t')
    then have "t' \<noteq> t"
      using assms critical_simps(2) unfolding exclusive_def by metis
    then show thesis
      using lock_released [OF assms(1) Some] assms(2) that by metis
  qed
  have "cstep enter micro u (move t (Inside op (enter op)) (u\<lparr>holder := Some t\<rparr>))"
    using u(3,2) by (rule c_lock)
  with u(1) show ?thesis
    by (intro exI [of _ "move t (Inside op (enter op)) (u\<lparr>holder := Some t\<rparr>)"])
      (simp add: rtranclp.rtrancl_into_rtrancl)
qed

end

end
