(* ===== verification/Pool_Race.thy ===== *)
theory Pool_Race
  imports PoolInThreads Locked_Object
begin

text \<open>
  \<open>PoolInThreads::getT\<close> (tools/PoolInThreads.hpp) called by many threads, for their own thread id
  or for another one's, as the accepting thread of \<open>TcpServer\<close> does. The items are objects,
  numbered in the order of their creation; the creation of the pool itself is in Instance\_Race.
\<close>

record objects =
  o_pool :: "nat PoolInThreads option"
  o_next :: nat

definition o_put :: "nat PoolInThreads option \<Rightarrow> objects \<Rightarrow> objects" where
  "o_put p w = w\<lparr>o_pool := p\<rparr>"

text \<open>\<open>boost::make_shared<T>()\<close>\<close>

definition make_shared :: "(objects, nat) comp" where
  "make_shared = (\<lambda>w. (Inr (o_next w), w\<lparr>o_next := Suc (o_next w)\<rparr>))"

interpretation objs: pool_field o_pool o_put make_shared
  by unfold_locales (auto simp: o_put_def make_shared_def)

subsection \<open>The statements of getT\<close>

text \<open>
  Under the lock: \<open>find\<close> and the return of what it found, \<open>make_shared\<close>, the entry into the map and
  the return.
\<close>

datatype getT_loc = Find int | Make int | Store int nat

fun getT_micro :: "getT_loc \<Rightarrow> objects \<Rightarrow> (getT_loc + nat) \<times> objects" where
  "getT_micro (Find tid) w = (case pools (inst o_pool w) tid of
      Some x \<Rightarrow> (Inr x, w)
    | None \<Rightarrow> (Inl (Make tid), w))"
| "getT_micro (Make tid) w = (Inl (Store tid (o_next w)), w\<lparr>o_next := Suc (o_next w)\<rparr>)"
| "getT_micro (Store tid x) w = (Inr x, set_item o_pool o_put tid x w)"

fun getT_rank :: "getT_loc \<Rightarrow> nat" where
  "getT_rank (Find tid) = 2"
| "getT_rank (Make tid) = 1"
| "getT_rank (Store tid x) = 0"

text \<open>The operation as one function, from its sequential model.\<close>

definition getT_whole :: "int \<Rightarrow> objects \<Rightarrow> nat \<times> objects" where
  "getT_whole tid w = (case getT o_pool o_put make_shared tid w of
      (Inr x, w') \<Rightarrow> (x, w')
    | (Inl e, w') \<Rightarrow> (0, w'))"

text \<open>The pool is there, unlocked, and no two threads have the same item.\<close>

definition objects_ok :: "objects \<Rightarrow> bool" where
  "objects_ok w \<longleftrightarrow> o_pool w \<noteq> None \<and> pool_free o_pool w \<and>
    (\<forall>k x. lookup_item o_pool w k = Some x \<longrightarrow> x < o_next w) \<and>
    (\<forall>k k' x. lookup_item o_pool w k = Some x \<longrightarrow> lookup_item o_pool w k' = Some x \<longrightarrow> k = k')"

lemma getT_whole_run:
  assumes "objects_ok w"
  shows "getT_whole tid w = (case lookup_item o_pool w tid of
      Some x \<Rightarrow> (x, w)
    | None \<Rightarrow> (o_next w, set_item o_pool o_put tid (o_next w) (w\<lparr>o_next := Suc (o_next w)\<rparr>)))"
proof -
  obtain p where p: "o_pool w = Some p" "\<not> mutex_held (pool_mutex p)"
    using assms by (auto simp: objects_ok_def pool_free_def inst_mutex_def inst_def)
  then have m: "pool_mutex p = \<lparr>mutex_held = False\<rparr>"
    by (cases "pool_mutex p") simp
  then show ?thesis
    using p by (cases w; cases p)
      (simp add: getT_whole_def getT_def MutexLocker_def Mutex_lock_def Mutex_unlock_def comp_defs
        inst_mutex_def set_inst_mutex_def inst_def o_put_def lookup_item_def make_shared_def
        set_item_def split: option.split)
qed

lemma set_item_fields:
  assumes "o_pool w \<noteq> None"
  shows "lookup_item o_pool (set_item o_pool o_put k x w) = (lookup_item o_pool w)(k \<mapsto> x)"
    and "o_next (set_item o_pool o_put k x w) = o_next w"
    and "o_pool (set_item o_pool o_put k x w) \<noteq> None"
    and "pool_free o_pool (set_item o_pool o_put k x w) = pool_free o_pool w"
  using assms by (auto simp: set_item_def o_put_def lookup_item_def inst_def fun_eq_iff pool_free_def
      inst_mutex_def split: option.splits)

lemma lookup_next [simp]:
  "lookup_item o_pool (w\<lparr>o_next := n\<rparr>) = lookup_item o_pool w"
  "pool_free o_pool (w\<lparr>o_next := n\<rparr>) = pool_free o_pool w"
  by (simp_all add: lookup_item_def fun_eq_iff pool_free_def inst_mutex_def inst_def)

lemma getT_whole_ok:
  assumes ok: "objects_ok w" and run: "getT_whole k w = (x, v)"
  shows "objects_ok v" and "lookup_item o_pool v = (lookup_item o_pool w)(k \<mapsto> x)"
proof -
  have "objects_ok v \<and> lookup_item o_pool v = (lookup_item o_pool w)(k \<mapsto> x)"
  proof (cases "lookup_item o_pool w k")
    case None
    let ?w = "w\<lparr>o_next := Suc (o_next w)\<rparr>"
    have v: "v = set_item o_pool o_put k (o_next w) ?w" "x = o_next w"
      using run None by (auto simp: getT_whole_run [OF ok])
    have made: "o_pool ?w \<noteq> None"
      using ok by (simp add: objects_ok_def)
    have "y < o_next w" if "lookup_item o_pool w k' = Some y" for k' y
      using ok that by (simp add: objects_ok_def)
    then show ?thesis
      using ok set_item_fields [OF made, of k "o_next w"] v
      by (auto simp: objects_ok_def less_Suc_eq split: if_splits)
  next
    case (Some y)
    then show ?thesis
      using run ok by (auto simp: getT_whole_run [OF ok])
  qed
  then show "objects_ok v" and "lookup_item o_pool v = (lookup_item o_pool w)(k \<mapsto> x)"
    by blast+
qed

text \<open>Where the statements of one call get to.\<close>

lemma getT_runs:
  assumes "runs_to getT_micro (Find k, w) (l, v)"
  shows "(l = Find k \<and> v = w) \<or> (lookup_item o_pool w k = None \<and>
    ((l = Make k \<and> v = w) \<or> (l = Store k (o_next w) \<and> v = w\<lparr>o_next := Suc (o_next w)\<rparr>)))"
  using assms unfolding runs_to_def
proof (induction "(l, v)" arbitrary: l v rule: rtranclp_induct)
  case (step c)
  then show ?case
    by (cases c) (auto split: option.splits)
qed simp

interpretation pool_lock: locked_object Find getT_micro getT_whole objects_ok getT_rank
proof
  fix a k l sh r sh'
  assume ok: "objects_ok a" and "runs_to getT_micro (Find k, a) (l, sh)" and fin: "getT_micro l sh = (Inr r, sh')"
  then show "getT_whole k a = (r, sh')"
    using getT_runs [of k a l sh] by (auto simp: getT_whole_run [OF ok] split: option.splits)
next
  fix l sh l' sh'
  assume "getT_micro l sh = (Inl l', sh')"
  then show "getT_rank l' < getT_rank l"
    by (cases l) (auto split: option.splits)
qed (rule getT_whole_ok)

lemma calls_found:
  assumes "objects_ok w" "atomically getT_whole ks w = (xs, v)"
  shows "lookup_item o_pool w \<subseteq>\<^sub>m lookup_item o_pool v \<and>
    (\<forall>k x. (k, x) \<in> set (zip ks xs) \<longrightarrow> lookup_item o_pool v k = Some x)"
  using assms
proof (induction ks arbitrary: w xs)
  case (Cons k ks)
  obtain x u ys where u: "getT_whole k w = (x, u)" and ys: "atomically getT_whole ks u = (ys, v)" "xs = x # ys"
    using Cons.prems(2) by (auto split: prod.splits)
  note k = getT_whole_ok [OF Cons.prems(1) u]
  have IH: "lookup_item o_pool u \<subseteq>\<^sub>m lookup_item o_pool v"
    "\<And>k x. (k, x) \<in> set (zip ks ys) \<Longrightarrow> lookup_item o_pool v k = Some x"
    using Cons.IH [OF k(1) ys(1)] by blast+
  have "lookup_item o_pool w k = None \<or> lookup_item o_pool w k = Some x"
    using u by (auto simp: getT_whole_run [OF Cons.prems(1)] split: option.splits)
  then have "lookup_item o_pool w \<subseteq>\<^sub>m lookup_item o_pool u"
    unfolding k(2) by (auto simp: map_le_def)
  then have le: "lookup_item o_pool w \<subseteq>\<^sub>m lookup_item o_pool v"
    using IH(1) by (rule map_le_trans)
  have "lookup_item o_pool v k = Some x"
    using IH(1) unfolding k(2) by (auto simp: map_le_def)
  with le IH(2) ys(2) show ?case by auto
qed simp

text \<open>
  C37. \<open>getT\<close> is atomic: whatever threads call it for whatever thread ids, and however their
  statements are interleaved, some sequence of calls of the sequential operation gives every
  thread the item it got; two threads have the same item exactly if they asked for the same
  thread id, nobody sees half an operation, at most one thread is between the lock and the unlock,
  and a thread that waits for the lock can still get it.
\<close>

theorem getT_atomic:
  assumes ok: "objects_ok w" and run: "(cstep Find getT_micro)\<^sup>*\<^sup>* (cstart w) s"
  shows "(\<exists>ks xs v. atomically getT_whole ks w = (xs, v) \<and> (idle s \<longrightarrow> shared s = v) \<and>
      (\<forall>t k x. result_of s t k x \<longrightarrow> (k, x) \<in> set (zip ks xs))) \<and>
    (\<forall>t k x t' k' x'. result_of s t k x \<longrightarrow> result_of s t' k' x' \<longrightarrow> (k = k' \<longleftrightarrow> x = x')) \<and>
    (\<forall>t t'. critical (cpcs s t) \<longrightarrow> critical (cpcs s t') \<longrightarrow> t = t') \<and>
    (\<forall>t k. cpcs s t = Wanting k \<longrightarrow> (\<exists>s'. (cstep Find getT_micro)\<^sup>*\<^sup>* s s' \<and> cpcs s' t = Inside k (Find k)))"
proof -
  obtain ks xs place v where v: "atomically getT_whole ks w = (xs, v)" "pool_lock.simulated s v"
      and lin: "linearised ks xs place s"
    using pool_lock.interleaved_run [OF run ok] by blast
  note res = linearised_found [OF lin atomically_length [OF v(1)]]
  have ex: "exclusive s" and "idle s \<longrightarrow> shared s = v"
    using v(2) by (simp_all add: pool_lock.simulated_def)
  moreover have found: "lookup_item o_pool v k = Some x" if "result_of s t k x" for t k x
    using calls_found [OF ok v(1)] res that by blast
  have "objects_ok v"
    using pool_lock.ops_ok [OF v(1) ok] .
  then have "k = k' \<longleftrightarrow> x = x'" if "result_of s t k x" "result_of s t' k' x'" for t k x t' k' x'
    using found [OF that(1)] found [OF that(2)] by (auto simp: objects_ok_def)
  moreover have "\<forall>t t'. critical (cpcs s t) \<longrightarrow> critical (cpcs s t') \<longrightarrow> t = t'"
    using exclusive_other [OF ex] by blast
  ultimately show ?thesis
    using v(1) res pool_lock.nobody_starves [OF ex] by blast
qed

text \<open>Two threads ask for the item of thread 7 at once: the second waits and gets the first one's.\<close>

definition demo_objects :: objects where
  "demo_objects = \<lparr>o_pool = Some PoolInThreads_new, o_next = 0\<rparr>"

lemma demo_objects_ok: "objects_ok demo_objects"
  by (simp add: objects_ok_def demo_objects_def pool_free_def inst_mutex_def inst_def
      lookup_item_def PoolInThreads_new_def Mutex_init_def)

theorem getT_atomic_witness:
  "\<exists>s. (cstep Find getT_micro)\<^sup>*\<^sup>* (cstart demo_objects) s \<and> result_of s 1 7 0 \<and>
    cpcs s 2 = Wanting 7 \<and> (\<exists>s'. (cstep Find getT_micro)\<^sup>*\<^sup>* s s' \<and> cpcs s' 2 = Inside 7 (Find 7))"
proof -
  let ?s = "schedule Find getT_micro [(1, Some 7), (2, Some 7), (1, None), (2, None), (1, None), (1, None), (1, None)]
    (cstart demo_objects)"
  have "cpcs ?s 1 = Leaving 7 0" "cpcs ?s 2 = Wanting 7"
    by code_simp+
  moreover have run: "(cstep Find getT_micro)\<^sup>*\<^sup>* (cstart demo_objects) ?s"
    by (rule schedule_run)
  ultimately show ?thesis
    using getT_atomic [OF demo_objects_ok run] by (auto simp: result_of_def)
qed

end
