(* ===== verification/Events.thy ===== *)
theory Events
  imports Fasco_Prelude
begin

text \<open>
  base/Events.h and Events.cpp: the registration of one file descriptor with an event loop, its
  state, the events it asks for (\<open>eorigin_\<close>) and the events that occurred (\<open>mutable_\<close>). Event
  masks are 32 bits wide; \<open>struct pollfd\<close> has 16-bit signed fields.
\<close>

unbundle bit_operations_syntax

subsection \<open>Event masks\<close>

type_synonym emask = "32 word"

definition POLLIN :: emask where "POLLIN = 0x001"
definition POLLPRI :: emask where "POLLPRI = 0x002"
definition POLLOUT :: emask where "POLLOUT = 0x004"
definition POLLERR :: emask where "POLLERR = 0x008"
definition POLLHUP :: emask where "POLLHUP = 0x010"
definition POLLNVAL :: emask where "POLLNVAL = 0x020"
definition POLLRDHUP :: emask where "POLLRDHUP = 0x2000"

definition kNoneEvent :: emask where "kNoneEvent = 0"
definition kReadEvent :: emask where "kReadEvent = POLLIN OR POLLPRI"
definition kWriteEvent :: emask where "kWriteEvent = POLLOUT"

lemmas mask_defs = POLLIN_def POLLPRI_def POLLOUT_def POLLERR_def POLLHUP_def POLLNVAL_def
  POLLRDHUP_def kNoneEvent_def kReadEvent_def kWriteEvent_def

datatype estate = NEW | MOD | USED | DEL | INVAILD

datatype etype = TYPE_START | TYPE_TCPCON | TYPE_TIMER | TYPE_TCPSER | TYPE_EVENT

record Events =
  ev_fd :: int
  ev_tid :: int
  ev_state :: estate
  ev_type :: etype
  eorigin :: emask
  emutable :: emask

record epoll_event =
  ep_fd :: int
  ep_events :: emask

record pollfd =
  pl_fd :: int
  pl_events :: "16 word"
  pl_revents :: "16 word"

subsection \<open>Construction and moves\<close>

text \<open>\<open>tid\<close> is the thread that constructs the object.\<close>

definition Events_new :: "int \<Rightarrow> int \<Rightarrow> emask \<Rightarrow> Events" where
  "Events_new tid fd events = \<lparr>ev_fd = fd, ev_tid = tid, ev_state = NEW, ev_type = TYPE_START,
     eorigin = events, emutable = kNoneEvent\<rparr>"

definition Events_copy :: "int \<Rightarrow> Events \<Rightarrow> Events" where
  "Events_copy tid e = Events_new tid (ev_fd e) (eorigin e)"

definition Events_epoll :: "int \<Rightarrow> epoll_event \<Rightarrow> Events" where
  "Events_epoll tid e = Events_new tid (ep_fd e) (ep_events e)"

text \<open>\<open>short\<close> to \<open>uint32_t\<close> extends the sign.\<close>

definition Events_pollfd :: "int \<Rightarrow> pollfd \<Rightarrow> Events" where
  "Events_pollfd tid e = Events_new tid (pl_fd e) (scast (pl_revents e))"

definition Events_reset :: "Events \<Rightarrow> bool \<times> Events" where
  "Events_reset e = (True, e\<lparr>ev_fd := - 1, ev_type := TYPE_START, ev_state := INVAILD,
     eorigin := kNoneEvent, emutable := kNoneEvent\<rparr>)"

text \<open>\<open>this = std::move(that)\<close> of two different objects: both afterwards.\<close>

definition Events_move :: "Events \<Rightarrow> Events \<Rightarrow> Events \<times> Events" where
  "Events_move this that =
    (this\<lparr>ev_fd := ev_fd that, ev_tid := ev_tid that, ev_type := ev_type that,
       ev_state := ev_state that, eorigin := eorigin that, emutable := emutable that\<rparr>,
     snd (Events_reset that))"

subsection \<open>Accessors\<close>

definition invaild :: "Events \<Rightarrow> bool" where "invaild e \<longleftrightarrow> ev_state e = INVAILD"
definition ismod :: "Events \<Rightarrow> bool" where "ismod e \<longleftrightarrow> ev_state e = MOD"
definition isdel :: "Events \<Rightarrow> bool" where "isdel e \<longleftrightarrow> ev_state e = DEL"
definition isnew :: "Events \<Rightarrow> bool" where "isnew e \<longleftrightarrow> ev_state e = NEW"
definition isused :: "Events \<Rightarrow> bool" where "isused e \<longleftrightarrow> ev_state e = USED"

lemmas state_defs = invaild_def ismod_def isdel_def isnew_def isused_def

definition setType :: "etype \<Rightarrow> Events \<Rightarrow> Events" where "setType tp e = e\<lparr>ev_type := tp\<rparr>"
definition setTid :: "int \<Rightarrow> Events \<Rightarrow> Events" where "setTid tid e = e\<lparr>ev_tid := tid\<rparr>"
definition setState :: "estate \<Rightarrow> Events \<Rightarrow> Events" where "setState s e = e\<lparr>ev_state := s\<rparr>"

definition updateEvents_of :: "emask \<Rightarrow> Events \<Rightarrow> Events" where
  "updateEvents_of events e = e\<lparr>eorigin := events, ev_state := MOD\<rparr>"

definition addEvent :: "emask \<Rightarrow> Events \<Rightarrow> Events" where
  "addEvent event e = e\<lparr>eorigin := eorigin e OR event, ev_state := MOD\<rparr>"

definition deleteEvent :: "emask \<Rightarrow> Events \<Rightarrow> Events" where
  "deleteEvent event e = e\<lparr>eorigin := eorigin e AND NOT event, ev_state := MOD\<rparr>"

definition addEventMutable :: "emask \<Rightarrow> Events \<Rightarrow> Events" where
  "addEventMutable event e = e\<lparr>emutable := emutable e OR event, ev_state := MOD\<rparr>"

definition deleteEventMutable :: "emask \<Rightarrow> Events \<Rightarrow> Events" where
  "deleteEventMutable event e = e\<lparr>emutable := emutable e AND NOT event, ev_state := MOD\<rparr>"

definition setMutable :: "emask \<Rightarrow> Events \<Rightarrow> Events" where
  "setMutable event e = e\<lparr>emutable := event\<rparr>"

definition containsEvents :: "emask \<Rightarrow> emask \<Rightarrow> bool" where
  "containsEvents m events \<longleftrightarrow> m AND events = events"

definition containsAtLeastOneEvents :: "emask \<Rightarrow> emask \<Rightarrow> bool" where
  "containsAtLeastOneEvents m events \<longleftrightarrow> m AND events \<noteq> 0"

definition isRead :: "Events \<Rightarrow> bool" where
  "isRead e \<longleftrightarrow> containsAtLeastOneEvents (emutable e) (POLLIN OR POLLPRI OR POLLRDHUP)"

definition isWrite :: "Events \<Rightarrow> bool" where
  "isWrite e \<longleftrightarrow> containsAtLeastOneEvents (emutable e) POLLOUT"

definition isError :: "Events \<Rightarrow> bool" where
  "isError e \<longleftrightarrow> containsAtLeastOneEvents (emutable e) (POLLERR OR POLLNVAL)"

definition isClose :: "Events \<Rightarrow> bool" where
  "isClose e \<longleftrightarrow> containsAtLeastOneEvents (emutable e) POLLHUP \<and>
     \<not> containsAtLeastOneEvents (emutable e) POLLIN"

definition originRead :: "Events \<Rightarrow> bool" where
  "originRead e \<longleftrightarrow> containsAtLeastOneEvents (eorigin e) (POLLIN OR POLLPRI OR POLLRDHUP)"

definition originWrite :: "Events \<Rightarrow> bool" where
  "originWrite e \<longleftrightarrow> containsAtLeastOneEvents (eorigin e) POLLOUT"

definition epollEvents :: "Events \<Rightarrow> epoll_event" where
  "epollEvents e = \<lparr>ep_fd = ev_fd e, ep_events = eorigin e\<rparr>"

definition pollEvents :: "Events \<Rightarrow> pollfd" where
  "pollEvents e = \<lparr>pl_fd = ev_fd e, pl_events = ucast (eorigin e), pl_revents = 0\<rparr>"

subsection \<open>The masks as sets of events\<close>

lemma bit_or_minus:
  "bit (eorigin (addEvent m e)) n = (bit (eorigin e) n \<or> bit m n)"
  "bit (eorigin (deleteEvent m e)) n = (bit (eorigin e) n \<and> \<not> bit m n)"
  by (auto simp: addEvent_def deleteEvent_def bit_simps dest: bit_imp_le_length)

lemma bit_32: "bit m n \<Longrightarrow> n < 32" for m :: emask
  using bit_imp_le_length [of m n] by simp

lemma contains_bits: "containsEvents m es \<longleftrightarrow> (\<forall>n. bit es n \<longrightarrow> bit m n)"
  unfolding containsEvents_def using bit_32 by (auto simp: bit_eq_iff bit_simps)

lemma contains_one_bits: "containsAtLeastOneEvents m es \<longleftrightarrow> (\<exists>n. bit m n \<and> bit es n)"
  unfolding containsAtLeastOneEvents_def using bit_32 by (auto simp: bit_eq_iff bit_simps)

text \<open>
  Adding and deleting events are union and difference of the requested events and nothing
  else but the state, which becomes \<open>MOD\<close>: afterwards the added events are contained, no deleted
  one is, every other event is as before, and deleting what was added to a disjoint request
  gives the request back.
\<close>

theorem event_masks_are_sets:
  "containsEvents (eorigin (addEvent m e)) m \<and>
   \<not> containsAtLeastOneEvents (eorigin (deleteEvent m e)) m \<and>
   (\<not> bit m n \<longrightarrow> bit (eorigin (addEvent m e)) n = bit (eorigin e) n \<and>
      bit (eorigin (deleteEvent m e)) n = bit (eorigin e) n) \<and>
   (\<not> containsAtLeastOneEvents (eorigin e) m \<longrightarrow> deleteEvent m (addEvent m e) = setState MOD e) \<and>
   emutable (addEvent m e) = emutable e \<and> ismod (addEvent m e) \<and> ismod (deleteEvent m e)"
proof -
  have "eorigin (deleteEvent m (addEvent m e)) = eorigin e"
    if "\<not> containsAtLeastOneEvents (eorigin e) m"
    using that by (auto simp: bit_eq_iff bit_or_minus contains_one_bits)
  then have "deleteEvent m (addEvent m e) = setState MOD e"
    if "\<not> containsAtLeastOneEvents (eorigin e) m"
    using that by (cases e) (auto simp: deleteEvent_def addEvent_def setState_def)
  then show ?thesis
    by (simp add: contains_bits contains_one_bits bit_or_minus ismod_def) (simp add: addEvent_def
        deleteEvent_def)
qed

theorem event_masks_are_sets_witness:
  "deleteEvent kReadEvent (addEvent kReadEvent (Events_new 1 5 kWriteEvent)) =
   setState MOD (Events_new 1 5 kWriteEvent)"
  using event_masks_are_sets [of kReadEvent "Events_new 1 5 kWriteEvent" 2]
  by (simp add: containsAtLeastOneEvents_def Events_new_def mask_defs)

text \<open>
  What \<open>epollEvents\<close> passes to the kernel comes back unchanged when it is wrapped again, while
  \<open>pollEvents\<close> keeps 16 bits of the request only: exactly the requests below \<open>2 ^ 15\<close> survive
  the way through a \<open>struct pollfd\<close> whose \<open>events\<close> are reported as \<open>revents\<close>.
\<close>

theorem event_conversions:
  "eorigin (Events_epoll tid (epollEvents e)) = eorigin e \<and>
   ev_fd (Events_epoll tid (epollEvents e)) = ev_fd e \<and>
   (unat (eorigin e) < 2 ^ 15 \<longrightarrow>
      eorigin (Events_pollfd tid ((pollEvents e)\<lparr>pl_revents := pl_events (pollEvents e)\<rparr>)) = eorigin e)"
proof -
  have "scast (ucast m :: 16 word) = m" if "unat m < 2 ^ 15" for m :: emask
  proof -
    have "take_bit 15 m = m"
      using that by (simp add: take_bit_eq_mod unat_arith_simps word_eq_iff_unsigned flip: of_nat_power)
    then have hi: "\<not> bit m n" if "15 \<le> n" for n
      using that by (metis bit_take_bit_iff not_le)
    show ?thesis
      by (rule bit_word_eqI) (use hi in \<open>auto simp: bit_simps min_def\<close>)
  qed
  then show ?thesis
    by (simp add: Events_epoll_def Events_pollfd_def epollEvents_def pollEvents_def Events_new_def)
qed

theorem event_conversions_witness:
  "eorigin (Events_pollfd 1 ((pollEvents (Events_new 1 5 (kReadEvent OR kWriteEvent)))\<lparr>pl_revents := 7\<rparr>)) = 7"
  using event_conversions [of 1 "Events_new 1 5 (kReadEvent OR kWriteEvent)"]
  by (simp add: Events_new_def mask_defs pollEvents_def)

end
