(* ===== verification/Mco_World.thy ===== *)
theory Mco_World
  imports Mcontext PoolInThreads
begin

text \<open>
  The data of the coroutine layer (mco/McoStack.h, McoCallStack.h, McoRoutine.h) and the world
  its operations run in: the heap of \<open>McoRoutine\<close> objects, the per-thread call stacks and stack
  managers, the memory, and each thread's CPU. A pointer to a \<open>McoRoutine\<close> is its address, 0
  is \<open>nullptr\<close>. A \<open>McoContext\<close>, its \<open>Mcontext\<close> and a \<open>McoStack\<close> are each reached through one
  pointer of their owning coroutine only (created by it, deleted with it), so they are stored
  in it, as an option for the null pointer.
\<close>

subsection \<open>Data\<close>

record McoStack =
  stack :: addr
  ssize :: "64 word"
  stack_bp :: addr
  stack_sp :: addr
  stack_tmp :: "byte list option"
  is_private :: bool
  restore_size :: "64 word"

definition McoStack_new :: McoStack where
  "McoStack_new = \<lparr>stack = 0, ssize = 0, stack_bp = 0, stack_sp = 0, stack_tmp = None,
     is_private = False, restore_size = 0\<rparr>"

text \<open>\<open>CoCallback\<close> is a function object; \<open>None\<close> is the empty one. Its code is the user's.\<close>

type_synonym CoCallback = "nat option"

text \<open>
  \<open>McoContext::ctx\<close> has no initialiser: \<open>new McoContext\<close> leaves it indeterminate until
  \<open>InitMcoContext\<close> assigns it.
\<close>

datatype ctx_ptr = CtxIndet | CtxNull | Ctx Mcontext

record McoContext =
  ctx :: ctx_ptr
  corun :: CoCallback

text \<open>
  \<open>stackMgr\<close> points to the stack manager of a thread (there is one per thread), named by the
  thread's id.
\<close>

record McoRoutine =
  coctx :: "McoContext option"
  sink :: addr
  costack :: "McoStack option"
  stackMgr :: "int option"
  use_private :: bool
  is_main :: bool
  in_callstack :: bool
  should_close :: bool
  start :: bool
  running :: bool
  codone :: bool
  done_yield :: bool
  stack_store :: bool

definition McoRoutine_new :: McoRoutine where
  "McoRoutine_new = \<lparr>coctx = None, sink = 0, costack = None, stackMgr = None,
     use_private = False, is_main = False, in_callstack = False, should_close = False,
     start = False, running = False, codone = False, done_yield = False, stack_store = False\<rparr>"

text \<open>\<open>std::map<size_t, McoRoutine*>\<close> as an association list without repeated keys.\<close>

record McoCallStack =
  callStack :: "(nat \<times> addr) list"
  cs_index :: nat

definition McoCallStack_new :: McoCallStack where
  "McoCallStack_new = \<lparr>callStack = [], cs_index = 0\<rparr>"

record McoStackManager =
  commonSize :: "64 word"
  privateSize :: "64 word"
  commonStack :: addr
  ready :: bool
  commonOccupy :: addr

text \<open>
  What the code runs in but does not define: whether \<open>NDEBUG\<close> is set (\<open>dbg\<close> is its negation);
  the outcome of the k-th \<open>new\<close> of the process (\<open>None\<close>: it throws \<open>std::bad_alloc\<close>); the
  address of \<open>CoroutineRun\<close>; the address \<open>McoSwap\<close>'s call of \<open>mcontext_swap\<close> returns to; the
  event objects to which a user's function object is bound, holding a \<open>shared_ptr\<close> to each.
\<close>

record env =
  dbg :: bool
  heap_new :: "nat \<Rightarrow> addr option"
  run_entry :: addr
  swap_ret :: addr
  bound :: "nat \<Rightarrow> nat list"

record world =
  cos :: "addr \<rightharpoonup> McoRoutine"
  callstacks :: "McoCallStack PoolInThreads option"
  stackmgrs :: "McoStackManager PoolInThreads option"
  mem :: memory
  news :: nat
  cpus :: "int \<Rightarrow> regfile"

definition world_init :: "memory \<Rightarrow> (int \<Rightarrow> regfile) \<Rightarrow> world" where
  "world_init m c = \<lparr>cos = Map.empty, callstacks = None, stackmgrs = None, mem = m, news = 0,
     cpus = c\<rparr>"

subsection \<open>new\<close>

definition new_block :: "env \<Rightarrow> (world, addr) comp" where
  "new_block env =
    bnd (gets news) (\<lambda>k. seq (modify (\<lambda>w. w\<lparr>news := Suc k\<rparr>))
      (case heap_new env k of None \<Rightarrow> raise BadAlloc | Some a \<Rightarrow> ret a))"

lemma new_block_apply:
  "new_block env w = (case heap_new env (news w) of
     None \<Rightarrow> (Inl BadAlloc, w\<lparr>news := Suc (news w)\<rparr>)
   | Some a \<Rightarrow> (Inr a, w\<lparr>news := Suc (news w)\<rparr>))"
  by (simp add: new_block_def comp_defs split: option.splits)

subsection \<open>Coroutines in the heap\<close>

definition get_co :: "addr \<Rightarrow> (world, McoRoutine) comp" where
  "get_co r = (if r = 0 then raise NullDeref else deref DanglingPtr (\<lambda>w. cos w r))"

definition put_co :: "addr \<Rightarrow> McoRoutine \<Rightarrow> world \<Rightarrow> world" where
  "put_co r c w = w\<lparr>cos := (cos w)(r \<mapsto> c)\<rparr>"

definition upd_co :: "addr \<Rightarrow> (McoRoutine \<Rightarrow> McoRoutine) \<Rightarrow> (world, unit) comp" where
  "upd_co r f = bnd (get_co r) (\<lambda>c. modify (put_co r (f c)))"

definition get_stack :: "addr \<Rightarrow> (world, McoStack) comp" where
  "get_stack r = bnd (get_co r) (\<lambda>c. case costack c of None \<Rightarrow> raise NullDeref | Some st \<Rightarrow> ret st)"

definition upd_stack :: "addr \<Rightarrow> (McoStack \<Rightarrow> McoStack) \<Rightarrow> (world, unit) comp" where
  "upd_stack r f = bnd (get_stack r) (\<lambda>st. upd_co r (\<lambda>c. c\<lparr>costack := Some (f st)\<rparr>))"

definition get_ctx :: "addr \<Rightarrow> (world, Mcontext) comp" where
  "get_ctx r = bnd (get_co r) (\<lambda>c. case coctx c of None \<Rightarrow> raise NullDeref
     | Some x \<Rightarrow> (case ctx x of CtxIndet \<Rightarrow> raise DanglingPtr | CtxNull \<Rightarrow> raise NullDeref
         | Ctx m \<Rightarrow> ret m))"

definition put_ctx :: "Mcontext \<Rightarrow> McoRoutine \<Rightarrow> McoRoutine" where
  "put_ctx m c = c\<lparr>coctx := map_option (\<lambda>x. x\<lparr>ctx := Ctx m\<rparr>) (coctx c)\<rparr>"

lemma get_co_apply [simp]:
  "r \<noteq> 0 \<Longrightarrow> cos w r = Some c \<Longrightarrow> get_co r w = (Inr c, w)"
  by (simp add: get_co_def)

lemma get_co_null [simp]: "get_co 0 w = (Inl NullDeref, w)"
  by (simp add: get_co_def)

lemma upd_co_apply [simp]:
  "r \<noteq> 0 \<Longrightarrow> cos w r = Some c \<Longrightarrow> upd_co r f w = (Inr (), put_co r (f c) w)"
  by (simp add: upd_co_def comp_defs)

lemma get_stack_apply [simp]:
  "r \<noteq> 0 \<Longrightarrow> cos w r = Some c \<Longrightarrow> costack c = Some st \<Longrightarrow> get_stack r w = (Inr st, w)"
  by (simp add: get_stack_def comp_defs)

lemma upd_stack_apply [simp]:
  "r \<noteq> 0 \<Longrightarrow> cos w r = Some c \<Longrightarrow> costack c = Some st \<Longrightarrow>
   upd_stack r f w = (Inr (), put_co r (c\<lparr>costack := Some (f st)\<rparr>) w)"
  by (simp add: upd_stack_def comp_defs)

lemma get_ctx_apply [simp]:
  "r \<noteq> 0 \<Longrightarrow> cos w r = Some c \<Longrightarrow> coctx c = Some x \<Longrightarrow> ctx x = Ctx m \<Longrightarrow>
   get_ctx r w = (Inr m, w)"
  by (simp add: get_ctx_def comp_defs)

lemma put_co_fields [simp]:
  "cos (put_co r c w) = (cos w)(r \<mapsto> c)" "callstacks (put_co r c w) = callstacks w"
  "stackmgrs (put_co r c w) = stackmgrs w" "mem (put_co r c w) = mem w"
  "news (put_co r c w) = news w" "cpus (put_co r c w) = cpus w"
  by (simp_all add: put_co_def)

lemma put_co_put_co [simp]: "put_co r c (put_co r c' w) = put_co r c w"
  by (simp add: put_co_def)

lemma put_co_push [simp]:
  "put_co r c (w\<lparr>news := n\<rparr>) = (put_co r c w)\<lparr>news := n\<rparr>"
  "put_co r c (w\<lparr>mem := m\<rparr>) = (put_co r c w)\<lparr>mem := m\<rparr>"
  "put_co r c (w\<lparr>cpus := p\<rparr>) = (put_co r c w)\<lparr>cpus := p\<rparr>"
  "put_co r c (w\<lparr>callstacks := q\<rparr>) = (put_co r c w)\<lparr>callstacks := q\<rparr>"
  "put_co r c (w\<lparr>stackmgrs := g\<rparr>) = (put_co r c w)\<lparr>stackmgrs := g\<rparr>"
  by (simp_all add: put_co_def)

end
