(* ===== verification/Epoll.thy ===== *)
theory Epoll
  imports Events Mco_World
begin

text \<open>
  base/Epoll.h and Epoll.cpp over the system calls they make. The kernel is not part of the
  repository: its state is a type parameter, and each system call is a function on it, given
  by the record \<open>sys\<close>. A system call returns \<open>- 1\<close> on failure.
\<close>

subsection \<open>System calls\<close>

datatype ctl = CTL_ADD | CTL_DEL | CTL_MOD

text \<open>\<open>epoll_wait\<close>: the events that are ready, \<open>- 1\<close> with \<open>EINTR\<close>, or \<open>- 1\<close> with another error.\<close>

datatype wait_result = Ready "epoll_event list" | Interrupted | WaitError

record 'k sys =
  sys_epoll_create :: "'k \<Rightarrow> int \<times> 'k"
  sys_epoll_ctl :: "int \<Rightarrow> ctl \<Rightarrow> epoll_event \<Rightarrow> 'k \<Rightarrow> int \<times> 'k"
  sys_epoll_wait :: "int \<Rightarrow> nat \<Rightarrow> int \<Rightarrow> 'k \<Rightarrow> wait_result \<times> 'k"
  sys_eventfd :: "'k \<Rightarrow> int \<times> 'k"
  sys_write8 :: "int \<Rightarrow> 'k \<Rightarrow> int \<times> 'k"
  sys_read :: "int \<Rightarrow> nat \<Rightarrow> 'k \<Rightarrow> int \<times> 'k"
  sys_accept :: "int \<Rightarrow> 'k \<Rightarrow> int \<times> 'k"
  sys_close :: "int \<Rightarrow> 'k \<Rightarrow> int \<times> 'k"
  sys_getfl :: "int \<Rightarrow> 'k \<Rightarrow> 32 word \<times> 'k"
  sys_setfl :: "int \<Rightarrow> 32 word \<Rightarrow> 'k \<Rightarrow> 32 word \<times> 'k"
  sys_getfd :: "int \<Rightarrow> 'k \<Rightarrow> 32 word \<times> 'k"
  sys_setfd :: "int \<Rightarrow> 32 word \<Rightarrow> 'k \<Rightarrow> 32 word \<times> 'k"
  sys_now :: "'k \<Rightarrow> int \<times> 'k"

definition syscall :: "('k \<Rightarrow> 'a \<times> 'k) \<Rightarrow> ('k, 'a) comp" where
  "syscall f k = (case f k of (x, k') \<Rightarrow> (Inr x, k'))"

lemma syscall_apply [simp]: "syscall f k = (Inr (fst (f k)), snd (f k))"
  by (simp add: syscall_def split: prod.splits)

subsection \<open>The poller\<close>

text \<open>
  \<open>revents_\<close> is a vector the kernel writes into through \<open>data()\<close>: \<open>rev_mem\<close> is the memory it
  has allocated (its capacity), \<open>rev_size\<close> its size.
\<close>

record Epoll =
  epoll_fd :: int
  rev_mem :: "epoll_event list"
  rev_size :: nat
  maxNum :: nat

definition addStep :: nat where "addStep = 15"

definition zero_event :: epoll_event where "zero_event = \<lparr>ep_fd = 0, ep_events = 0\<rparr>"

text \<open>\<open>resize(n)\<close> of an empty vector, and \<open>clear()\<close>, which keeps the memory.\<close>

definition rev_resize :: "nat \<Rightarrow> Epoll \<Rightarrow> Epoll" where
  "rev_resize n p = p\<lparr>rev_mem := replicate n zero_event @ drop n (rev_mem p), rev_size := n\<rparr>"

definition rev_clear :: "Epoll \<Rightarrow> Epoll" where
  "rev_clear p = p\<lparr>rev_size := 0\<rparr>"

definition Epoll_new :: "'k sys \<Rightarrow> ('k, Epoll) comp" where
  "Epoll_new S = bnd (syscall (sys_epoll_create S)) (\<lambda>fd.
     ret (rev_resize 20 \<lparr>epoll_fd = fd, rev_mem = [], rev_size = 0, maxNum = 20\<rparr>))"

definition eventCtl :: "env \<Rightarrow> 'k sys \<Rightarrow> Epoll \<Rightarrow> ctl \<Rightarrow> epoll_event \<Rightarrow> ('k, bool) comp" where
  "eventCtl env S p op event =
    seq (cassert (dbg env) (ret (epoll_fd p \<noteq> - 1)))
    (bnd (syscall (sys_epoll_ctl S (epoll_fd p) op event)) (\<lambda>r. ret (r \<noteq> - 1)))"

definition eventAdd :: "env \<Rightarrow> 'k sys \<Rightarrow> Epoll \<Rightarrow> epoll_event \<Rightarrow> ('k, bool) comp" where
  [simp]: "eventAdd env S p event = eventCtl env S p CTL_ADD event"

definition eventDel :: "env \<Rightarrow> 'k sys \<Rightarrow> Epoll \<Rightarrow> epoll_event \<Rightarrow> ('k, bool) comp" where
  [simp]: "eventDel env S p event = eventCtl env S p CTL_DEL event"

definition eventMod :: "env \<Rightarrow> 'k sys \<Rightarrow> Epoll \<Rightarrow> epoll_event \<Rightarrow> ('k, bool) comp" where
  [simp]: "eventMod env S p event = eventCtl env S p CTL_MOD event"

definition EventsAdd :: "env \<Rightarrow> 'k sys \<Rightarrow> Epoll \<Rightarrow> Events \<Rightarrow> ('k, bool) comp" where
  "EventsAdd env S p e = eventAdd env S p (epollEvents e)"

definition EventsMod :: "env \<Rightarrow> 'k sys \<Rightarrow> Epoll \<Rightarrow> Events \<Rightarrow> ('k, bool) comp" where
  "EventsMod env S p e = eventMod env S p (epollEvents e)"

definition EventsDel :: "env \<Rightarrow> 'k sys \<Rightarrow> Epoll \<Rightarrow> Events \<Rightarrow> ('k, bool) comp" where
  "EventsDel env S p e = eventDel env S p (epollEvents e)"

text \<open>
  \<open>loopWait\<close> retries as long as the call is interrupted; the fuel bounds the number of calls.
  The events are what the kernel writes into the buffer.
\<close>

fun loopWait :: "'k sys \<Rightarrow> nat \<Rightarrow> int \<Rightarrow> nat \<Rightarrow> int \<Rightarrow> ('k, int \<times> epoll_event list) comp" where
  "loopWait S 0 fd maxevents timeout = raise NoFuel"
| "loopWait S (Suc f) fd maxevents timeout =
    bnd (syscall (sys_epoll_wait S fd maxevents timeout)) (\<lambda>r. case r of
      Interrupted \<Rightarrow> loopWait S f fd maxevents timeout
    | WaitError \<Rightarrow> ret (- 1, [])
    | Ready evs \<Rightarrow> ret (int (length evs), evs))"

text \<open>
  \<open>Loop\<close> gives the time, the caller's vector with the occurred events appended, and the poller.
  A kernel that writes past the buffer's memory is a fault.
\<close>

definition Epoll_Loop ::
  "'k sys \<Rightarrow> nat \<Rightarrow> Epoll \<Rightarrow> epoll_event list \<Rightarrow> int \<Rightarrow> ('k, int \<times> epoll_event list \<times> Epoll) comp" where
  "Epoll_Loop S f p events timeout =
    bnd (loopWait S f (epoll_fd p) (maxNum p) timeout) (\<lambda>(r, evs).
      if length (rev_mem p) < length evs then raise DanglingPtr
      else
        (let p1 = p\<lparr>rev_mem := evs @ drop (length evs) (rev_mem p)\<rparr>;
             events1 = events @ take (nat r) (rev_mem p1);
             p2 = rev_clear p1;
             p3 = (if r = int (maxNum p2)
               then rev_resize (maxNum p2 + addStep) (p2\<lparr>maxNum := maxNum p2 + addStep\<rparr>) else p2)
         in bnd (syscall (sys_now S)) (\<lambda>now. ret (now, events1, p3))))"

subsection \<open>Waiting ends\<close>

text \<open>
  A kernel to evaluate with: epoll with one interest list, an eventfd counter, calls of
  \<open>epoll_wait\<close> answered from a list, and the flags of the descriptors.
\<close>

record demo_kernel =
  dk_interest :: "int \<rightharpoonup> emask"
  dk_waits :: "wait_result list"
  dk_counter :: nat
  dk_next :: int
  dk_fl :: "int \<Rightarrow> 32 word"
  dk_fd :: "int \<Rightarrow> 32 word"
  dk_closed :: "int list"

definition demo_ctl :: "ctl \<Rightarrow> epoll_event \<Rightarrow> demo_kernel \<Rightarrow> int \<times> demo_kernel" where
  "demo_ctl op e k = (let fd = ep_fd e; has = dk_interest k fd \<noteq> None in
     case op of
       CTL_ADD \<Rightarrow> (if has then (- 1, k) else (0, k\<lparr>dk_interest := (dk_interest k)(fd \<mapsto> ep_events e)\<rparr>))
     | CTL_MOD \<Rightarrow> (if has then (0, k\<lparr>dk_interest := (dk_interest k)(fd \<mapsto> ep_events e)\<rparr>) else (- 1, k))
     | CTL_DEL \<Rightarrow> (if has then (0, k\<lparr>dk_interest := (dk_interest k)(fd := None)\<rparr>) else (- 1, k)))"

definition demo_sys :: "demo_kernel sys" where
  "demo_sys = \<lparr>
     sys_epoll_create = (\<lambda>k. (dk_next k, k\<lparr>dk_next := dk_next k + 1\<rparr>)),
     sys_epoll_ctl = (\<lambda>_. demo_ctl),
     sys_epoll_wait = (\<lambda>_ n _ k. case dk_waits k of [] \<Rightarrow> (WaitError, k)
       | r # rs \<Rightarrow> (r, k\<lparr>dk_waits := rs\<rparr>)),
     sys_eventfd = (\<lambda>k. (dk_next k, k\<lparr>dk_next := dk_next k + 1\<rparr>)),
     sys_write8 = (\<lambda>_ k. (8, k\<lparr>dk_counter := dk_counter k + 1\<rparr>)),
     sys_read = (\<lambda>_ n k. (int n, k\<lparr>dk_counter := 0\<rparr>)),
     sys_accept = (\<lambda>_ k. (dk_next k, k\<lparr>dk_next := dk_next k + 1\<rparr>)),
     sys_close = (\<lambda>fd k. (0, k\<lparr>dk_closed := fd # dk_closed k\<rparr>)),
     sys_getfl = (\<lambda>fd k. (dk_fl k fd, k)),
     sys_setfl = (\<lambda>fd v k. (0, k\<lparr>dk_fl := (dk_fl k)(fd := v)\<rparr>)),
     sys_getfd = (\<lambda>fd k. (dk_fd k fd, k)),
     sys_setfd = (\<lambda>fd v k. (0, k\<lparr>dk_fd := (dk_fd k)(fd := v)\<rparr>)),
     sys_now = (\<lambda>k. (1000000, k))\<rparr>"

definition demo_kernel0 :: demo_kernel where
  "demo_kernel0 = \<lparr>dk_interest = Map.empty, dk_waits = [Interrupted, Interrupted,
     Ready [\<lparr>ep_fd = 9, ep_events = 1\<rparr>]], dk_counter = 0, dk_next = 10, dk_fl = (\<lambda>_. 0),
     dk_fd = (\<lambda>_. 0), dk_closed = []\<rparr>"

text \<open>
  \<open>loopWait\<close> returns as soon as \<open>epoll_wait\<close> is not interrupted: if the first \<open>j\<close> calls are and
  the next one is not, it makes exactly \<open>j + 1\<close> calls and returns the last one's result, for
  any fuel above \<open>j\<close>.
\<close>

theorem loopWait_ends:
  fixes S :: "'k sys" and k :: 'k and fd t :: int and n :: nat
  defines "wait \<equiv> sys_epoll_wait S fd n t"
  defines "after \<equiv> \<lambda>i. ((\<lambda>k. snd (wait k)) ^^ i) k"
  assumes intr: "\<forall>i < j. fst (wait (after i)) = Interrupted"
    and done_at: "fst (wait (after j)) \<noteq> Interrupted" and fuel: "j < f"
  shows "loopWait S f fd n t k = (Inr (case fst (wait (after j)) of
      Ready evs \<Rightarrow> (int (length evs), evs) | _ \<Rightarrow> (- 1, [])), after (Suc j))"
proof -
  have shift: "((\<lambda>k. snd (wait k)) ^^ i) (snd (wait k)) = ((\<lambda>k. snd (wait k)) ^^ Suc i) k" for i k
    by (simp only: funpow_Suc_right o_apply)
  have "loopWait S f fd n t k = (Inr (case fst (wait (((\<lambda>k. snd (wait k)) ^^ j) k)) of
      Ready evs \<Rightarrow> (int (length evs), evs) | _ \<Rightarrow> (- 1, [])), ((\<lambda>k. snd (wait k)) ^^ Suc j) k)"
    if "\<forall>i < j. fst (wait (((\<lambda>k. snd (wait k)) ^^ i) k)) = Interrupted"
      "fst (wait (((\<lambda>k. snd (wait k)) ^^ j) k)) \<noteq> Interrupted" "j < f" for k j
    using that
  proof (induction j arbitrary: k f)
    case 0
    then show ?case
      by (cases f) (auto simp: comp_defs wait_def split: wait_result.splits)
  next
    case (Suc j)
    obtain f' where f': "f = Suc f'" "j < f'"
      using Suc.prems(3) by (cases f) auto
    have "fst (wait k) = Interrupted"
      using Suc.prems(1) by (auto dest: spec [of _ 0])
    then have "loopWait S f fd n t k = loopWait S f' fd n t (snd (wait k))"
      by (simp add: f' comp_defs wait_def)
    also have "\<dots> = (Inr (case fst (wait (((\<lambda>k. snd (wait k)) ^^ j) (snd (wait k)))) of
      Ready evs \<Rightarrow> (int (length evs), evs) | _ \<Rightarrow> (- 1, [])),
        ((\<lambda>k. snd (wait k)) ^^ Suc j) (snd (wait k)))"
      by (rule Suc.IH) (use Suc.prems f' shift in auto)
    finally show ?case
      unfolding shift .
  qed
  from this [OF intr [unfolded after_def] done_at [unfolded after_def] fuel] show ?thesis
    unfolding after_def .
qed

theorem loopWait_ends_witness:
  "fst (loopWait demo_sys 3 4 20 100 demo_kernel0) = Inr (1, [\<lparr>ep_fd = 9, ep_events = 1\<rparr>])"
  using loopWait_ends [of 2 demo_sys 4 20 100 demo_kernel0 3]
  by (simp add: demo_sys_def demo_kernel0_def numeral_2_eq_2 less_Suc_eq)

subsection \<open>The kernel's buffer\<close>

text \<open>The buffer's memory holds what \<open>epoll_wait\<close> may be asked for.\<close>

definition epoll_ok :: "Epoll \<Rightarrow> bool" where
  "epoll_ok p \<longleftrightarrow> 0 < maxNum p \<and> maxNum p \<le> length (rev_mem p)"

text \<open>\<open>epoll_wait\<close> reports at most \<open>maxevents\<close> events (epoll\_wait(2)).\<close>

definition wait_bounded :: "'k sys \<Rightarrow> bool" where
  "wait_bounded S \<longleftrightarrow> (\<forall>fd n t k evs. fst (sys_epoll_wait S fd n t k) = Ready evs \<longrightarrow> length evs \<le> n)"

lemma loopWait_result:
  "loopWait S f fd n t k = (Inr (r, evs), k') \<Longrightarrow> r = int (length evs) \<or> r = - 1 \<and> evs = []"
  by (induction f arbitrary: k) (auto simp: comp_defs split: wait_result.splits)

lemma loopWait_bounded:
  "wait_bounded S \<Longrightarrow> loopWait S f fd n t k = (Inr (r, evs), k') \<Longrightarrow> length evs \<le> n"
  by (induction f arbitrary: k) (auto simp: comp_defs wait_bounded_def split: wait_result.splits)

lemma Epoll_new_ok: "Epoll_new S k = (Inr p, k') \<Longrightarrow> epoll_ok p"
  by (auto simp: Epoll_new_def comp_defs rev_resize_def epoll_ok_def)

text \<open>
  C20. However often the poller is asked, the kernel writes inside the memory of \<open>revents_\<close>: \<open>Loop\<close>
  on a poller whose memory holds \<open>maxNum_\<close> entries never overruns it, appends exactly the events
  that the kernel reported, and leaves such a poller, grown by \<open>addStep_\<close> when the buffer was full.
\<close>

theorem Epoll_Loop_in_bounds:
  assumes ok: "epoll_ok p" and kern: "wait_bounded S"
    and wait: "loopWait S f (epoll_fd p) (maxNum p) timeout k = (Inr (r, evs), k1)"
  shows "\<exists>now p' k'. Epoll_Loop S f p events timeout k = (Inr (now, events @ evs, p'), k') \<and>
    epoll_ok p' \<and> epoll_fd p' = epoll_fd p \<and>
    maxNum p' = (if length evs = maxNum p then maxNum p + addStep else maxNum p)"
proof -
  have len: "length evs \<le> maxNum p"
    by (rule loopWait_bounded [OF kern wait])
  have r: "nat r = length evs" "r = int (maxNum p) \<longleftrightarrow> length evs = maxNum p"
    using loopWait_result [OF wait] ok by (auto simp: epoll_ok_def)
  have fit: "\<not> length (rev_mem p) < length evs"
    using ok len by (simp add: epoll_ok_def)
  show ?thesis
    using wait fit ok r(1) len unfolding epoll_ok_def
    by (auto simp: Epoll_Loop_def comp_defs Let_def rev_clear_def rev_resize_def r(2) addStep_def)
qed

theorem Epoll_Loop_in_bounds_witness:
  "\<exists>now p' k'. Epoll_Loop (demo_sys\<lparr>sys_epoll_wait := \<lambda>_ n _ k.
       (Ready (replicate (min n 20) \<lparr>ep_fd = 9, ep_events = 1\<rparr>), k)\<rparr>) 1
     (rev_resize 20 \<lparr>epoll_fd = 4, rev_mem = [], rev_size = 0, maxNum = 20\<rparr>) [] 100 demo_kernel0
   = (Inr (now, replicate 20 \<lparr>ep_fd = 9, ep_events = 1\<rparr>, p'), k') \<and> maxNum p' = 35"
proof -
  let ?S = "demo_sys\<lparr>sys_epoll_wait := \<lambda>_ n _ k.
       (Ready (replicate (min n 20) \<lparr>ep_fd = 9, ep_events = 1\<rparr>), k)\<rparr>"
  let ?p = "rev_resize 20 \<lparr>epoll_fd = 4, rev_mem = [], rev_size = 0, maxNum = 20\<rparr>"
  have "epoll_ok ?p" "wait_bounded ?S" "maxNum ?p = 20" "epoll_fd ?p = 4"
    by (simp_all add: epoll_ok_def rev_resize_def wait_bounded_def)
  moreover have "loopWait ?S 1 4 20 100 demo_kernel0 =
      (Inr (20, replicate 20 \<lparr>ep_fd = 9, ep_events = 1\<rparr>), demo_kernel0)"
    by (simp add: comp_defs)
  ultimately show ?thesis
    using Epoll_Loop_in_bounds [of ?p ?S 1 100 demo_kernel0 20
        "replicate 20 \<lparr>ep_fd = 9, ep_events = 1\<rparr>" demo_kernel0 "[]"]
    by (simp add: addStep_def) blast
qed

end
