(* ===== verification/McoStack.thy ===== *)
theory McoStack
  imports Mco_World
begin

text \<open>
  mco/McoStack.cpp: the per-thread stack manager with its common stack, the creation of common
  and private stacks, and the saving and restoring of a coroutine's part of the common stack
  (\<open>StoreUsedCommonStack\<close>, \<open>RecoverUsedCommonStack\<close>). A \<open>McoStack*\<close> is named by its owning
  coroutine, a \<open>McoStackManager*\<close> by its thread.
\<close>

subsection \<open>The stack manager\<close>

definition page_round :: "64 word \<Rightarrow> 64 word" where
  "page_round n = (if n AND 0xFFF \<noteq> 0 then (n AND NOT 0xFFF) + 0x1000 else n)"

definition McoStackManager_make ::
  "env \<Rightarrow> 64 word \<Rightarrow> 64 word \<Rightarrow> (world, McoStackManager) comp" where
  "McoStackManager_make env cs ps w =
    (case new_block env w of
       (Inl _, w') \<Rightarrow> (Inr \<lparr>commonSize = page_round cs, privateSize = ps, commonStack = 0,
          ready = False, commonOccupy = 0\<rparr>, w')
     | (Inr a, w') \<Rightarrow> (Inr \<lparr>commonSize = page_round cs, privateSize = ps, commonStack = a,
          ready = True, commonOccupy = 0\<rparr>, w'))"

definition default_stack_size :: "64 word" where
  "default_stack_size = 1024 * 1024 * 5"

definition stackmgrs_put :: "McoStackManager PoolInThreads option \<Rightarrow> world \<Rightarrow> world" where
  "stackmgrs_put p w = w\<lparr>stackmgrs := p\<rparr>"

definition McoStackManager_new :: "env \<Rightarrow> (world, McoStackManager) comp" where
  "McoStackManager_new env =
    seq (new_block env) (McoStackManager_make env default_stack_size default_stack_size)"

definition GetMcoStackMgr :: "env \<Rightarrow> int \<Rightarrow> (world, McoStackManager) comp" where
  "GetMcoStackMgr env tid = Item stackmgrs stackmgrs_put (McoStackManager_new env) tid"

abbreviation mgr_of :: "world \<Rightarrow> int \<rightharpoonup> McoStackManager" where
  "mgr_of w \<equiv> lookup_item stackmgrs w"

definition put_mgr :: "int \<Rightarrow> McoStackManager \<Rightarrow> world \<Rightarrow> world" where
  "put_mgr tid m w = set_item stackmgrs stackmgrs_put tid m w"

definition get_mgr :: "int option \<Rightarrow> (world, McoStackManager) comp" where
  "get_mgr p = (case p of None \<Rightarrow> raise NullDeref
     | Some tid \<Rightarrow> deref DanglingPtr (\<lambda>w. mgr_of w tid))"

definition createCommonMcoStack :: "env \<Rightarrow> int option \<Rightarrow> (world, McoStack) comp" where
  "createCommonMcoStack env this =
    seq (new_block env)
      (bnd (get_mgr this) (\<lambda>m.
        ret (McoStack_new\<lparr>stack := commonStack m, ssize := commonSize m,
          stack_bp := commonStack m + commonSize m, restore_size := 0, stack_tmp := None,
          is_private := False\<rparr>)))"

definition createPrivateMcoStack :: "env \<Rightarrow> int option \<Rightarrow> (world, McoStack) comp" where
  "createPrivateMcoStack env this =
    seq (new_block env)
      (bnd (get_mgr this) (\<lambda>m.
        bnd (new_block env) (\<lambda>a.
          ret (McoStack_new\<lparr>stack := a, ssize := privateSize m, stack_tmp := None,
            is_private := True\<rparr>))))"

text \<open>The free functions on the calling thread's manager.\<close>

definition CreateCommonMcoStack :: "env \<Rightarrow> int \<Rightarrow> (world, McoStack) comp" where
  "CreateCommonMcoStack env tid =
    seq (GetMcoStackMgr env tid) (createCommonMcoStack env (Some tid))"

definition CreatePrivateMcoStack :: "env \<Rightarrow> int \<Rightarrow> (world, McoStack) comp" where
  "CreatePrivateMcoStack env tid =
    seq (GetMcoStackMgr env tid) (createPrivateMcoStack env (Some tid))"

definition RecycleMcoStack :: "McoStack option \<Rightarrow> (world, unit) comp" where
  "RecycleMcoStack st = ret ()"

definition GetCommonOccupy :: "env \<Rightarrow> int \<Rightarrow> (world, addr) comp" where
  "GetCommonOccupy env tid = bnd (GetMcoStackMgr env tid) (\<lambda>m. ret (commonOccupy m))"

definition SetCommonOccupy :: "env \<Rightarrow> int \<Rightarrow> addr \<Rightarrow> (world, unit) comp" where
  "SetCommonOccupy env tid r =
    bnd (GetMcoStackMgr env tid) (\<lambda>m. modify (put_mgr tid (m\<lparr>commonOccupy := r\<rparr>)))"

subsection \<open>Saving and restoring the common stack\<close>

definition StoreUsedCommonStack :: "env \<Rightarrow> addr \<Rightarrow> (world, unit) comp" where
  "StoreUsedCommonStack env r =
    bnd (get_co r) (\<lambda>c. case costack c of
      None \<Rightarrow> ret ()
    | Some st \<Rightarrow>
        if is_private st then ret ()
        else
          seq (upd_stack r (\<lambda>st. st\<lparr>restore_size := 0, stack_tmp := None\<rparr>))
          (seq (upd_stack r (\<lambda>st. st\<lparr>restore_size := stack_bp st - stack_sp st\<rparr>))
          (seq (new_block env)
          (bnd (gets mem) (\<lambda>m.
            upd_stack r (\<lambda>st. st\<lparr>stack_tmp :=
              Some (read_bytes m (stack_sp st) (unat (restore_size st)))\<rparr>))))))"

definition RecoverUsedCommonStack :: "addr \<Rightarrow> (world, unit) comp" where
  "RecoverUsedCommonStack r =
    bnd (get_co r) (\<lambda>c. case costack c of
      None \<Rightarrow> ret ()
    | Some st \<Rightarrow>
        if restore_size st = 0 then ret ()
        else (case stack_tmp st of
          None \<Rightarrow> raise NullDeref
        | Some bs \<Rightarrow>
            if length bs < unat (restore_size st) then raise DanglingPtr
            else modify (\<lambda>w. w\<lparr>mem :=
              write_bytes (stack_sp st) (take (unat (restore_size st)) bs) (mem w)\<rparr>)))"

subsection \<open>Which states the operations return in\<close>

interpretation mgrs: pool_field stackmgrs stackmgrs_put "McoStackManager_new env" for env
proof unfold_locales
  fix w r w'
  assume "McoStackManager_new env w = (r, w')"
  then show "stackmgrs w' = stackmgrs w"
    by (auto simp: McoStackManager_new_def McoStackManager_make_def new_block_apply comp_defs
        split: option.splits sum.splits prod.splits)
qed (simp_all add: stackmgrs_put_def)

lemma GetMcoStackMgr_hit [simp]:
  "pool_free stackmgrs w \<Longrightarrow> mgr_of w tid = Some m \<Longrightarrow> GetMcoStackMgr env tid w = (Inr m, w)"
  by (simp add: GetMcoStackMgr_def mgrs.item_hit)

lemma mgr_of_frame [simp]:
  "mgr_of (put_co r c w) tid = mgr_of w tid"
  "mgr_of (w\<lparr>news := n\<rparr>) tid = mgr_of w tid"
  "mgr_of (w\<lparr>mem := m\<rparr>) tid = mgr_of w tid"
  "mgr_of (w\<lparr>cpus := p\<rparr>) tid = mgr_of w tid"
  "mgr_of (w\<lparr>callstacks := q\<rparr>) tid = mgr_of w tid"
  by (simp_all add: lookup_item_def put_co_def)

lemma mgr_free_frame [simp]:
  "pool_free stackmgrs (put_co r c w) = pool_free stackmgrs w"
  "pool_free stackmgrs (w\<lparr>news := n\<rparr>) = pool_free stackmgrs w"
  "pool_free stackmgrs (w\<lparr>mem := m\<rparr>) = pool_free stackmgrs w"
  "pool_free stackmgrs (w\<lparr>cpus := p\<rparr>) = pool_free stackmgrs w"
  "pool_free stackmgrs (w\<lparr>callstacks := q\<rparr>) = pool_free stackmgrs w"
  by (simp_all add: pool_free_def inst_mutex_def inst_def put_co_def)

lemma put_mgr_frame [simp]:
  "cos (put_mgr tid m w) = cos w" "callstacks (put_mgr tid m w) = callstacks w"
  "mem (put_mgr tid m w) = mem w" "news (put_mgr tid m w) = news w"
  "cpus (put_mgr tid m w) = cpus w"
  by (simp_all add: put_mgr_def set_item_def stackmgrs_put_def)

lemma put_mgr_mgr_of [simp]:
  "mgr_of (put_mgr tid m w) = (mgr_of w)(tid \<mapsto> m)"
  "pool_free stackmgrs (put_mgr tid m w) = pool_free stackmgrs w"
  by (auto simp: put_mgr_def set_item_def stackmgrs_put_def lookup_item_def pool_free_def
      inst_mutex_def inst_def PoolInThreads_new_def fun_eq_iff split: option.splits)

lemma put_mgr_push [simp]:
  "put_mgr tid m (w\<lparr>news := n\<rparr>) = (put_mgr tid m w)\<lparr>news := n\<rparr>"
  "put_mgr tid m (w\<lparr>mem := q\<rparr>) = (put_mgr tid m w)\<lparr>mem := q\<rparr>"
  "put_mgr tid m (w\<lparr>cpus := p\<rparr>) = (put_mgr tid m w)\<lparr>cpus := p\<rparr>"
  by (simp_all add: put_mgr_def set_item_def stackmgrs_put_def inst_def)

lemma put_co_put_mgr [simp]: "put_co r c (put_mgr tid m w) = put_mgr tid m (put_co r c w)"
  by (simp add: put_mgr_def set_item_def stackmgrs_put_def put_co_def inst_def)

text \<open>
  The size of the common stack: the request rounded up to whole pages, for any request that
  leaves room for the rounding.
\<close>

lemma unat_and_page: "unat (n AND 0xFFF :: 64 word) = unat n mod 0x1000"
proof -
  have m: "(0xFFF :: 64 word) = mask 12"
    by (simp add: mask_eq_decr_exp)
  show ?thesis
    unfolding m by (simp add: take_bit_eq_mask [symmetric] take_bit_eq_mod unat_mod)
qed

text \<open>
  \<open>McoStackManager\<close> rounds the common stack's size up to whole 4096-byte pages: the result
  is a multiple of 4096, at least the request and less than a page more, whenever the request
  leaves room for a page below \<open>2 ^ 64\<close> (the default of 5 MB does).
\<close>

theorem page_round_correct:
  assumes "unat n + 4096 \<le> 2 ^ 64"
  shows "4096 dvd unat (page_round n) \<and> unat n \<le> unat (page_round n) \<and>
    unat (page_round n) < unat n + 4096"
proof (cases "n AND 0xFFF = 0")
  case True
  then have "unat n mod 4096 = 0"
    using unat_and_page [of n] by simp
  with True show ?thesis
    by (simp add: page_round_def mod_0_imp_dvd)
next
  case False
  let ?r = "unat n mod 4096"
  have "?r \<noteq> 0"
  proof
    assume "?r = 0"
    then have "unat (n AND 0xFFF) = 0" by (simp add: unat_and_page)
    then show False using False by (simp add: unat_eq_0)
  qed
  then have r: "0 < ?r" "?r < 4096" by simp_all
  have split: "(n AND 0xFFF) + (n AND NOT 0xFFF) = n"
  proof -
    have "(n AND 0xFFF) AND (n AND NOT 0xFFF) = 0" "(n AND 0xFFF) OR (n AND NOT 0xFFF) = n"
      by (auto intro!: bit_word_eqI simp: bit_simps)
    then show ?thesis
      using word_plus_and_or [of "n AND 0xFFF" "n AND NOT 0xFFF"] by simp
  qed
  have "n AND NOT 0xFFF = n - (n AND 0xFFF)"
    using split by (metis add_diff_cancel_left')
  then have low: "unat (n AND NOT 0xFFF) = unat n - ?r"
    by (simp add: unat_sub word_and_le2 unat_and_page)
  have "unat n - ?r + 4096 < 2 ^ 64"
    using assms r mod_less_eq_dividend [of "unat n" 4096] by linarith
  then have "unat (page_round n) = unat n - ?r + 4096"
    using False low by (simp add: page_round_def unat_word_ariths)
  moreover have "4096 dvd unat n - ?r + 4096"
    by (simp add: minus_mod_eq_mult_div)
  ultimately show ?thesis
    using r mod_less_eq_dividend [of "unat n" 4096] by auto
qed

theorem page_round_correct_witness:
  "4096 dvd unat (page_round 5000) \<and> page_round 5000 = 8192 \<and>
   page_round default_stack_size = default_stack_size"
  using page_round_correct [of 5000] by (simp add: page_round_def default_stack_size_def)

subsection \<open>Store and recover\<close>

lemma Store_apply:
  assumes "r \<noteq> 0" "cos w r = Some c" "costack c = Some st" "\<not> is_private st"
    "heap_new env (news w) = Some a"
  shows "StoreUsedCommonStack env r w = (Inr (), put_co r
      (c\<lparr>costack := Some (st\<lparr>restore_size := stack_bp st - stack_sp st,
        stack_tmp := Some (read_bytes (mem w) (stack_sp st) (unat (stack_bp st - stack_sp st)))\<rparr>)\<rparr>)
      (w\<lparr>news := Suc (news w)\<rparr>))"
  using assms by (simp add: StoreUsedCommonStack_def comp_defs new_block_apply)

lemma Recover_apply:
  assumes "r \<noteq> 0" "cos w r = Some c" "costack c = Some st" "stack_tmp st = Some bs"
    "length bs = unat (restore_size st)"
  shows "RecoverUsedCommonStack r w = (Inr (), w\<lparr>mem := write_bytes (stack_sp st) bs (mem w)\<rparr>)"
proof (cases "restore_size st = 0")
  case True
  then have "bs = []" using assms by simp
  then have "write_bytes (stack_sp st) bs (mem w) = mem w"
    by (simp add: write_bytes_def)
  with True assms show ?thesis
    by (simp add: RecoverUsedCommonStack_def comp_defs)
next
  case False
  with assms show ?thesis
    by (simp add: RecoverUsedCommonStack_def comp_defs)
qed

text \<open>
  C16. Saving a coroutine's part of the common stack and restoring it later is a round trip:
  whatever happened to the memory in between, after \<open>RecoverUsedCommonStack\<close> the bytes from the
  saved stack pointer to the stack's top are those \<open>StoreUsedCommonStack\<close> saw, every other byte
  is as it was just before the recovery, and no coroutine object changed.
\<close>

theorem store_recover_roundtrip:
  assumes co: "r \<noteq> 0" "cos w r = Some c" "costack c = Some st" "\<not> is_private st"
    and alloc: "heap_new env (news w) = Some a"
    and store: "StoreUsedCommonStack env r w = (q, w1)"
    and kept: "cos w2 r = cos w1 r"
    and recover: "RecoverUsedCommonStack r w2 = (q', w3)"
  defines "n \<equiv> unat (stack_bp st - stack_sp st)"
  shows "q = Inr () \<and> q' = Inr () \<and> cos w3 = cos w2 \<and>
    read_bytes (mem w3) (stack_sp st) n = read_bytes (mem w) (stack_sp st) n \<and>
    (\<forall>x. \<not> in_range (stack_sp st) n x \<longrightarrow> mem w3 x = mem w2 x)"
proof -
  let ?bs = "read_bytes (mem w) (stack_sp st) n"
  let ?st = "st\<lparr>restore_size := stack_bp st - stack_sp st, stack_tmp := Some ?bs\<rparr>"
  have w1: "q = Inr ()" "w1 = put_co r (c\<lparr>costack := Some ?st\<rparr>) (w\<lparr>news := Suc (news w)\<rparr>)"
    using store Store_apply [OF co alloc] by (simp_all add: n_def)
  have "RecoverUsedCommonStack r w2 =
      (Inr (), w2\<lparr>mem := write_bytes (stack_sp ?st) ?bs (mem w2)\<rparr>)"
    by (rule Recover_apply [where c = "c\<lparr>costack := Some ?st\<rparr>"])
      (use co kept w1 in \<open>simp_all add: n_def\<close>)
  then have w3: "q' = Inr ()" "w3 = w2\<lparr>mem := write_bytes (stack_sp st) ?bs (mem w2)\<rparr>"
    using recover by simp_all
  have "length ?bs \<le> 2 ^ 64"
    by (simp only: length_read_bytes n_def unat_le_word_size)
  from read_write_same [OF this, of "stack_sp st" "mem w2"] w1(1) w3 show ?thesis
    by (simp add: write_bytes_outside)
qed

text \<open>
  The witness: four bytes of the common stack, saved, wiped with the rest of the memory, and
  brought back.
\<close>

definition demo_env :: env where
  "demo_env = \<lparr>dbg = False, heap_new = (\<lambda>k. Some (of_nat (4096 * (k + 1)))), run_entry = 1,
     swap_ret = 2, bound = (\<lambda>f. if f = 7 then [1] else [])\<rparr>"

definition demo_stored :: world where
  "demo_stored = (world_init (\<lambda>x. ucast x) (\<lambda>_ _. 0))
     \<lparr>cos := [64 \<mapsto> McoRoutine_new\<lparr>costack := Some (McoStack_new\<lparr>stack_bp := 1008,
        stack_sp := 1004\<rparr>)\<rparr>]\<rparr>"

theorem store_recover_roundtrip_witness:
  "read_bytes (mem (snd (RecoverUsedCommonStack 64
     ((snd (StoreUsedCommonStack demo_env 64 demo_stored))\<lparr>mem := \<lambda>_. 0\<rparr>)))) 1004 4
   = [236, 237, 238, 239]"
proof -
  let ?c = "McoRoutine_new\<lparr>costack := Some (McoStack_new\<lparr>stack_bp := 1008, stack_sp := 1004\<rparr>)\<rparr>"
  let ?st = "McoStack_new\<lparr>stack_bp := 1008, stack_sp := 1004\<rparr>"
  let ?p1 = "StoreUsedCommonStack demo_env 64 demo_stored"
  let ?w2 = "(snd ?p1)\<lparr>mem := \<lambda>_. 0\<rparr>"
  let ?p3 = "RecoverUsedCommonStack 64 ?w2"
  have h: "(64 :: addr) \<noteq> 0" "cos demo_stored 64 = Some ?c" "costack ?c = Some ?st"
    "\<not> is_private ?st" "heap_new demo_env (news demo_stored) = Some 4096"
    by (simp_all add: demo_stored_def demo_env_def world_init_def McoStack_new_def)
  have "read_bytes (mem (snd ?p3)) 1004 4 = read_bytes (mem demo_stored) 1004 4"
    using store_recover_roundtrip [OF h, of "fst ?p1" "snd ?p1" ?w2 "fst ?p3" "snd ?p3"]
    by (simp add: McoStack_new_def)
  also have "\<dots> = [236, 237, 238, 239]"
    by (simp add: demo_stored_def world_init_def read_bytes_def upt_rec)
  finally show ?thesis .
qed

text \<open>
  A manager whose common stack could not be allocated clears \<open>ready_\<close>, but nothing reads
  the flag: on a thread's first use with the second \<open>new\<close> failing, \<open>createCommonMcoStack\<close>
  still returns a stack, which lies at address 0 and ends at its size.
\<close>

theorem unready_manager_still_serves:
  assumes fresh: "stackmgrs w = None"
    and mgr: "heap_new env (news w) = Some a" and nostack: "heap_new env (news w + 1) = None"
    and more: "heap_new env (news w + 2) = Some b"
    and get: "GetMcoStackMgr env tid w = (q, w1)"
    and create: "createCommonMcoStack env (Some tid) w1 = (q', w2)"
  shows "\<exists>m st. q = Inr m \<and> \<not> ready m \<and> q' = Inr st \<and> stack st = 0 \<and>
    stack_bp st = ssize st \<and> ssize st = default_stack_size"
proof -
  let ?m = "\<lparr>commonSize = page_round default_stack_size, privateSize = default_stack_size,
      commonStack = 0, ready = False, commonOccupy = 0\<rparr>"
  have "q = Inr ?m \<and> mgr_of w1 tid = Some ?m \<and> news w1 = news w + 2"
    using get mgr nostack fresh
    by (auto simp: GetMcoStackMgr_def Item_def Instance_def getT_def MutexLocker_def Mutex_lock_def
        Mutex_unlock_def comp_defs McoStackManager_new_def McoStackManager_make_def new_block_apply
        inst_mutex_def set_inst_mutex_def inst_def stackmgrs_put_def set_item_def lookup_item_def
        PoolInThreads_new_def Mutex_init_def numeral_2_eq_2)
  moreover have "page_round default_stack_size = default_stack_size"
    by (simp add: page_round_def default_stack_size_def)
  ultimately show ?thesis
    using create more
    by (auto simp: createCommonMcoStack_def get_mgr_def comp_defs new_block_apply McoStack_new_def)
qed

definition demo_env_nostack :: env where
  "demo_env_nostack = demo_env\<lparr>heap_new := (\<lambda>k. if k = 1 then None else Some 4096)\<rparr>"

theorem unready_manager_still_serves_witness:
  "\<exists>st. fst (createCommonMcoStack demo_env_nostack (Some 7)
      (snd (GetMcoStackMgr demo_env_nostack 7 (world_init (\<lambda>_. 0) (\<lambda>_ _. 0))))) = Inr st \<and>
    stack st = 0"
proof -
  let ?w = "world_init (\<lambda>_. 0) (\<lambda>_ _. 0)"
  let ?g = "GetMcoStackMgr demo_env_nostack 7 ?w"
  let ?c = "createCommonMcoStack demo_env_nostack (Some 7) (snd ?g)"
  have "stackmgrs ?w = None" "heap_new demo_env_nostack (news ?w) = Some 4096"
    "heap_new demo_env_nostack (news ?w + 1) = None"
    "heap_new demo_env_nostack (news ?w + 2) = Some 4096"
    by (simp_all add: world_init_def demo_env_nostack_def)
  from unready_manager_still_serves [OF this, of 7 "fst ?g" "snd ?g" "fst ?c" "snd ?c"]
  show ?thesis by auto
qed

end
