(* ===== verification/McoCallStack.thy ===== *)
theory McoCallStack
  imports McoStack
begin

text \<open>
  mco/McoCallStack.h and McoCallStack.cpp: the per-thread stack of running coroutines, a
  \<open>std::map\<close> from positions to coroutines and the index of the next free position. The index
  is handed out by reference, so the two can disagree; the map's accessors assert that they
  do not.
\<close>

definition callstacks_put :: "McoCallStack PoolInThreads option \<Rightarrow> world \<Rightarrow> world" where
  "callstacks_put p w = w\<lparr>callstacks := p\<rparr>"

definition McoCallStack_make :: "env \<Rightarrow> (world, McoCallStack) comp" where
  "McoCallStack_make env = seq (new_block env) (ret McoCallStack_new)"

definition GetMcoCallStack :: "env \<Rightarrow> int \<Rightarrow> (world, McoCallStack) comp" where
  "GetMcoCallStack env tid = Item callstacks callstacks_put (McoCallStack_make env) tid"

abbreviation cs_of :: "world \<Rightarrow> int \<rightharpoonup> McoCallStack" where
  "cs_of w \<equiv> lookup_item callstacks w"

definition put_cs :: "int \<Rightarrow> McoCallStack \<Rightarrow> world \<Rightarrow> world" where
  "put_cs tid cs w = set_item callstacks callstacks_put tid cs w"

text \<open>The thread's call stack through the pointer \<open>GetMcoCallStack\<close> returned.\<close>

definition read_cs :: "int \<Rightarrow> (world, McoCallStack) comp" where
  "read_cs tid = deref DanglingPtr (\<lambda>w. cs_of w tid)"

definition getCurrIndex :: "int \<Rightarrow> (world, nat) comp" where
  "getCurrIndex tid = bnd (read_cs tid) (\<lambda>cs. ret (cs_index cs))"

definition setCurrIndex :: "int \<Rightarrow> nat \<Rightarrow> (world, unit) comp" where
  "setCurrIndex tid n = bnd (read_cs tid) (\<lambda>cs. modify (put_cs tid (cs\<lparr>cs_index := n\<rparr>)))"

text \<open>\<open>assert(callStack_.size() == index_)\<close>\<close>

definition assert_size :: "env \<Rightarrow> int \<Rightarrow> (world, unit) comp" where
  "assert_size env tid =
    cassert (dbg env) (bnd (read_cs tid) (\<lambda>cs. ret (length (callStack cs) = cs_index cs)))"

text \<open>
  \<open>std::map::operator[]\<close> inserts a null pointer at a missing key. \<open>cs_at\<close> is \<open>operator[]\<close> read,
  \<open>cs_store\<close> is \<open>operator[]\<close> assigned to.
\<close>

definition map_at :: "int \<Rightarrow> nat \<Rightarrow> (world, addr) comp" where
  "map_at tid i = bnd (read_cs tid) (\<lambda>cs. case map_of (callStack cs) i of
     Some r \<Rightarrow> ret r
   | None \<Rightarrow> seq (modify (put_cs tid (cs\<lparr>callStack := AList.update i 0 (callStack cs)\<rparr>))) (ret 0))"

definition cs_at :: "env \<Rightarrow> int \<Rightarrow> nat \<Rightarrow> (world, addr) comp" where
  "cs_at env tid i = seq (assert_size env tid) (map_at tid i)"

definition cs_store :: "env \<Rightarrow> int \<Rightarrow> nat \<Rightarrow> addr \<Rightarrow> (world, unit) comp" where
  "cs_store env tid i r =
    seq (cs_at env tid i)
      (bnd (read_cs tid) (\<lambda>cs.
        modify (put_cs tid (cs\<lparr>callStack := AList.update i r (callStack cs)\<rparr>))))"

definition getCurMco :: "env \<Rightarrow> int \<Rightarrow> (world, addr) comp" where
  "getCurMco env tid =
    seq (assert_size env tid)
      (bnd (read_cs tid) (\<lambda>cs.
        if 0 < length (callStack cs) then map_at tid (sz_sub (cs_index cs) 1) else ret 0))"

definition cs_empty :: "env \<Rightarrow> int \<Rightarrow> (world, bool) comp" where
  "cs_empty env tid =
    seq (assert_size env tid) (bnd (read_cs tid) (\<lambda>cs. ret (length (callStack cs) = 0)))"

subsection \<open>Which states the operations return in\<close>

interpretation css: pool_field callstacks callstacks_put "McoCallStack_make env" for env
proof unfold_locales
  fix w r w'
  assume "McoCallStack_make env w = (r, w')"
  then show "callstacks w' = callstacks w"
    by (auto simp: McoCallStack_make_def new_block_apply comp_defs
        split: option.splits sum.splits prod.splits)
qed (simp_all add: callstacks_put_def)

lemma GetMcoCallStack_hit [simp]:
  "pool_free callstacks w \<Longrightarrow> cs_of w tid = Some cs \<Longrightarrow> GetMcoCallStack env tid w = (Inr cs, w)"
  by (simp add: GetMcoCallStack_def css.item_hit)

lemma cs_of_frame [simp]:
  "cs_of (put_co r c w) tid = cs_of w tid"
  "cs_of (w\<lparr>news := n\<rparr>) tid = cs_of w tid"
  "cs_of (w\<lparr>mem := m\<rparr>) tid = cs_of w tid"
  "cs_of (w\<lparr>cpus := p\<rparr>) tid = cs_of w tid"
  "cs_of (put_mgr t mg w) tid = cs_of w tid"
  by (simp_all add: lookup_item_def put_co_def put_mgr_def set_item_def stackmgrs_put_def)

lemma cs_free_frame [simp]:
  "pool_free callstacks (put_co r c w) = pool_free callstacks w"
  "pool_free callstacks (w\<lparr>news := n\<rparr>) = pool_free callstacks w"
  "pool_free callstacks (w\<lparr>mem := m\<rparr>) = pool_free callstacks w"
  "pool_free callstacks (w\<lparr>cpus := p\<rparr>) = pool_free callstacks w"
  "pool_free callstacks (put_mgr t mg w) = pool_free callstacks w"
  by (simp_all add: pool_free_def inst_mutex_def inst_def put_co_def put_mgr_def set_item_def
      stackmgrs_put_def)

lemma put_cs_frame [simp]:
  "cos (put_cs tid cs w) = cos w" "stackmgrs (put_cs tid cs w) = stackmgrs w"
  "mem (put_cs tid cs w) = mem w" "news (put_cs tid cs w) = news w"
  "cpus (put_cs tid cs w) = cpus w"
  "mgr_of (put_cs tid cs w) t = mgr_of w t"
  "pool_free stackmgrs (put_cs tid cs w) = pool_free stackmgrs w"
  by (simp_all add: put_cs_def set_item_def callstacks_put_def lookup_item_def pool_free_def
      inst_mutex_def inst_def)

lemma put_cs_cs_of [simp]:
  "cs_of (put_cs tid cs w) = (cs_of w)(tid \<mapsto> cs)"
  "pool_free callstacks (put_cs tid cs w) = pool_free callstacks w"
  by (auto simp: put_cs_def set_item_def callstacks_put_def lookup_item_def pool_free_def
      inst_mutex_def inst_def PoolInThreads_new_def fun_eq_iff split: option.splits)

lemma put_co_put_cs [simp]: "put_co r c (put_cs tid cs w) = put_cs tid cs (put_co r c w)"
  by (simp add: put_cs_def set_item_def callstacks_put_def put_co_def inst_def)

lemma put_cs_put_cs [simp]: "put_cs tid cs (put_cs tid cs' w) = put_cs tid cs w"
  by (auto simp: put_cs_def set_item_def callstacks_put_def inst_def)

lemma read_cs_apply [simp]: "cs_of w tid = Some cs \<Longrightarrow> read_cs tid w = (Inr cs, w)"
  by (simp add: read_cs_def)

lemma assert_size_ndebug [simp]: "\<not> dbg env \<Longrightarrow> assert_size env tid w = (Inr (), w)"
  by (simp add: assert_size_def)

lemma assert_size_debug:
  "dbg env \<Longrightarrow> cs_of w tid = Some cs \<Longrightarrow> assert_size env tid w =
    (if length (callStack cs) = cs_index cs then (Inr (), w) else (Inl AssertFail, w))"
  by (simp add: assert_size_def comp_defs)

lemma cs_at_present:
  "\<not> dbg env \<Longrightarrow> cs_of w tid = Some cs \<Longrightarrow> map_of (callStack cs) i = Some r \<Longrightarrow>
   cs_at env tid i w = (Inr r, w)"
  by (simp add: cs_at_def map_at_def comp_defs)

lemma cs_store_apply:
  "\<not> dbg env \<Longrightarrow> cs_of w tid = Some cs \<Longrightarrow>
   cs_store env tid i r w =
     (Inr (), put_cs tid (cs\<lparr>callStack := AList.update i r (AList.update i
        (case map_of (callStack cs) i of None \<Rightarrow> 0 | Some r' \<Rightarrow> r') (callStack cs))\<rparr>) w)"
  by (cases "map_of (callStack cs) i")
    (simp_all add: cs_store_def cs_at_def map_at_def comp_defs AList.update_triv)

text \<open>The coroutines in the call stack, from the bottom.\<close>

definition active :: "McoCallStack \<Rightarrow> addr list" where
  "active cs = map (\<lambda>i. the (map_of (callStack cs) i)) [0..<cs_index cs]"

definition cs_filled :: "McoCallStack \<Rightarrow> bool" where
  "cs_filled cs \<longleftrightarrow> (\<forall>i < cs_index cs. map_of (callStack cs) i \<noteq> None)"

lemma length_active [simp]: "length (active cs) = cs_index cs"
  by (simp add: active_def)

lemma cs_at_active:
  "\<not> dbg env \<Longrightarrow> cs_of w tid = Some cs \<Longrightarrow> cs_filled cs \<Longrightarrow> i < cs_index cs \<Longrightarrow>
   cs_at env tid i w = (Inr (active cs ! i), w)"
  by (auto simp: cs_at_present active_def cs_filled_def)

lemma getCurMco_active:
  assumes "\<not> dbg env" "cs_of w tid = Some cs" "cs_filled cs" "0 < cs_index cs"
  shows "getCurMco env tid w = (Inr (last (active cs)), w)"
proof -
  have p: "map_of (callStack cs) (cs_index cs - 1) \<noteq> None"
    using assms(3,4) by (simp add: cs_filled_def)
  then have "callStack cs \<noteq> []" by auto
  moreover have "last (active cs) = active cs ! (cs_index cs - 1)"
    using assms(4) by (subst last_conv_nth) (auto simp: active_def)
  ultimately show ?thesis
    using assms p by (auto simp: getCurMco_def map_at_def comp_defs active_def)
qed

lemma active_push:
  assumes "cs_filled cs"
    and "map_of al = (map_of (callStack cs))(cs_index cs \<mapsto> r)"
  shows "active (cs\<lparr>callStack := al, cs_index := cs_index cs + 1\<rparr>) = active cs @ [r]"
    and "cs_filled (cs\<lparr>callStack := al, cs_index := cs_index cs + 1\<rparr>)"
  using assms by (auto simp: active_def cs_filled_def less_Suc_eq)

lemma active_pop:
  "active (cs\<lparr>cs_index := cs_index cs - 1\<rparr>) = butlast (active cs)"
  "cs_filled cs \<Longrightarrow> cs_filled (cs\<lparr>cs_index := cs_index cs - 1\<rparr>)"
  by (cases "cs_index cs") (auto simp: active_def cs_filled_def)

end
