(* ===== verification/McoRoutine.thy ===== *)
theory McoRoutine
  imports McoCallStack
begin

text \<open>
  mco/McoRoutine.cpp: creation, the start-up of a coroutine, the context switch with the saving
  of the common stack around it, resume, yield and free. \<open>tid\<close> is the calling thread; \<open>sp\<close> is
  the address of the local \<open>c\<close> of \<open>McoSwap\<close>, which the code takes as the stack pointer.

  A switch is modelled up to the point where the resumed side has left \<open>McoSwap\<close>: a started
  coroutine continues behind its own \<open>mcontext_swap\<close> call (\<open>McoSwap_in\<close>), a fresh one at
  \<open>CoroutineRun\<close>; which of the two is read off the instruction pointer after the switch.
\<close>

text \<open>The code of \<open>CoEmpty\<close> among the callbacks.\<close>

definition CoEmpty :: CoCallback where
  "CoEmpty = Some 0"

definition InitMcoContext :: "env \<Rightarrow> addr \<Rightarrow> (world, bool) comp" where
  "InitMcoContext env co =
    bnd (get_co co) (\<lambda>c. case coctx c of
      None \<Rightarrow> raise NullDeref
    | Some x \<Rightarrow>
        seq (new_block env)
        (seq (upd_co co (put_ctx (McontextInit \<lparr>regs = \<lambda>_. 0, ss_size = 0, ss_sp = 0\<rparr>)))
        (bnd (if \<not> use_private c then createCommonMcoStack env (stackMgr c)
              else createPrivateMcoStack env (stackMgr c)) (\<lambda>st.
        seq (upd_co co (\<lambda>c. c\<lparr>costack := Some st\<rparr>))
        (bnd (get_ctx co) (\<lambda>m.
        seq (upd_co co (put_ctx (m\<lparr>ss_sp := stack st, ss_size := ssize st\<rparr>)))
        (ret True)))))))"

definition McoCreate :: "env \<Rightarrow> CoCallback \<Rightarrow> bool \<Rightarrow> (world, addr) comp" where
  "McoCreate env run private =
    bnd (new_block env) (\<lambda>mco.
    seq (modify (put_co mco McoRoutine_new))
    (seq (new_block env)
    (seq (upd_co mco (\<lambda>c. c\<lparr>coctx := Some \<lparr>ctx = CtxIndet, corun = run\<rparr>\<rparr>))
    (seq (upd_co mco (\<lambda>c. c\<lparr>use_private := private\<rparr>))
    (seq (upd_co mco (\<lambda>c. c\<lparr>sink := 0\<rparr>))
    (seq (upd_co mco (\<lambda>c. c\<lparr>is_main := False\<rparr>))
    (ret mco)))))))"

text \<open>\<open>mcontext_swap(sink->coctx->ctx, co->coctx->ctx)\<close>: saves first, then loads.\<close>

definition switch_to :: "env \<Rightarrow> int \<Rightarrow> addr \<Rightarrow> addr \<Rightarrow> (world, unit) comp" where
  "switch_to env tid snk co =
    bnd (get_ctx snk) (\<lambda>cur.
    bnd (gets (\<lambda>w. (cpus w tid)(RET := swap_ret env))) (\<lambda>cpu.
    seq (upd_co snk (put_ctx (fst (mcontext_swap cpu cur cur))))
    (bnd (get_ctx co) (\<lambda>target.
    modify (\<lambda>w. w\<lparr>cpus := (cpus w)(tid := snd (mcontext_swap cpu cur target))\<rparr>)))))"

text \<open>
  \<open>SwapMcoContext\<close>, which nothing calls: the contexts of two coroutines, or null pointers
  (address 0). An indeterminate \<open>ctx\<close> is read.
\<close>

definition SwapMcoContext :: "env \<Rightarrow> int \<Rightarrow> addr \<Rightarrow> addr \<Rightarrow> (world, unit) comp" where
  "SwapMcoContext env tid cur co =
    (if cur = 0 \<or> co = 0 then ret ()
     else bnd (get_co cur) (\<lambda>a. bnd (get_co co) (\<lambda>b.
       case (coctx a, coctx b) of
         (Some x, Some y) \<Rightarrow>
           (if ctx x = CtxNull \<or> ctx y = CtxNull then ret () else switch_to env tid cur co)
       | _ \<Rightarrow> ret ())))"

definition McoSwap_out :: "env \<Rightarrow> int \<Rightarrow> addr \<Rightarrow> addr \<Rightarrow> addr \<Rightarrow> (world, unit) comp" where
  "McoSwap_out env tid sp snk co =
    seq (upd_stack snk (\<lambda>st. st\<lparr>stack_sp := sp\<rparr>))
    (bnd (get_stack co) (\<lambda>st.
      if \<not> is_private st then
        bnd (GetCommonOccupy env tid) (\<lambda>occupy.
        seq (SetCommonOccupy env tid co)
        (if occupy \<noteq> 0 \<and> occupy \<noteq> co then
           bnd (get_co occupy) (\<lambda>oc.
           if \<not> (codone oc \<and> done_yield oc) then
             seq (upd_co occupy (\<lambda>c. c\<lparr>stack_store := True\<rparr>))
             (seq (get_stack occupy) (StoreUsedCommonStack env occupy))
           else ret ())
         else ret ()))
      else ret ()))"

definition McoSwap_in :: "env \<Rightarrow> int \<Rightarrow> (world, unit) comp" where
  "McoSwap_in env tid =
    seq (GetMcoCallStack env tid)
    (bnd (getCurMco env tid) (\<lambda>cur.
      if cur = 0 then ret ()
      else
        bnd (get_stack cur) (\<lambda>st.
        if is_private st then ret ()
        else bnd (get_co cur) (\<lambda>c.
          if stack_store c then
            seq (upd_co cur (\<lambda>c. c\<lparr>stack_store := False\<rparr>)) (RecoverUsedCommonStack cur)
          else ret ()))))"

definition McoSwap :: "env \<Rightarrow> int \<Rightarrow> addr \<Rightarrow> addr \<Rightarrow> addr \<Rightarrow> (world, unit) comp" where
  "McoSwap env tid sp snk co =
    seq (McoSwap_out env tid sp snk co)
    (seq (switch_to env tid snk co)
    (bnd (gets (\<lambda>w. cpus w tid RET)) (\<lambda>pc.
      if pc = run_entry env then ret ()
      else if pc = swap_ret env then McoSwap_in env tid
      else raise WildJump)))"

definition MainMco :: "env \<Rightarrow> int \<Rightarrow> (world, addr) comp" where
  "MainMco env tid =
    bnd (GetMcoCallStack env tid) (\<lambda>cs.
      if cs_index cs = 0 then
        bnd (McoCreate env CoEmpty True) (\<lambda>snk.
        bnd (InitMcoContext env snk) (\<lambda>ok.
          if \<not> ok then ret 0
          else
            bnd (get_ctx snk) (\<lambda>m.
            seq (upd_co snk (put_ctx (McontextMake m (run_entry env) snk)))
            (bnd (getCurrIndex tid) (\<lambda>index.
            seq (setCurrIndex tid (sz_inc index))
            (seq (cs_store env tid index snk)
            (seq (upd_co snk (\<lambda>c. c\<lparr>is_main := True, start := True, running := True,
                in_callstack := True\<rparr>))
            (cs_at env tid 0))))))))
      else cs_at env tid 0)"

definition McoYield :: "env \<Rightarrow> int \<Rightarrow> addr \<Rightarrow> addr \<Rightarrow> (world, unit) comp" where
  "McoYield env tid sp co =
    (if co = 0 then ret ()
     else bnd (get_co co) (\<lambda>c.
       if \<not> running c \<or> codone c \<and> done_yield c then ret ()
       else
         seq (if codone c then upd_co co (\<lambda>c. c\<lparr>done_yield := True, start := False\<rparr>) else ret ())
         (seq (GetMcoCallStack env tid)
         (bnd (getCurrIndex tid) (\<lambda>index.
         seq (cassert (dbg env)
           (bnd (cs_at env tid (sz_sub index 2)) (\<lambda>r. ret (sink c = r))))
         (seq (setCurrIndex tid (sz_sub index 1))
         (seq (upd_co co (\<lambda>c. c\<lparr>running := False, in_callstack := True\<rparr>))
         (seq (upd_co (sink c) (\<lambda>c. c\<lparr>running := True\<rparr>))
         (McoSwap env tid sp co (sink c))))))))))"

text \<open>The start of a coroutine in \<open>McoResume\<close>, up to the early return if it fails.\<close>

definition start_co :: "env \<Rightarrow> addr \<Rightarrow> (world, bool) comp" where
  "start_co env co =
    bnd (get_co co) (\<lambda>c.
      if start c then ret True
      else bnd (InitMcoContext env co) (\<lambda>ok.
        if \<not> ok then ret False
        else
          seq (upd_co co (\<lambda>c. c\<lparr>start := True\<rparr>))
          (bnd (get_ctx co) (\<lambda>m.
          seq (upd_co co (put_ctx (McontextMake m (run_entry env) co)))
          (ret True)))))"

definition McoResume :: "env \<Rightarrow> int \<Rightarrow> addr \<Rightarrow> addr \<Rightarrow> (world, unit) comp" where
  "McoResume env tid sp co =
    (if co = 0 then ret ()
     else bnd (get_co co) (\<lambda>c.
       if running c \<or> codone c \<and> done_yield c then ret ()
       else
         bnd (GetMcoCallStack env tid) (\<lambda>cs.
         seq (if cs_index cs = 0 then seq (MainMco env tid) skip else skip)
         (bnd (getCurrIndex tid) (\<lambda>index.
         bnd (cs_at env tid (sz_sub index 1)) (\<lambda>cur_co.
         bnd (get_co cur_co) (\<lambda>cur.
           if sink cur \<noteq> co then
             bnd (start_co env co) (\<lambda>ok.
               if \<not> ok then ret ()
               else
                 seq (upd_co co (\<lambda>c. c\<lparr>running := True\<rparr>))
                 (seq (setCurrIndex tid (sz_inc index))
                 (seq (cs_store env tid index co)
                 (bnd (cs_at env tid (sz_sub (sz_inc index) 2)) (\<lambda>snk.
                 seq (upd_co co (\<lambda>c. c\<lparr>sink := snk\<rparr>))
                 (seq (upd_co snk (\<lambda>c. c\<lparr>running := False\<rparr>))
                 (seq (upd_co co (\<lambda>c. c\<lparr>in_callstack := True\<rparr>))
                 (seq (get_stack co)
                 (seq (get_stack snk)
                 (McoSwap env tid sp snk co))))))))))
           else McoYield env tid sp cur_co)))))))"

text \<open>
  \<open>CoroutineRun\<close>: the callback it calls (none if the function object is empty), and what it
  does when the callback has returned or thrown.
\<close>

definition CoroutineRun_call :: "addr \<Rightarrow> world \<Rightarrow> CoCallback" where
  "CoroutineRun_call co w =
    (if co = 0 then None
     else case cos w co of
       None \<Rightarrow> None
     | Some c \<Rightarrow> (case coctx c of None \<Rightarrow> None | Some x \<Rightarrow> corun x))"

definition CoroutineRun_end :: "env \<Rightarrow> int \<Rightarrow> addr \<Rightarrow> addr \<Rightarrow> (world, unit) comp" where
  "CoroutineRun_end env tid sp co =
    seq (upd_co co (\<lambda>c. c\<lparr>codone := True\<rparr>)) (McoYield env tid sp co)"

text \<open>
  \<open>delete co\<close> runs the destructors of \<open>McoRoutine\<close>, \<open>McoStack\<close> and \<open>McoContext\<close>; the last one
  deletes \<open>ctx\<close>, which is indeterminate if the coroutine was never started.
\<close>

definition delete_co :: "addr \<Rightarrow> (world, unit) comp" where
  "delete_co co =
    bnd (get_co co) (\<lambda>c.
      if (case coctx c of None \<Rightarrow> False | Some x \<Rightarrow> ctx x = CtxIndet) then raise DanglingPtr
      else modify (\<lambda>w. w\<lparr>cos := (cos w)(co := None)\<rparr>))"

definition McoFree :: "env \<Rightarrow> int \<Rightarrow> addr \<Rightarrow> (world, unit) comp" where
  "McoFree env tid co =
    (if co = 0 then ret ()
     else bnd (get_co co) (\<lambda>c.
       if running c then upd_co co (\<lambda>c. c\<lparr>should_close := True\<rparr>)
       else
         bnd (GetCommonOccupy env tid) (\<lambda>cop.
         seq (if cop = co then SetCommonOccupy env tid 0 else ret ())
         (seq (RecycleMcoStack (costack c))
         (seq (upd_co co (\<lambda>c. c\<lparr>codone := True, done_yield := True, running := False,
             start := False\<rparr>))
         (delete_co co))))))"

end
