(* ===== verification/Base_World.thy ===== *)
theory Base_World
  imports Epoll McoRoutine
begin

text \<open>
  The data of the event layer (base/EventLoop.h, EventLoopPool.h, McoPool.h, Continuation.h) and
  the world its operations run in: the kernel, the heap of \<open>Events\<close> objects (shared by pointer
  between an event loop, the hooks and user code, so they are named by object numbers), the
  event loops, the process-wide pool of loops, the per-thread pools of coroutines, and the
  world of the coroutine layer below. The owners of an \<open>Events\<close> object are counted, since its
  destructor closes the descriptor, and so are those of a \<open>Continuation\<close>, since its destructor
  frees the coroutine.
\<close>

record EventLoop =
  el_poll :: "Epoll option"
  pollDelta :: int
  el_events :: "int \<rightharpoonup> nat"
  el_mutex :: Mutex
  el_tid :: int
  el_quit :: bool
  wakeFd :: int
  wakeEvent :: nat

text \<open>A \<open>EventLoop*\<close> is the number of a loop, or \<open>None\<close> for \<open>nullptr\<close>.\<close>

record EventLoopPool =
  lp_mutex :: Mutex
  mainLoop :: "nat option"
  lp_loops :: "int \<rightharpoonup> nat"
  nextLoops :: "nat list"
  lp_next :: nat

text \<open>\<open>cur\<close> and the entries of \<open>fdMcos\<close> are \<open>shared_ptr<Continuation>\<close>: object numbers.\<close>

record McoPool =
  mp_cur :: "nat option"
  fdMcos :: "int \<rightharpoonup> nat"

record Continuation =
  cont_co :: addr

record 'k base =
  kern :: 'k
  evobjs :: "nat \<rightharpoonup> Events"
  evrefs :: "nat \<Rightarrow> nat"
  evnext :: nat
  loops :: "nat \<Rightarrow> EventLoop"
  loopnext :: nat
  loopCount :: int
  lpool :: EventLoopPool
  lpool_made :: bool
  mcopools :: "McoPool PoolInThreads option"
  conts :: "nat \<rightharpoonup> Continuation"
  contrefs :: "nat \<Rightarrow> nat"
  contnext :: nat
  hookable :: bool
  mcow :: world

subsection \<open>Parts of the world\<close>

definition on_kern :: "('k, 'a) comp \<Rightarrow> ('k base, 'a) comp" where
  "on_kern m w = (case m (kern w) of (r, k) \<Rightarrow> (r, w\<lparr>kern := k\<rparr>))"

definition on_mco :: "(world, 'a) comp \<Rightarrow> ('k base, 'a) comp" where
  "on_mco m w = (case m (mcow w) of (r, v) \<Rightarrow> (r, w\<lparr>mcow := v\<rparr>))"

definition get_ev :: "nat \<Rightarrow> ('k base, Events) comp" where
  "get_ev e = deref DanglingPtr (\<lambda>w. evobjs w e)"

definition put_ev :: "nat \<Rightarrow> Events \<Rightarrow> 'k base \<Rightarrow> 'k base" where
  "put_ev e x w = w\<lparr>evobjs := (evobjs w)(e \<mapsto> x)\<rparr>"

definition upd_ev :: "nat \<Rightarrow> (Events \<Rightarrow> Events) \<Rightarrow> ('k base, unit) comp" where
  "upd_ev e f = bnd (get_ev e) (\<lambda>x. modify (put_ev e (f x)))"

text \<open>
  \<open>new Events(fd, events)\<close> on thread \<open>tid\<close>, held by one \<open>shared_ptr\<close>; copying a \<open>shared_ptr\<close>; and the
  end of one, which destroys the object if it was the last: \<open>~Events\<close> makes the system's \<open>close\<close>.
\<close>

definition new_ev :: "int \<Rightarrow> int \<Rightarrow> emask \<Rightarrow> ('k base, nat) comp" where
  "new_ev tid fd events =
    bnd (gets evnext) (\<lambda>e.
      seq (modify (\<lambda>w. put_ev e (Events_new tid fd events) (w\<lparr>evnext := Suc e, evrefs := (evrefs w)(e := 1)\<rparr>))) (ret e))"

definition ev_share :: "nat \<Rightarrow> 'k base \<Rightarrow> 'k base" where
  "ev_share e w = w\<lparr>evrefs := (evrefs w)(e := Suc (evrefs w e))\<rparr>"

definition ev_drop :: "'k sys \<Rightarrow> nat \<Rightarrow> ('k base, unit) comp" where
  "ev_drop S e = bnd (gets (\<lambda>w. evrefs w e)) (\<lambda>n.
     if 1 < n then modify (\<lambda>w. w\<lparr>evrefs := (evrefs w)(e := n - 1)\<rparr>)
     else bnd (get_ev e) (\<lambda>x. seq (on_kern (syscall (sys_close S (ev_fd x))))
       (modify (\<lambda>w. w\<lparr>evrefs := (evrefs w)(e := 0), evobjs := (evobjs w)(e := None)\<rparr>))))"

definition upd_loop :: "nat \<Rightarrow> (EventLoop \<Rightarrow> EventLoop) \<Rightarrow> 'k base \<Rightarrow> 'k base" where
  "upd_loop l f w = w\<lparr>loops := (loops w)(l := f (loops w l))\<rparr>"

lemma on_kern_apply [simp]:
  "on_kern m w = (fst (m (kern w)), w\<lparr>kern := snd (m (kern w))\<rparr>)"
  by (simp add: on_kern_def split: prod.splits)

lemma on_mco_apply [simp]:
  "on_mco m w = (fst (m (mcow w)), w\<lparr>mcow := snd (m (mcow w))\<rparr>)"
  by (simp add: on_mco_def split: prod.splits)

lemma get_ev_apply [simp]: "evobjs w e = Some x \<Longrightarrow> get_ev e w = (Inr x, w)"
  by (simp add: get_ev_def)

lemma upd_ev_apply [simp]: "evobjs w e = Some x \<Longrightarrow> upd_ev e f w = (Inr (), put_ev e (f x) w)"
  by (simp add: upd_ev_def comp_defs)

lemma put_ev_fields [simp]:
  "kern (put_ev e x w) = kern w" "evobjs (put_ev e x w) = (evobjs w)(e \<mapsto> x)"
  "evrefs (put_ev e x w) = evrefs w" "evnext (put_ev e x w) = evnext w" "loops (put_ev e x w) = loops w"
  "lpool (put_ev e x w) = lpool w" "lpool_made (put_ev e x w) = lpool_made w"
  "mcopools (put_ev e x w) = mcopools w" "conts (put_ev e x w) = conts w"
  "contrefs (put_ev e x w) = contrefs w" "hookable (put_ev e x w) = hookable w" "mcow (put_ev e x w) = mcow w"
  by (simp_all add: put_ev_def)

lemma upd_loop_fields [simp]:
  "kern (upd_loop l f w) = kern w" "evobjs (upd_loop l f w) = evobjs w"
  "evrefs (upd_loop l f w) = evrefs w" "evnext (upd_loop l f w) = evnext w" "loops (upd_loop l f w) = (loops w)(l := f (loops w l))"
  "lpool (upd_loop l f w) = lpool w" "lpool_made (upd_loop l f w) = lpool_made w"
  "mcopools (upd_loop l f w) = mcopools w" "conts (upd_loop l f w) = conts w"
  "contrefs (upd_loop l f w) = contrefs w" "hookable (upd_loop l f w) = hookable w" "mcow (upd_loop l f w) = mcow w"
  by (simp_all add: upd_loop_def)

subsection \<open>Locks\<close>

definition loop_mutex :: "nat \<Rightarrow> 'k base \<Rightarrow> Mutex" where
  "loop_mutex l w = el_mutex (loops w l)"

definition set_loop_mutex :: "nat \<Rightarrow> Mutex \<Rightarrow> 'k base \<Rightarrow> 'k base" where
  "set_loop_mutex l m = upd_loop l (\<lambda>x. x\<lparr>el_mutex := m\<rparr>)"

definition pool_lock :: "'k base \<Rightarrow> Mutex" where
  "pool_lock w = lp_mutex (lpool w)"

definition set_pool_lock :: "Mutex \<Rightarrow> 'k base \<Rightarrow> 'k base" where
  "set_pool_lock m w = w\<lparr>lpool := (lpool w)\<lparr>lp_mutex := m\<rparr>\<rparr>"

interpretation loop_lock: mutex_field "loop_mutex l" "set_loop_mutex l" for l
  by unfold_locales (simp_all add: loop_mutex_def set_loop_mutex_def upd_loop_def)

interpretation lpool_lock: mutex_field pool_lock set_pool_lock
  by unfold_locales (simp_all add: pool_lock_def set_pool_lock_def)

end
