(* ===== verification/McoPool.thy ===== *)
theory McoPool
  imports Base_World
begin

text \<open>
  base/McoPool.h and McoPool.cpp: per thread, which coroutine waits for which descriptor and
  which one is current; base/Continuation.h: the owner of a coroutine; base/Mcosops.h: resume
  and yield of the current coroutine. \<open>tid\<close> is the calling thread, \<open>sp\<close> its stack pointer.
\<close>

definition McoPool_new :: McoPool where
  "McoPool_new = \<lparr>mp_cur = None, fdMcos = Map.empty\<rparr>"

definition mcopools_put :: "McoPool PoolInThreads option \<Rightarrow> 'k base \<Rightarrow> 'k base" where
  "mcopools_put p w = w\<lparr>mcopools := p\<rparr>"

definition GetMcoPool :: "int \<Rightarrow> ('k base, McoPool) comp" where
  "GetMcoPool tid = Item mcopools mcopools_put (ret McoPool_new) tid"

abbreviation mcopool_of :: "'k base \<Rightarrow> int \<rightharpoonup> McoPool" where
  "mcopool_of w \<equiv> lookup_item mcopools w"

definition put_mcopool :: "int \<Rightarrow> McoPool \<Rightarrow> 'k base \<Rightarrow> 'k base" where
  "put_mcopool tid p w = set_item mcopools mcopools_put tid p w"

text \<open>
  A copy of a \<open>shared_ptr<Continuation>\<close>, and the end of one, which destroys the continuation if it
  was the last: \<open>~Continuation\<close> frees the coroutine, and if that deletes it, its function object
  goes with it and gives up the events it is bound to. \<open>tid\<close> is the thread this happens on.
\<close>

definition co_share :: "nat \<Rightarrow> 'k base \<Rightarrow> 'k base" where
  "co_share c w = w\<lparr>contrefs := (contrefs w)(c := Suc (contrefs w c))\<rparr>"

fun drop_events :: "'k sys \<Rightarrow> nat list \<Rightarrow> ('k base, unit) comp" where
  "drop_events S [] = ret ()"
| "drop_events S (e # es) = seq (ev_drop S e) (drop_events S es)"

definition closure_of :: "env \<Rightarrow> addr \<Rightarrow> 'k base \<Rightarrow> nat list" where
  "closure_of env co w = (case CoroutineRun_call co (mcow w) of None \<Rightarrow> [] | Some f \<Rightarrow> bound env f)"

definition get_cont :: "nat \<Rightarrow> ('k base, Continuation) comp" where
  "get_cont c = deref DanglingPtr (\<lambda>w. conts w c)"

definition Continuation_delete :: "env \<Rightarrow> 'k sys \<Rightarrow> int \<Rightarrow> nat \<Rightarrow> ('k base, unit) comp" where
  "Continuation_delete env S tid c = bnd (get_cont c) (\<lambda>x.
     bnd (gets (closure_of env (cont_co x))) (\<lambda>es.
     seq (on_mco (McoFree env tid (cont_co x)))
     (bnd (gets (\<lambda>w. cos (mcow w) (cont_co x) = None)) (\<lambda>gone.
     seq (if gone then drop_events S es else ret ())
       (modify (\<lambda>w. w\<lparr>conts := (conts w)(c := None)\<rparr>))))))"

definition cont_drop :: "env \<Rightarrow> 'k sys \<Rightarrow> int \<Rightarrow> nat \<Rightarrow> ('k base, unit) comp" where
  "cont_drop env S tid c = bnd (gets (\<lambda>w. contrefs w c)) (\<lambda>n.
     seq (modify (\<lambda>w. w\<lparr>contrefs := (contrefs w)(c := n - 1)\<rparr>))
       (if 1 < n then ret () else Continuation_delete env S tid c))"

text \<open>The same for a pointer that may be null.\<close>

definition own :: "nat option \<Rightarrow> 'k base \<Rightarrow> 'k base" where
  "own m w = (case m of None \<Rightarrow> w | Some c \<Rightarrow> co_share c w)"

definition mco_drop :: "env \<Rightarrow> 'k sys \<Rightarrow> int \<Rightarrow> nat option \<Rightarrow> ('k base, unit) comp" where
  "mco_drop env S tid m = (case m of None \<Rightarrow> ret () | Some c \<Rightarrow> cont_drop env S tid c)"

text \<open>
  The operations of the pools. A pointer they return is a copy, which the caller drops at the end of
  its scope; an entry or the current coroutine shares the object and drops the one it replaces.
\<close>

definition GetMcoRoutine :: "int \<Rightarrow> int \<Rightarrow> ('k base, nat option) comp" where
  "GetMcoRoutine tid fd = bnd (GetMcoPool tid) (\<lambda>p.
     seq (modify (own (fdMcos p fd))) (ret (fdMcos p fd)))"

definition RemoveMcoRoutine :: "env \<Rightarrow> 'k sys \<Rightarrow> int \<Rightarrow> int \<Rightarrow> ('k base, bool) comp" where
  "RemoveMcoRoutine env S tid fd = bnd (GetMcoPool tid) (\<lambda>p.
     seq (modify (put_mcopool tid (p\<lparr>fdMcos := (fdMcos p)(fd := None)\<rparr>)))
       (seq (mco_drop env S tid (fdMcos p fd)) (ret (fdMcos p fd \<noteq> None))))"

text \<open>The pool of thread \<open>t\<close>, set by thread \<open>tid\<close>.\<close>

definition SetMcoRoutine :: "env \<Rightarrow> 'k sys \<Rightarrow> int \<Rightarrow> int \<Rightarrow> int \<Rightarrow> nat \<Rightarrow> ('k base, unit) comp" where
  "SetMcoRoutine env S tid t fd co = bnd (GetMcoPool t) (\<lambda>p.
     seq (modify (\<lambda>w. co_share co (put_mcopool t (p\<lparr>fdMcos := (fdMcos p)(fd \<mapsto> co)\<rparr>) w)))
       (mco_drop env S tid (fdMcos p fd)))"

definition GetCurMco :: "int \<Rightarrow> ('k base, nat option) comp" where
  "GetCurMco tid = bnd (GetMcoPool tid) (\<lambda>p. seq (modify (own (mp_cur p))) (ret (mp_cur p)))"

definition SetCurMco :: "env \<Rightarrow> 'k sys \<Rightarrow> int \<Rightarrow> nat option \<Rightarrow> ('k base, unit) comp" where
  "SetCurMco env S tid mco = bnd (GetMcoPool tid) (\<lambda>p.
     seq (modify (\<lambda>w. own mco (put_mcopool tid (p\<lparr>mp_cur := mco\<rparr>) w)))
       (mco_drop env S tid (mp_cur p)))"

subsection \<open>Continuations\<close>

definition new_cont :: "addr \<Rightarrow> ('k base, nat) comp" where
  "new_cont co = bnd (gets contnext) (\<lambda>c.
     seq (modify (\<lambda>w. w\<lparr>conts := (conts w)(c \<mapsto> \<lparr>cont_co = co\<rparr>), contrefs := (contrefs w)(c := 1),
       contnext := Suc c\<rparr>)) (ret c))"

definition Continuation_call :: "env \<Rightarrow> CoCallback \<Rightarrow> ('k base, nat) comp" where
  "Continuation_call env call = bnd (on_mco (McoCreate env call False)) new_cont"

definition Continuation_resume :: "env \<Rightarrow> int \<Rightarrow> addr \<Rightarrow> nat \<Rightarrow> ('k base, unit) comp" where
  "Continuation_resume env tid sp c = bnd (get_cont c) (\<lambda>x. on_mco (McoResume env tid sp (cont_co x)))"

definition Continuation_yield :: "env \<Rightarrow> int \<Rightarrow> addr \<Rightarrow> nat \<Rightarrow> ('k base, unit) comp" where
  "Continuation_yield env tid sp c = bnd (get_cont c) (\<lambda>x. on_mco (McoYield env tid sp (cont_co x)))"

subsection \<open>Resume and yield\<close>

text \<open>
  The switch itself, \<open>mco->resume()\<close> or \<open>mco->yield()\<close> up to its return, is a parameter: other code
  runs before it returns. Up to the switch of the machine it is \<open>Continuation_resume\<close> or
  \<open>Continuation_yield\<close>, which the theorems about both layers put in. \<open>Resume\<close> owns its parameter,
  \<open>Yield\<close> its local, until the switch has returned.
\<close>

definition resume_begin :: "env \<Rightarrow> 'k sys \<Rightarrow> int \<Rightarrow> nat \<Rightarrow> ('k base, unit) comp" where
  "resume_begin env S tid mco = seq (modify (co_share mco)) (SetCurMco env S tid (Some mco))"

definition Mcosops_Resume ::
  "env \<Rightarrow> 'k sys \<Rightarrow> (nat \<Rightarrow> ('k base, unit) comp) \<Rightarrow> int \<Rightarrow> nat \<Rightarrow> ('k base, unit) comp" where
  "Mcosops_Resume env S switch tid mco =
    seq (resume_begin env S tid mco) (seq (switch mco) (cont_drop env S tid mco))"

definition Mcosops_Yield ::
  "env \<Rightarrow> 'k sys \<Rightarrow> (nat \<Rightarrow> ('k base, unit) comp) \<Rightarrow> int \<Rightarrow> ('k base, unit) comp" where
  "Mcosops_Yield env S switch tid = bnd (GetCurMco tid) (\<lambda>mco. case mco of
     None \<Rightarrow> ret () | Some c \<Rightarrow> seq (switch c) (cont_drop env S tid c))"

subsection \<open>The pool as a map\<close>

interpretation mcops: pool_field mcopools mcopools_put "ret McoPool_new"
  by unfold_locales (simp_all add: mcopools_put_def)

lemma put_mcopool_of [simp]:
  "mcopool_of (put_mcopool tid p w) = (mcopool_of w)(tid \<mapsto> p)"
  "pool_free mcopools (put_mcopool tid p w) = pool_free mcopools w"
  by (auto simp: put_mcopool_def set_item_def mcopools_put_def lookup_item_def pool_free_def
      inst_mutex_def inst_def PoolInThreads_new_def fun_eq_iff split: option.splits)

text \<open>The thread's pool, or the one its first use will create.\<close>

definition pool_at :: "'k base \<Rightarrow> int \<Rightarrow> McoPool" where
  "pool_at w tid = (case mcopool_of w tid of None \<Rightarrow> McoPool_new | Some p \<Rightarrow> p)"

text \<open>
  \<open>GetMcoPool\<close> gives that pool and changes nothing else than possibly creating it.
\<close>

definition only_pools :: "'k base \<Rightarrow> 'k base \<Rightarrow> bool" where
  "only_pools w w' \<longleftrightarrow> (\<exists>q. w' = w\<lparr>mcopools := q\<rparr>)"

lemma only_pools_trans: "only_pools a b \<Longrightarrow> only_pools b c \<Longrightarrow> only_pools a c"
  by (auto simp: only_pools_def)

lemma put_mcopool_only: "only_pools w (put_mcopool tid p w)"
  by (auto simp: only_pools_def put_mcopool_def set_item_def mcopools_put_def)

lemma GetMcoPool_run:
  assumes "pool_free mcopools w"
  shows "\<exists>w'. GetMcoPool tid w = (Inr (pool_at w tid), w') \<and> pool_free mcopools w' \<and>
    mcopool_of w' = (mcopool_of w)(tid \<mapsto> pool_at w tid) \<and> only_pools w w'"
proof (cases "mcopool_of w tid")
  case (Some p)
  then show ?thesis
    using assms mcops.item_hit [OF assms Some]
    by (auto simp: GetMcoPool_def pool_at_def only_pools_def intro!: exI [of _ w] exI [of _ "mcopools w"])
next
  case None
  obtain w' where w': "Item mcopools mcopools_put (ret McoPool_new) tid w = (Inr McoPool_new, w')"
    "pool_free mcopools w'" "mcopool_of w' = (mcopool_of w)(tid \<mapsto> McoPool_new)"
    using mcops.item_miss [OF assms None, of McoPool_new "\<lambda>w. w"] by auto
  have "only_pools w w'"
    using w'(1) by (auto simp: only_pools_def Item_def Instance_def getT_def MutexLocker_def
        Mutex_lock_def Mutex_unlock_def comp_defs set_inst_mutex_def set_item_def mcopools_put_def
        split: if_splits option.splits)
  then show ?thesis
    using w' None by (auto simp: GetMcoPool_def pool_at_def)
qed

lemma pool_at_cong:
  "mcopools v = mcopools w \<Longrightarrow> pool_at v t = pool_at w t"
  "mcopools v = mcopools w \<Longrightarrow> pool_free mcopools v = pool_free mcopools w"
  by (simp_all add: pool_at_def lookup_item_def pool_free_def inst_mutex_def inst_def)

text \<open>The readers and writers of the pools, as functions on the pools alone.\<close>

lemma GetMcoPool_at:
  assumes "pool_free mcopools w"
  obtains q where "GetMcoPool tid w = (Inr (pool_at w tid), w\<lparr>mcopools := q\<rparr>)"
    "pool_free mcopools (w\<lparr>mcopools := q\<rparr>)" "pool_at (w\<lparr>mcopools := q\<rparr>) = pool_at w"
    "mcopool_of (w\<lparr>mcopools := q\<rparr>) = (mcopool_of w)(tid \<mapsto> pool_at w tid)"
proof -
  obtain w' where w': "GetMcoPool tid w = (Inr (pool_at w tid), w')" "pool_free mcopools w'"
    "mcopool_of w' = (mcopool_of w)(tid \<mapsto> pool_at w tid)" "only_pools w w'"
    using GetMcoPool_run [OF assms] by blast
  moreover have "pool_at w' = pool_at w"
    using w'(3) by (auto simp: pool_at_def fun_eq_iff)
  ultimately show ?thesis
    using that by (auto simp: only_pools_def)
qed

lemma GetCurMco_at:
  assumes "pool_free mcopools w"
  obtains q where "GetCurMco tid w = (Inr (mp_cur (pool_at w tid)), own (mp_cur (pool_at w tid)) (w\<lparr>mcopools := q\<rparr>))"
    "pool_free mcopools (w\<lparr>mcopools := q\<rparr>)" "pool_at (w\<lparr>mcopools := q\<rparr>) = pool_at w"
  by (rule GetMcoPool_at [OF assms, of tid]) (auto simp: GetCurMco_def comp_defs)

lemma GetMcoRoutine_at:
  assumes "pool_free mcopools w"
  obtains q where "GetMcoRoutine tid fd w = (Inr (fdMcos (pool_at w tid) fd),
      own (fdMcos (pool_at w tid) fd) (w\<lparr>mcopools := q\<rparr>))"
    "pool_free mcopools (w\<lparr>mcopools := q\<rparr>)" "pool_at (w\<lparr>mcopools := q\<rparr>) = pool_at w"
  by (rule GetMcoPool_at [OF assms, of tid]) (auto simp: GetMcoRoutine_def comp_defs)

lemma put_mcopool_at:
  assumes "pool_free mcopools w" "GetMcoPool tid w = (Inr (pool_at w tid), w\<lparr>mcopools := p\<rparr>)"
    "pool_free mcopools (w\<lparr>mcopools := p\<rparr>)" "pool_at (w\<lparr>mcopools := p\<rparr>) = pool_at w"
  shows "\<exists>q. put_mcopool tid x (w\<lparr>mcopools := p\<rparr>) = w\<lparr>mcopools := q\<rparr> \<and>
    pool_free mcopools (w\<lparr>mcopools := q\<rparr>) \<and> pool_at (w\<lparr>mcopools := q\<rparr>) = (pool_at w)(tid := x)"
proof -
  let ?v = "put_mcopool tid x (w\<lparr>mcopools := p\<rparr>)"
  have v: "pool_free mcopools ?v" "pool_at ?v = (pool_at w)(tid := x)"
    using assms(3,4) by (auto simp: pool_at_def fun_eq_iff)
  obtain q where "?v = w\<lparr>mcopools := q\<rparr>"
    using put_mcopool_only [of "w\<lparr>mcopools := p\<rparr>" tid x] by (auto simp: only_pools_def)
  then show ?thesis
    using v by auto
qed

text \<open>
  What remains of an operation that replaces a pointer, after the pools have changed, is the end of
  the old pointer.
\<close>

lemma pool_writers_at:
  assumes "pool_free mcopools w"
  shows "\<exists>q. SetMcoRoutine env S me tid fd c w = mco_drop env S me (fdMcos (pool_at w tid) fd) (co_share c (w\<lparr>mcopools := q\<rparr>)) \<and>
      pool_free mcopools (w\<lparr>mcopools := q\<rparr>) \<and> pool_at (w\<lparr>mcopools := q\<rparr>) =
        (pool_at w)(tid := (pool_at w tid)\<lparr>fdMcos := (fdMcos (pool_at w tid))(fd \<mapsto> c)\<rparr>)"
    and "\<exists>q. SetCurMco env S tid m w = mco_drop env S tid (mp_cur (pool_at w tid)) (own m (w\<lparr>mcopools := q\<rparr>)) \<and>
      pool_free mcopools (w\<lparr>mcopools := q\<rparr>) \<and> pool_at (w\<lparr>mcopools := q\<rparr>) =
        (pool_at w)(tid := (pool_at w tid)\<lparr>mp_cur := m\<rparr>)"
    and "\<exists>q. RemoveMcoRoutine env S tid fd w = seq (mco_drop env S tid (fdMcos (pool_at w tid) fd))
        (ret (fdMcos (pool_at w tid) fd \<noteq> None)) (w\<lparr>mcopools := q\<rparr>) \<and>
      pool_free mcopools (w\<lparr>mcopools := q\<rparr>) \<and> pool_at (w\<lparr>mcopools := q\<rparr>) =
        (pool_at w)(tid := (pool_at w tid)\<lparr>fdMcos := (fdMcos (pool_at w tid))(fd := None)\<rparr>)"
proof -
  obtain p where p: "GetMcoPool tid w = (Inr (pool_at w tid), w\<lparr>mcopools := p\<rparr>)"
    "pool_free mcopools (w\<lparr>mcopools := p\<rparr>)" "pool_at (w\<lparr>mcopools := p\<rparr>) = pool_at w"
    by (rule GetMcoPool_at [OF assms, of tid])
  note put = put_mcopool_at [OF assms p]
  show "\<exists>q. SetMcoRoutine env S me tid fd c w = mco_drop env S me (fdMcos (pool_at w tid) fd) (co_share c (w\<lparr>mcopools := q\<rparr>)) \<and>
      pool_free mcopools (w\<lparr>mcopools := q\<rparr>) \<and> pool_at (w\<lparr>mcopools := q\<rparr>) =
        (pool_at w)(tid := (pool_at w tid)\<lparr>fdMcos := (fdMcos (pool_at w tid))(fd \<mapsto> c)\<rparr>)"
    using put [of "(pool_at w tid)\<lparr>fdMcos := (fdMcos (pool_at w tid))(fd \<mapsto> c)\<rparr>"] p(1)
    by (auto simp: SetMcoRoutine_def comp_defs)
  show "\<exists>q. SetCurMco env S tid m w = mco_drop env S tid (mp_cur (pool_at w tid)) (own m (w\<lparr>mcopools := q\<rparr>)) \<and>
      pool_free mcopools (w\<lparr>mcopools := q\<rparr>) \<and> pool_at (w\<lparr>mcopools := q\<rparr>) =
        (pool_at w)(tid := (pool_at w tid)\<lparr>mp_cur := m\<rparr>)"
    using put [of "(pool_at w tid)\<lparr>mp_cur := m\<rparr>"] p(1) by (auto simp: SetCurMco_def comp_defs)
  show "\<exists>q. RemoveMcoRoutine env S tid fd w = seq (mco_drop env S tid (fdMcos (pool_at w tid) fd))
        (ret (fdMcos (pool_at w tid) fd \<noteq> None)) (w\<lparr>mcopools := q\<rparr>) \<and>
      pool_free mcopools (w\<lparr>mcopools := q\<rparr>) \<and> pool_at (w\<lparr>mcopools := q\<rparr>) =
        (pool_at w)(tid := (pool_at w tid)\<lparr>fdMcos := (fdMcos (pool_at w tid))(fd := None)\<rparr>)"
    using put [of "(pool_at w tid)\<lparr>fdMcos := (fdMcos (pool_at w tid))(fd := None)\<rparr>"] p(1)
    by (auto simp: RemoveMcoRoutine_def comp_defs)
qed

subsection \<open>Owners\<close>

lemma own_simps [simp]: "own None w = w" "own (Some c) w = co_share c w"
  by (simp_all add: own_def)

lemma mco_drop_simps [simp]: "mco_drop env S tid None = ret ()" "mco_drop env S tid (Some c) = cont_drop env S tid c"
  by (simp_all add: mco_drop_def)

lemma co_share_fields [simp]:
  "kern (co_share c w) = kern w" "evobjs (co_share c w) = evobjs w" "evrefs (co_share c w) = evrefs w"
  "evnext (co_share c w) = evnext w" "loops (co_share c w) = loops w" "lpool (co_share c w) = lpool w"
  "lpool_made (co_share c w) = lpool_made w" "mcopools (co_share c w) = mcopools w"
  "conts (co_share c w) = conts w" "contnext (co_share c w) = contnext w" "hookable (co_share c w) = hookable w"
  "mcow (co_share c w) = mcow w" "contrefs (co_share c w) = (contrefs w)(c := Suc (contrefs w c))"
  by (simp_all add: co_share_def)

lemma own_same:
  "mcopools (own m w) = mcopools w" "kern (own m w) = kern w" "evobjs (own m w) = evobjs w"
  "evrefs (own m w) = evrefs w" "evnext (own m w) = evnext w" "loops (own m w) = loops w"
  "lpool (own m w) = lpool w" "lpool_made (own m w) = lpool_made w" "conts (own m w) = conts w"
  "contnext (own m w) = contnext w" "hookable (own m w) = hookable w" "mcow (own m w) = mcow w"
  by (cases m; simp)+

lemma cont_drop_shared [simp]:
  "1 < contrefs w c \<Longrightarrow> cont_drop env S tid c w =
     (Inr (), w\<lparr>contrefs := (contrefs w)(c := contrefs w c - 1)\<rparr>)"
  by (simp add: cont_drop_def comp_defs)

lemma cont_drop_share [simp]: "0 < contrefs w c \<Longrightarrow> cont_drop env S tid c (co_share c w) = (Inr (), w)"
  by (simp add: co_share_def)

lemma pool_at_refs [simp]:
  "pool_at (w\<lparr>contrefs := r\<rparr>) = pool_at w" "pool_free mcopools (w\<lparr>contrefs := r\<rparr>) = pool_free mcopools w"
  "pool_at (co_share c w) = pool_at w" "pool_free mcopools (co_share c w) = pool_free mcopools w"
  "pool_at (own m w) = pool_at w" "pool_free mcopools (own m w) = pool_free mcopools w"
  by (auto simp: fun_eq_iff own_same intro!: pool_at_cong)

lemma pool_at_refs2 [simp]:
  "pool_at (w\<lparr>contrefs := r, mcopools := q\<rparr>) = pool_at (w\<lparr>mcopools := q\<rparr>)"
  "pool_free mcopools (w\<lparr>contrefs := r, mcopools := q\<rparr>) = pool_free mcopools (w\<lparr>mcopools := q\<rparr>)"
  "pool_at (co_share c w\<lparr>mcopools := q\<rparr>) = pool_at (w\<lparr>mcopools := q\<rparr>)"
  "pool_free mcopools (co_share c w\<lparr>mcopools := q\<rparr>) = pool_free mcopools (w\<lparr>mcopools := q\<rparr>)"
  by (auto simp: fun_eq_iff intro!: pool_at_cong)

text \<open>The counts with one owner more or fewer.\<close>

definition inc :: "nat option \<Rightarrow> (nat \<Rightarrow> nat) \<Rightarrow> nat \<Rightarrow> nat" where
  "inc m r c = (if m = Some c then Suc (r c) else r c)"

definition dec :: "nat option \<Rightarrow> (nat \<Rightarrow> nat) \<Rightarrow> nat \<Rightarrow> nat" where
  "dec m r c = (if m = Some c then r c - 1 else r c)"

lemma own_inc: "own m w = w\<lparr>contrefs := inc m (contrefs w)\<rparr>"
proof (cases m)
  case None
  then have "inc m (contrefs w) = contrefs w"
    by (simp add: inc_def fun_eq_iff)
  then show ?thesis using None by simp
next
  case (Some c)
  then have "inc m (contrefs w) = (contrefs w)(c := Suc (contrefs w c))"
    by (simp add: inc_def fun_eq_iff)
  then show ?thesis using Some by (simp add: co_share_def)
qed

lemma mco_drop_shared:
  assumes "\<And>c. m = Some c \<Longrightarrow> 1 < contrefs w c"
  shows "mco_drop env S tid m w = (Inr (), w\<lparr>contrefs := dec m (contrefs w)\<rparr>)"
proof (cases m)
  case None
  then have "dec m (contrefs w) = contrefs w"
    by (simp add: dec_def fun_eq_iff)
  then show ?thesis using None by simp
next
  case (Some c)
  then have "dec m (contrefs w) = (contrefs w)(c := contrefs w c - 1)"
    by (simp add: dec_def fun_eq_iff)
  then show ?thesis using Some assms by simp
qed

end
