(* ===== verification/EventLoop.thy ===== *)
theory EventLoop
  imports McoPool
begin

text \<open>
  base/EventLoop.h and EventLoop.cpp: registration of events under the loop's lock with a wake-up
  of the loop, and the loop itself. \<open>l\<close> is the loop, \<open>tid\<close> the calling thread. Loops are run with
  fuel: \<open>fw\<close> bounds the calls of one \<open>loopWait\<close>, \<open>n\<close> the rounds of \<open>loop\<close>. What a resumed
  coroutine does until it yields is the user's code: the operation \<open>resume\<close>, which stands for
  \<open>Mcosops::Resume\<close>. The \<open>read\<close> of
  \<open>HandleWake\<close> is the hooked one, which for the non-blocking eventfd is the system's.
\<close>

definition get_poll :: "nat \<Rightarrow> ('k base, Epoll) comp" where
  "get_poll l = deref NullDeref (\<lambda>w. el_poll (loops w l))"

definition wakeupLoop :: "'k sys \<Rightarrow> nat \<Rightarrow> ('k base, unit) comp" where
  "wakeupLoop S l = bnd (gets (\<lambda>w. wakeFd (loops w l))) (\<lambda>fd.
     seq (on_kern (syscall (sys_write8 S fd))) (ret ()))"

definition HandleWake :: "'k sys \<Rightarrow> int \<Rightarrow> ('k base, unit) comp" where
  "HandleWake S wfd = seq (on_kern (syscall (sys_read S wfd 8))) (ret ())"

text \<open>
  \<open>events_[fd] = event\<close> and \<open>events_.erase(fd)\<close>, which gives the number of erased entries. The
  table shares the objects it holds.
\<close>

definition put_entry :: "nat \<Rightarrow> int \<Rightarrow> nat \<Rightarrow> 'k base \<Rightarrow> 'k base" where
  "put_entry l fd e w = upd_loop l (\<lambda>x. x\<lparr>el_events := (el_events x)(fd \<mapsto> e)\<rparr>) (ev_share e w)"

definition set_entry :: "'k sys \<Rightarrow> nat \<Rightarrow> int \<Rightarrow> nat \<Rightarrow> ('k base, unit) comp" where
  "set_entry S l fd e = bnd (gets (\<lambda>w. el_events (loops w l) fd)) (\<lambda>old.
     seq (modify (put_entry l fd e)) (case old of None \<Rightarrow> ret () | Some o1 \<Rightarrow> ev_drop S o1))"

definition erase_entry :: "'k sys \<Rightarrow> nat \<Rightarrow> int \<Rightarrow> ('k base, bool) comp" where
  "erase_entry S l fd = bnd (gets (\<lambda>w. el_events (loops w l) fd)) (\<lambda>old. case old of
     None \<Rightarrow> ret False
   | Some o1 \<Rightarrow> seq (modify (upd_loop l (\<lambda>x. x\<lparr>el_events := (el_events x)(fd := None)\<rparr>)))
       (seq (ev_drop S o1) (ret True)))"

definition pollUpdate :: "env \<Rightarrow> 'k sys \<Rightarrow> nat \<Rightarrow> nat \<Rightarrow> ('k base, bool) comp" where
  "pollUpdate env S l e = bnd (get_ev e) (\<lambda>event.
     if invaild event then ret False
     else bnd (gets (\<lambda>w. el_events (loops w l) (ev_fd event))) (\<lambda>iter.
       if isnew event then
         seq (cassert (dbg env) (ret (iter = None)))
         (seq (set_entry S l (ev_fd event) e)
         (bnd (get_poll l) (\<lambda>p. on_kern (EventsAdd env S p event))))
       else if ismod event then
         (if iter = None then
            seq (set_entry S l (ev_fd event) e)
            (bnd (get_poll l) (\<lambda>p. on_kern (EventsAdd env S p event)))
          else bnd (get_poll l) (\<lambda>p. on_kern (EventsMod env S p event)))
       else if isdel event then
         bnd (get_poll l) (\<lambda>p.
           seq (on_kern (EventsDel env S p event))
           (seq (cassert (dbg env) (erase_entry S l (ev_fd event)))
           (ret True)))
       else ret True))"

definition updateEvents :: "env \<Rightarrow> 'k sys \<Rightarrow> nat \<Rightarrow> nat \<Rightarrow> ('k base, bool) comp" where
  "updateEvents env S l e = bnd (get_ev e) (\<lambda>event.
     if invaild event then ret False
     else MutexLocker (loop_mutex l) (set_loop_mutex l)
       (seq (wakeupLoop S l) (pollUpdate env S l e)))"

definition getEvents :: "nat \<Rightarrow> int \<Rightarrow> ('k base, nat option) comp" where
  "getEvents l fd = MutexLocker (loop_mutex l) (set_loop_mutex l)
     (bnd (gets (\<lambda>w. el_events (loops w l) fd)) (\<lambda>event. case event of
        None \<Rightarrow> ret None
      | Some e \<Rightarrow> seq (modify (ev_share e)) (ret (Some e))))"

definition CreateEventfd :: "'k sys \<Rightarrow> ('k base, int) comp" where
  "CreateEventfd S = bnd (on_kern (syscall (sys_eventfd S))) (\<lambda>fd.
     if fd < 0 then raise Aborted else ret fd)"

text \<open>\<open>new (std::nothrow)\<close>: whether the allocation succeeds.\<close>

definition nothrow_new :: "env \<Rightarrow> ('k base, bool) comp" where
  "nothrow_new env = on_mco (\<lambda>w. (Inr (heap_new env (news w) \<noteq> None), w\<lparr>news := Suc (news w)\<rparr>))"

definition EventLoop_new :: "env \<Rightarrow> 'k sys \<Rightarrow> int \<Rightarrow> ('k base, nat) comp" where
  "EventLoop_new env S tid =
    bnd (gets loopnext) (\<lambda>l.
    seq (modify (\<lambda>w. w\<lparr>loopnext := Suc l\<rparr>))
    (bnd (nothrow_new env) (\<lambda>ok.
    bnd (if ok then bnd (on_kern (Epoll_new S)) (\<lambda>p. ret (Some p)) else ret None) (\<lambda>poll.
    bnd (CreateEventfd S) (\<lambda>wfd.
    bnd (new_ev tid wfd kReadEvent) (\<lambda>we.
    seq (modify (upd_loop l (\<lambda>_. \<lparr>el_poll = poll, pollDelta = 200, el_events = Map.empty,
       el_mutex = Mutex_init, el_tid = tid, el_quit = False, wakeFd = wfd, wakeEvent = we\<rparr>)))
    (seq (modify (\<lambda>w. w\<lparr>loopCount := loopCount w + 1\<rparr>))
    (seq (upd_ev we (setType TYPE_EVENT))
    (seq (updateEvents env S l we) (ret l))))))))))"

definition getTid :: "nat \<Rightarrow> ('k base, int) comp" where
  "getTid l = gets (\<lambda>w. el_tid (loops w l))"

definition getEventLoopNum :: "('k base, int) comp" where
  "getEventLoopNum = gets loopCount"

definition resetOwnerTid :: "int \<Rightarrow> nat \<Rightarrow> ('k base, unit) comp" where
  "resetOwnerTid tid l = modify (upd_loop l (\<lambda>x. x\<lparr>el_tid := tid\<rparr>))"

definition assertInOwnerThread :: "env \<Rightarrow> int \<Rightarrow> nat \<Rightarrow> ('k base, unit) comp" where
  "assertInOwnerThread env tid l = cassert (dbg env) (gets (\<lambda>w. el_tid (loops w l) = tid))"

definition quit :: "'k sys \<Rightarrow> int \<Rightarrow> nat \<Rightarrow> ('k base, unit) comp" where
  "quit S tid l =
    seq (modify (upd_loop l (\<lambda>x. x\<lparr>el_quit := True\<rparr>)))
    (bnd (gets (\<lambda>w. el_tid (loops w l))) (\<lambda>owner.
      if owner \<noteq> tid then MutexLocker (loop_mutex l) (set_loop_mutex l) (wakeupLoop S l)
      else ret ()))"

definition handle_mutable :: "Events \<Rightarrow> Events" where
  "handle_mutable o1 =
    (let o2 = (if isRead o1 \<and> \<not> originRead o1 then deleteEventMutable kReadEvent o1 else o1)
     in if isWrite o2 \<and> \<not> originWrite o2 then deleteEventMutable kWriteEvent o2 else o2)"

definition eventHandleAble :: "nat \<Rightarrow> ('k base, bool) comp" where
  "eventHandleAble e = bnd (get_ev e) (\<lambda>event.
     if isdel event then ret False
     else if ismod event then
       seq (upd_ev e handle_mutable) (ret (emutable (handle_mutable event) \<noteq> kNoneEvent))
     else ret True)"

text \<open>
  The body of the loop over the events that occurred, for one of them: up to the coroutine to resume,
  if there is one, and all of it. The loop owns its local pointer until \<open>resume\<close> has returned.
\<close>

definition handle_begin :: "'k sys \<Rightarrow> int \<Rightarrow> nat \<Rightarrow> epoll_event \<Rightarrow> ('k base, nat option) comp" where
  "handle_begin S tid l ev =
    bnd (MutexLocker (loop_mutex l) (set_loop_mutex l)
      (gets (\<lambda>w. el_events (loops w l) (ep_fd ev)))) (\<lambda>events.
    case events of
      None \<Rightarrow> ret None
    | Some e \<Rightarrow>
        seq (upd_ev e (setMutable (ep_events ev)))
        (bnd (eventHandleAble e) (\<lambda>able.
          if \<not> able then ret None
          else bnd (get_ev e) (\<lambda>event.
            bnd (gets (\<lambda>w. wakeFd (loops w l))) (\<lambda>wfd.
              if wfd = ev_fd event then seq (HandleWake S wfd) (ret None)
              else GetMcoRoutine tid (ev_fd event))))))"

definition handle_one ::
  "env \<Rightarrow> 'k sys \<Rightarrow> (nat \<Rightarrow> ('k base, unit) comp) \<Rightarrow> int \<Rightarrow> nat \<Rightarrow> epoll_event \<Rightarrow> ('k base, unit) comp" where
  "handle_one env S resume tid l ev = bnd (handle_begin S tid l ev) (\<lambda>mco. case mco of
     None \<Rightarrow> ret () | Some c \<Rightarrow> seq (resume c) (cont_drop env S tid c))"

fun handle_all ::
  "env \<Rightarrow> 'k sys \<Rightarrow> (nat \<Rightarrow> ('k base, unit) comp) \<Rightarrow> int \<Rightarrow> nat \<Rightarrow> epoll_event list \<Rightarrow> ('k base, unit) comp" where
  "handle_all env S resume tid l [] = ret ()"
| "handle_all env S resume tid l (ev # evs) =
    seq (handle_one env S resume tid l ev) (handle_all env S resume tid l evs)"

text \<open>\<open>poll_->Loop(occur, 2000000)\<close> with an empty \<open>occur\<close>.\<close>

definition poll_loop :: "'k sys \<Rightarrow> nat \<Rightarrow> nat \<Rightarrow> ('k base, epoll_event list) comp" where
  "poll_loop S fw l = bnd (get_poll l) (\<lambda>p.
     bnd (on_kern (Epoll_Loop S fw p [] 2000000)) (\<lambda>(now, occur, p').
       seq (modify (upd_loop l (\<lambda>x. x\<lparr>el_poll := Some p'\<rparr>))) (ret occur)))"

fun loop_rounds ::
  "env \<Rightarrow> 'k sys \<Rightarrow> (nat \<Rightarrow> ('k base, unit) comp) \<Rightarrow> int \<Rightarrow> nat \<Rightarrow> nat \<Rightarrow> nat \<Rightarrow> ('k base, bool) comp" where
  "loop_rounds env S resume tid l fw 0 = raise NoFuel"
| "loop_rounds env S resume tid l fw (Suc n) =
    bnd (gets (\<lambda>w. el_quit (loops w l))) (\<lambda>q.
      if q then ret True
      else bnd (poll_loop S fw l) (\<lambda>occur.
        seq (handle_all env S resume tid l occur) (loop_rounds env S resume tid l fw n)))"

definition EventLoop_loop ::
  "env \<Rightarrow> 'k sys \<Rightarrow> (nat \<Rightarrow> ('k base, unit) comp) \<Rightarrow> int \<Rightarrow> nat \<Rightarrow> nat \<Rightarrow> nat \<Rightarrow> ('k base, bool) comp" where
  "EventLoop_loop env S resume tid l fw n =
    seq (assertInOwnerThread env tid l) (loop_rounds env S resume tid l fw n)"

subsection \<open>Registration\<close>

text \<open>
  epoll_ctl(2): adding a watched descriptor and changing or deleting an unwatched one fail
  and change nothing; adding may fail for other reasons; otherwise the call takes effect. No
  other call of the loop changes what is watched. \<open>watch k epfd\<close> is the interest list.
\<close>

definition epoll_spec :: "'k sys \<Rightarrow> ('k \<Rightarrow> int \<Rightarrow> int \<rightharpoonup> emask) \<Rightarrow> bool" where
  "epoll_spec S watch \<longleftrightarrow> (\<forall>epfd e k.
     (let (r, k') = sys_epoll_ctl S epfd CTL_ADD e k in
        r = - 1 \<and> watch k' epfd = watch k epfd \<or>
        r = 0 \<and> watch k epfd (ep_fd e) = None \<and>
          watch k' epfd = (watch k epfd)(ep_fd e \<mapsto> ep_events e)) \<and>
     (let (r, k') = sys_epoll_ctl S epfd CTL_MOD e k in
        if watch k epfd (ep_fd e) = None then r = - 1 \<and> watch k' epfd = watch k epfd
        else r = 0 \<and> watch k' epfd = (watch k epfd)(ep_fd e \<mapsto> ep_events e)) \<and>
     (let (r, k') = sys_epoll_ctl S epfd CTL_DEL e k in
        if watch k epfd (ep_fd e) = None then r = - 1 \<and> watch k' epfd = watch k epfd
        else r = 0 \<and> watch k' epfd = (watch k epfd)(ep_fd e := None)))"

lemma epoll_specD:
  assumes "epoll_spec S watch" "sys_epoll_ctl S epfd op e k = (r, k')"
  shows "op = CTL_ADD \<Longrightarrow> r = - 1 \<and> watch k' epfd = watch k epfd \<or>
      r = 0 \<and> watch k epfd (ep_fd e) = None \<and> watch k' epfd = (watch k epfd)(ep_fd e \<mapsto> ep_events e)"
    "op = CTL_MOD \<Longrightarrow> if watch k epfd (ep_fd e) = None then r = - 1 \<and> watch k' epfd = watch k epfd
      else r = 0 \<and> watch k' epfd = (watch k epfd)(ep_fd e \<mapsto> ep_events e)"
    "op = CTL_DEL \<Longrightarrow> if watch k epfd (ep_fd e) = None then r = - 1 \<and> watch k' epfd = watch k epfd
      else r = 0 \<and> watch k' epfd = (watch k epfd)(ep_fd e := None)"
proof -
  note at = assms(1) [unfolded epoll_spec_def Let_def, THEN spec [of _ epfd],
    THEN spec [of _ e], THEN spec [of _ k]]
  show "op = CTL_ADD \<Longrightarrow> r = - 1 \<and> watch k' epfd = watch k epfd \<or>
      r = 0 \<and> watch k epfd (ep_fd e) = None \<and> watch k' epfd = (watch k epfd)(ep_fd e \<mapsto> ep_events e)"
    "op = CTL_MOD \<Longrightarrow> if watch k epfd (ep_fd e) = None then r = - 1 \<and> watch k' epfd = watch k epfd
      else r = 0 \<and> watch k' epfd = (watch k epfd)(ep_fd e \<mapsto> ep_events e)"
    "op = CTL_DEL \<Longrightarrow> if watch k epfd (ep_fd e) = None then r = - 1 \<and> watch k' epfd = watch k epfd
      else r = 0 \<and> watch k' epfd = (watch k epfd)(ep_fd e := None)"
    using at assms(2) by simp_all
qed

text \<open>The loop's table and the kernel's list have the same descriptors.\<close>

definition in_step :: "('k \<Rightarrow> int \<Rightarrow> int \<rightharpoonup> emask) \<Rightarrow> nat \<Rightarrow> 'k base \<Rightarrow> bool" where
  "in_step watch l w \<longleftrightarrow> (\<exists>p. el_poll (loops w l) = Some p \<and> epoll_fd p \<noteq> - 1 \<and>
     (\<forall>fd. el_events (loops w l) fd = None \<longleftrightarrow> watch (kern w) (epoll_fd p) fd = None))"

definition watched :: "('k \<Rightarrow> int \<Rightarrow> int \<rightharpoonup> emask) \<Rightarrow> nat \<Rightarrow> 'k base \<Rightarrow> int \<rightharpoonup> emask" where
  "watched watch l w = (case el_poll (loops w l) of None \<Rightarrow> Map.empty
     | Some p \<Rightarrow> watch (kern w) (epoll_fd p))"

lemma put_entry_fields [simp]:
  "kern (put_entry l fd e w) = kern w" "evobjs (put_entry l fd e w) = evobjs w"
  "loops (put_entry l fd e w) =
     (loops w)(l := (loops w l)\<lparr>el_events := (el_events (loops w l))(fd \<mapsto> e)\<rparr>)"
  by (simp_all add: put_entry_def ev_share_def)

lemma set_entry_new [simp]:
  "el_events (loops w l) fd = None \<Longrightarrow> set_entry S l fd e w = (Inr (), put_entry l fd e w)"
  by (simp add: set_entry_def comp_defs)

lemma erase_entry_shared:
  "el_events (loops w l) fd = Some e \<Longrightarrow> 1 < evrefs w e \<Longrightarrow> erase_entry S l fd w =
     (Inr True, upd_loop l (\<lambda>x. x\<lparr>el_events := (el_events x)(fd := None)\<rparr>)
       (w\<lparr>evrefs := (evrefs w)(e := evrefs w e - 1)\<rparr>))"
  by (simp add: erase_entry_def comp_defs ev_drop_def upd_loop_def)

lemma get_poll_apply [simp]: "el_poll (loops w l) = Some p \<Longrightarrow> get_poll l w = (Inr p, w)"
  by (simp add: get_poll_def)

lemma eventCtl_run:
  "epoll_fd p \<noteq> - 1 \<Longrightarrow> eventCtl env S p op e k =
     (Inr (fst (sys_epoll_ctl S (epoll_fd p) op e k) \<noteq> - 1), snd (sys_epoll_ctl S (epoll_fd p) op e k))"
  by (simp add: eventCtl_def comp_defs)


text \<open>
  A loop of thread 1 with its wake-up event on descriptor 5 and an event on descriptor 9.
\<close>

definition demo_loop :: EventLoop where
  "demo_loop = \<lparr>el_poll = Some \<lparr>epoll_fd = 4, rev_mem = replicate 20 zero_event, rev_size = 20,
     maxNum = 20\<rparr>, pollDelta = 200, el_events = Map.empty, el_mutex = Mutex_init, el_tid = 1,
     el_quit = False, wakeFd = 5, wakeEvent = 0\<rparr>"

definition demo_base :: "(int \<rightharpoonup> nat) \<Rightarrow> Events \<Rightarrow> (int \<rightharpoonup> emask) \<Rightarrow> demo_kernel base" where
  "demo_base tab ev interest = \<lparr>kern = demo_kernel0\<lparr>dk_interest := interest\<rparr>,
     evobjs = [0 \<mapsto> Events_new 1 5 kReadEvent, 1 \<mapsto> ev], evrefs = (\<lambda>_. 2), evnext = 2,
     loops = (\<lambda>_. demo_loop\<lparr>el_events := tab\<rparr>), loopnext = 1, loopCount = 1,
     lpool = \<lparr>lp_mutex = Mutex_init, mainLoop = Some 0, lp_loops = [1 \<mapsto> 0], nextLoops = [],
       lp_next = 0\<rparr>, lpool_made = True,
     mcopools = Some \<lparr>pools = [1 \<mapsto> \<lparr>mp_cur = None, fdMcos = [9 \<mapsto> 3]\<rparr>], pool_mutex = Mutex_init\<rparr>,
     conts = [3 \<mapsto> \<lparr>cont_co = 8192\<rparr>], contrefs = (\<lambda>_. 2), contnext = 4, hookable = True,
     mcow = world_init (\<lambda>_. 0) (\<lambda>_ _. 0)\<rparr>"

lemma demo_epoll_spec: "epoll_spec demo_sys (\<lambda>k _. dk_interest k)"
  by (simp add: epoll_spec_def demo_sys_def demo_ctl_def Let_def)

lemma demo_in_step: "dom tab = dom interest \<Longrightarrow> in_step (\<lambda>k _. dk_interest k) l (demo_base tab ev interest)"
proof -
  assume d: "dom tab = dom interest"
  have "tab fd = None \<longleftrightarrow> interest fd = None" for fd
    using d by (metis domIff)
  then show ?thesis
    by (simp add: in_step_def demo_base_def demo_loop_def demo_kernel0_def)
qed


text \<open>
  C33. In a build with \<open>NDEBUG\<close> the erasure of a deleted event is inside an \<open>assert\<close> and does not
  happen: \<open>pollUpdate\<close> reports success, the kernel stops watching the descriptor, but the
  loop's table keeps the deleted event for it, so its \<open>Events\<close> object, whose destructor would
  close the descriptor, stays alive, and a later event in state \<open>MOD\<close> for the descriptor is
  passed to the kernel as a modification, which fails.
\<close>

theorem ndebug_keeps_deleted_entry:
  assumes spec: "epoll_spec S watch" and dbg: "\<not> dbg env" and inv: "in_step watch l w"
    and ev: "evobjs w e = Some x" "isdel x" "el_events (loops w l) (ev_fd x) = Some e"
    and del: "pollUpdate env S l e w = (q, w1)"
    and later: "evobjs w1 e' = Some y" "ismod y" "ev_fd y = ev_fd x"
  shows "q = Inr True \<and> watched watch l w1 (ev_fd x) = None \<and>
    el_events (loops w1 l) (ev_fd x) = Some e \<and> fst (pollUpdate env S l e' w1) = Inr False"
proof -
  obtain p where p: "el_poll (loops w l) = Some p" "epoll_fd p \<noteq> - 1"
    "\<And>fd. el_events (loops w l) fd = None \<longleftrightarrow> watch (kern w) (epoll_fd p) fd = None"
    using inv by (auto simp: in_step_def)
  obtain r k' where c: "sys_epoll_ctl S (epoll_fd p) CTL_DEL (epollEvents x) (kern w) = (r, k')"
    by fastforce
  have k': "watch k' (epoll_fd p) (ev_fd x) = None"
    using epoll_specD(3) [OF spec c] p(3) [of "ev_fd x"] ev(3)
    by (simp add: epollEvents_def split: if_splits)
  have w1: "q = Inr True" "w1 = w\<lparr>kern := k'\<rparr>"
    using del ev p c dbg
    by (auto simp: pollUpdate_def comp_defs state_defs EventsDel_def eventCtl_run)
  obtain r2 k2 where c2: "sys_epoll_ctl S (epoll_fd p) CTL_MOD (epollEvents y) k' = (r2, k2)"
    by fastforce
  have "r2 = - 1"
    using epoll_specD(2) [OF spec c2] k' later(3) by (simp add: epollEvents_def)
  then have "fst (pollUpdate env S l e' w1) = Inr False"
    using later w1 ev p c2
    by (simp add: pollUpdate_def comp_defs state_defs EventsMod_def eventCtl_run)
  then show ?thesis
    using w1 k' p(1) ev(3) by (simp add: watched_def)
qed

theorem ndebug_keeps_deleted_entry_witness:
  "let w = demo_base [5 \<mapsto> 0, 9 \<mapsto> 1] (setState DEL (Events_new 1 9 kReadEvent))
         [5 \<mapsto> kReadEvent, 9 \<mapsto> kReadEvent];
       p = pollUpdate demo_env demo_sys 0 1 w in
   el_events (loops (snd p) 0) 9 = Some 1 \<and> watched (\<lambda>k _. dk_interest k) 0 (snd p) 9 = None"
proof -
  let ?x = "setState DEL (Events_new 1 9 kReadEvent)"
  let ?w = "(demo_base [5 \<mapsto> 0, 9 \<mapsto> 1] ?x [5 \<mapsto> kReadEvent, 9 \<mapsto> kReadEvent])"
  let ?v = "?w\<lparr>evobjs := (evobjs ?w)(2 \<mapsto> setState MOD ?x)\<rparr>"
  have step: "in_step (\<lambda>k _. dk_interest k) 0 ?v"
    using demo_in_step [of "[5 \<mapsto> 0, 9 \<mapsto> 1]" "[5 \<mapsto> kReadEvent, 9 \<mapsto> kReadEvent]" 0 ?x]
    by (simp add: in_step_def)
  have run: "pollUpdate demo_env demo_sys 0 1 ?v =
      (Inr True, ?v\<lparr>kern := (kern ?v)\<lparr>dk_interest := [5 \<mapsto> kReadEvent]\<rparr>\<rparr>)"
    by (simp add: pollUpdate_def comp_defs demo_base_def Events_new_def setState_def state_defs
        EventsDel_def eventCtl_run demo_loop_def demo_sys_def demo_ctl_def epollEvents_def
        demo_kernel0_def demo_env_def fun_upd_idem)
  have run': "pollUpdate demo_env demo_sys 0 1 ?w =
      (Inr True, ?w\<lparr>kern := (kern ?w)\<lparr>dk_interest := [5 \<mapsto> kReadEvent]\<rparr>\<rparr>)"
    by (simp add: pollUpdate_def comp_defs demo_base_def Events_new_def setState_def state_defs
        EventsDel_def eventCtl_run demo_loop_def demo_sys_def demo_ctl_def epollEvents_def
        demo_kernel0_def demo_env_def fun_upd_idem)
  show ?thesis
    using ndebug_keeps_deleted_entry [OF demo_epoll_spec _ step _ _ _ run, of ?x 2 "setState MOD ?x"]
      run' by (simp add: Let_def demo_env_def demo_base_def demo_loop_def setState_def state_defs
        Events_new_def watched_def)
qed

subsection \<open>Locking\<close>

text \<open>
  \<open>updateEvents\<close> rejects an invalid event without touching anything. Otherwise it takes the
  loop's lock, which must be free (the lock is not recursive), wakes the loop before it
  registers the event, and leaves the lock free again, whether the registration returned or
  failed an assertion.
\<close>

theorem updateEvents_locking:
  assumes ev: "evobjs w e = Some x"
  shows "(invaild x \<longrightarrow> updateEvents env S l e w = (Inr False, w)) \<and>
    (\<not> invaild x \<and> mutex_held (loop_mutex l w) \<longrightarrow> updateEvents env S l e w = (Inl Deadlock, w)) \<and>
    (\<not> invaild x \<and> \<not> mutex_held (loop_mutex l w) \<longrightarrow>
      \<not> mutex_held (loop_mutex l (snd (updateEvents env S l e w))) \<and>
      fst (updateEvents env S l e w) = fst (pollUpdate env S l e
        (set_loop_mutex l \<lparr>mutex_held = True\<rparr> w\<lparr>kern := snd (sys_write8 S (wakeFd (loops w l)) (kern w))\<rparr>)))"
proof -
  let ?body = "seq (wakeupLoop S l) (pollUpdate env S l e)"
  let ?h = "loop_lock.held l w"
  have held: "?h = set_loop_mutex l \<lparr>mutex_held = True\<rparr> w"
    by (cases "loop_mutex l w") (simp add: loop_lock.held_def)
  have run: "updateEvents env S l e w = MutexLocker (loop_mutex l) (set_loop_mutex l) ?body w"
    if "\<not> invaild x"
    using ev that by (simp add: updateEvents_def comp_defs)
  have body: "?body ?h = pollUpdate env S l e (?h\<lparr>kern := snd (sys_write8 S (wakeFd (loops w l)) (kern w))\<rparr>)"
    by (simp add: wakeupLoop_def comp_defs held set_loop_mutex_def upd_loop_def)
  have "\<not> mutex_held (loop_mutex l (snd (updateEvents env S l e w))) \<and>
      fst (updateEvents env S l e w) = fst (pollUpdate env S l e
        (?h\<lparr>kern := snd (sys_write8 S (wakeFd (loops w l)) (kern w))\<rparr>))"
    if v: "\<not> invaild x" "\<not> mutex_held (loop_mutex l w)"
  proof -
    have f: "loop_lock.free l w"
      using v by (simp add: loop_lock.free_def)
    obtain r t where rt: "updateEvents env S l e w = (r, t)" by fastforce
    have "loop_lock.free l t"
      using loop_lock.locker_leaves_free [OF f] run [OF v(1)] rt by metis
    moreover have "r = fst (?body ?h)"
      using loop_lock.locker_free [OF f, of ?body] run [OF v(1)] rt by (auto split: prod.splits)
    ultimately show ?thesis
      unfolding rt body by (simp add: loop_lock.free_def)
  qed
  moreover have "updateEvents env S l e w = (Inl Deadlock, w)"
    if "\<not> invaild x" "mutex_held (loop_mutex l w)"
    using loop_lock.locker_deadlock [of l w ?body] run [OF that(1)] that(2)
    by (simp add: loop_lock.free_def)
  moreover have "updateEvents env S l e w = (Inr False, w)" if "invaild x"
    using ev that by (simp add: updateEvents_def comp_defs)
  ultimately show ?thesis
    unfolding held by blast
qed

theorem updateEvents_locking_witness:
  "\<not> mutex_held (loop_mutex 0 (snd (updateEvents demo_env demo_sys 0 1
     (demo_base [5 \<mapsto> 0] (Events_new 1 9 kReadEvent) [5 \<mapsto> kReadEvent]))))"
  using updateEvents_locking [of "demo_base [5 \<mapsto> 0] (Events_new 1 9 kReadEvent) [5 \<mapsto> kReadEvent]" 1
      "Events_new 1 9 kReadEvent" demo_env demo_sys 0]
  by (simp add: demo_base_def demo_loop_def Events_new_def state_defs loop_mutex_def Mutex_init_def)

subsection \<open>Which occurrences reach a coroutine\<close>

text \<open>
  After a wait for reading, the request of an event is empty and its state \<open>MOD\<close>. Of the
  events that occur then, only \<open>POLLIN\<close>, \<open>POLLPRI\<close> and \<open>POLLOUT\<close> are filtered out: the loop takes
  the occurrence up exactly if any other bit is set. epoll reports \<open>POLLERR\<close> and \<open>POLLHUP\<close> whether
  requested or not, and a reported \<open>POLLRDHUP\<close> counts as readable but is not cleared, so a
  coroutine that does not wait for the descriptor is resumed.
\<close>

theorem idle_event_taken_up:
  assumes ev: "evobjs w e = Some x" "ev_state x = MOD" "eorigin x = 0"
  shows "eventHandleAble e w = (Inr (emutable x AND NOT (POLLIN OR POLLPRI OR POLLOUT) \<noteq> 0),
    put_ev e (handle_mutable x) w) \<and>
    emutable (handle_mutable x) = emutable x AND NOT (POLLIN OR POLLPRI OR POLLOUT)"
proof -
  have none: "\<not> originRead y" "\<not> originWrite y" if "eorigin y = 0" for y
    using that by (simp_all add: originRead_def originWrite_def containsAtLeastOneEvents_def)
  let ?o = "if isRead x then deleteEventMutable kReadEvent x else x"
  have o: "eorigin ?o = 0"
    using ev(3) by (simp add: deleteEventMutable_def)
  have clear: "m AND NOT k = m" if "m AND k = 0" for m k :: emask
    using that by (auto simp: bit_eq_iff bit_simps)
  have r: "emutable ?o = emutable x AND NOT (POLLIN OR POLLPRI)"
  proof (cases "isRead x")
    case True
    then show ?thesis by (simp add: deleteEventMutable_def kReadEvent_def)
  next
    case False
    then have "emutable x AND (POLLIN OR POLLPRI OR POLLRDHUP) = 0"
      by (simp add: isRead_def containsAtLeastOneEvents_def)
    then have "emutable x AND (POLLIN OR POLLPRI) = 0"
      by (auto simp: bit_eq_iff bit_simps)
    from clear [OF this] show ?thesis using False by simp
  qed
  have h: "handle_mutable x = (if isWrite ?o then deleteEventMutable kWriteEvent ?o else ?o)"
    using none [OF ev(3)] none [OF o] by (simp add: handle_mutable_def Let_def)
  have "emutable (handle_mutable x) = emutable ?o AND NOT POLLOUT"
  proof (cases "isWrite ?o")
    case True
    then show ?thesis unfolding h by (simp add: deleteEventMutable_def kWriteEvent_def)
  next
    case False
    then have "emutable ?o AND POLLOUT = 0"
      unfolding isWrite_def containsAtLeastOneEvents_def by simp
    from clear [OF this] show ?thesis unfolding h using False by simp
  qed
  also have "\<dots> = emutable x AND NOT (POLLIN OR POLLPRI OR POLLOUT)"
    unfolding r by (auto simp: bit_eq_iff bit_simps)
  finally have m: "emutable (handle_mutable x) = emutable x AND NOT (POLLIN OR POLLPRI OR POLLOUT)" .
  show ?thesis
    using ev m by (simp add: eventHandleAble_def comp_defs state_defs kNoneEvent_def)
qed

theorem idle_event_taken_up_witness:
  "fst (eventHandleAble 1 (demo_base [9 \<mapsto> 1] (setMutable (POLLIN OR POLLRDHUP)
     (deleteEvent kReadEvent (Events_new 1 9 kReadEvent))) [9 \<mapsto> 0])) = Inr True"
  using idle_event_taken_up [of "demo_base [9 \<mapsto> 1] (setMutable (POLLIN OR POLLRDHUP)
     (deleteEvent kReadEvent (Events_new 1 9 kReadEvent))) [9 \<mapsto> 0]" 1 "setMutable (POLLIN OR POLLRDHUP)
     (deleteEvent kReadEvent (Events_new 1 9 kReadEvent))"]
  by (simp add: demo_base_def setMutable_def deleteEvent_def Events_new_def mask_defs)

definition after_occurrence :: "emask \<Rightarrow> Events \<Rightarrow> Events" where
  "after_occurrence m x = (let y = setMutable m x in if ismod y then handle_mutable y else y)"

definition taken_up :: "emask \<Rightarrow> Events \<Rightarrow> bool" where
  "taken_up m x \<longleftrightarrow> \<not> isdel x \<and> (ismod x \<longrightarrow> emutable (after_occurrence m x) \<noteq> kNoneEvent)"

lemma setMutable_state [simp]:
  "isdel (setMutable m x) = isdel x" "ismod (setMutable m x) = ismod x"
  "ev_fd (setMutable m x) = ev_fd x"
  by (simp_all add: setMutable_def state_defs)

lemma handle_mutable_fd [simp]: "ev_fd (handle_mutable x) = ev_fd x"
  by (simp add: handle_mutable_def Let_def deleteEventMutable_def)

lemma eventHandleAble_run:
  assumes "evobjs w e = Some x"
  shows "bnd (seq (upd_ev e (setMutable m)) (eventHandleAble e)) g w =
    g (taken_up m x) (put_ev e (after_occurrence m x) w)"
  using assms
  by (auto simp: comp_defs eventHandleAble_def taken_up_def after_occurrence_def Let_def state_defs
      setMutable_def put_ev_def)

lemma locked_find:
  assumes "\<not> mutex_held (loop_mutex l w)"
  shows "MutexLocker (loop_mutex l) (set_loop_mutex l) (gets (\<lambda>w. el_events (loops w l) fd)) w =
    (Inr (el_events (loops w l) fd), w)"
proof -
  have f: "loop_lock.free l w"
    using assms by (simp add: loop_lock.free_def)
  have "el_events (loops (loop_lock.held l w) l) fd = el_events (loops w l) fd"
    by (simp add: loop_lock.held_def set_loop_mutex_def)
  then show ?thesis
    using loop_lock.locker_free [OF f, of "gets (\<lambda>w. el_events (loops w l) fd)"]
      loop_lock.released_held [OF f] by (simp add: gets_def)
qed

lemma handle_begin_run:
  assumes lock: "\<not> mutex_held (loop_mutex l w)" and pools: "pool_free mcopools w"
    and fd: "ep_fd ev = fd" "ep_events ev = m"
    and x: "\<And>e. el_events (loops w l) fd = Some e \<Longrightarrow> evobjs w e = Some x \<and> ev_fd x = fd"
  shows "\<exists>v. handle_begin S tid l ev w =
    (case el_events (loops w l) fd of None \<Rightarrow> (Inr None, w)
     | Some e \<Rightarrow>
        if \<not> taken_up m x then (Inr None, put_ev e (after_occurrence m x) w)
        else if fd = wakeFd (loops w l)
          then seq (HandleWake S fd) (ret None) (put_ev e (after_occurrence m x) w)
        else (Inr (fdMcos (pool_at w tid) fd), own (fdMcos (pool_at w tid) fd) v)) \<and>
    (\<forall>e. el_events (loops w l) fd = Some e \<longrightarrow> only_pools (put_ev e (after_occurrence m x) w) v \<and>
       pool_free mcopools v \<and> (\<forall>t. pool_at v t = pool_at w t))"
proof (cases "el_events (loops w l) fd")
  case None
  then show ?thesis
    using locked_find [OF lock, of fd] fd by (auto simp: handle_begin_def comp_defs)
next
  case (Some e)
  let ?y = "after_occurrence m x"
  let ?w = "put_ev e ?y w"
  let ?mco = "fdMcos (pool_at w tid) fd"
  have e: "evobjs w e = Some x" "ev_fd x = fd"
    using x [OF Some] by simp_all
  have yfd: "ev_fd ?y = fd"
    using e by (simp add: after_occurrence_def Let_def)
  have pl: "pool_free mcopools ?w" "pool_at ?w t = pool_at w t" for t
    using pools pool_at_cong [of ?w w] by simp_all
  obtain q where q: "GetMcoRoutine tid fd ?w = (Inr (fdMcos (pool_at ?w tid) fd),
      own (fdMcos (pool_at ?w tid) fd) (?w\<lparr>mcopools := q\<rparr>))"
    "pool_free mcopools (?w\<lparr>mcopools := q\<rparr>)" "pool_at (?w\<lparr>mcopools := q\<rparr>) = pool_at ?w"
    by (rule GetMcoRoutine_at [OF pl(1), of tid fd])
  define v where "v = ?w\<lparr>mcopools := q\<rparr>"
  have v: "GetMcoRoutine tid fd ?w = (Inr ?mco, own ?mco v)"
    "only_pools ?w v \<and> pool_free mcopools v \<and> (\<forall>t. pool_at v t = pool_at w t)"
    using q pl(2) unfolding v_def by (auto simp: only_pools_def)
  have "handle_begin S tid l ev w =
      bnd (seq (upd_ev e (setMutable m)) (eventHandleAble e)) (\<lambda>able.
        if \<not> able then ret None
        else bnd (get_ev e) (\<lambda>event. bnd (gets (\<lambda>w. wakeFd (loops w l))) (\<lambda>wfd.
          if wfd = ev_fd event then seq (HandleWake S wfd) (ret None)
          else GetMcoRoutine tid (ev_fd event)))) w"
    using locked_find [OF lock, of fd] fd Some
    by (auto simp: handle_begin_def comp_defs split: prod.splits sum.splits)
  also have "\<dots> = (if \<not> taken_up m x then (Inr None, ?w)
      else if fd = wakeFd (loops w l) then seq (HandleWake S fd) (ret None) ?w
      else (Inr ?mco, own ?mco v))"
    unfolding eventHandleAble_run [OF e(1)] using yfd v by (auto simp: comp_defs)
  finally show ?thesis
    using Some v(2) by auto
qed

lemma handle_one_run:
  assumes lock: "\<not> mutex_held (loop_mutex l w)" and pools: "pool_free mcopools w"
    and fd: "ep_fd ev = fd" "ep_events ev = m"
    and x: "\<And>e. el_events (loops w l) fd = Some e \<Longrightarrow> evobjs w e = Some x \<and> ev_fd x = fd"
  shows "\<exists>v. handle_one env S resume tid l ev w =
    (case el_events (loops w l) fd of None \<Rightarrow> (Inr (), w)
     | Some e \<Rightarrow>
        if \<not> taken_up m x then (Inr (), put_ev e (after_occurrence m x) w)
        else if fd = wakeFd (loops w l) then HandleWake S fd (put_ev e (after_occurrence m x) w)
        else (case fdMcos (pool_at w tid) fd of None \<Rightarrow> (Inr (), v)
          | Some c \<Rightarrow> seq (resume c) (cont_drop env S tid c) (co_share c v))) \<and>
    (\<forall>e. el_events (loops w l) fd = Some e \<longrightarrow> only_pools (put_ev e (after_occurrence m x) w) v \<and>
       pool_free mcopools v \<and> (\<forall>t. pool_at v t = pool_at w t))"
proof -
  obtain v where v: "handle_begin S tid l ev w =
    (case el_events (loops w l) fd of None \<Rightarrow> (Inr None, w)
     | Some e \<Rightarrow>
        if \<not> taken_up m x then (Inr None, put_ev e (after_occurrence m x) w)
        else if fd = wakeFd (loops w l)
          then seq (HandleWake S fd) (ret None) (put_ev e (after_occurrence m x) w)
        else (Inr (fdMcos (pool_at w tid) fd), own (fdMcos (pool_at w tid) fd) v))"
    "\<forall>e. el_events (loops w l) fd = Some e \<longrightarrow> only_pools (put_ev e (after_occurrence m x) w) v \<and>
       pool_free mcopools v \<and> (\<forall>t. pool_at v t = pool_at w t)"
    using handle_begin_run [OF lock pools fd x] by blast
  have wake: "bnd (seq (HandleWake S fd) (ret None)) (\<lambda>mco. case mco of
      None \<Rightarrow> ret () | Some c \<Rightarrow> seq (resume c) (cont_drop env S tid c)) z = HandleWake S fd z" for z
    by (simp add: HandleWake_def comp_defs)
  show ?thesis
    using v wake [unfolded bnd_apply] by (intro exI [of _ v])
      (auto simp: handle_one_def bnd_apply split: option.split)
qed



subsection \<open>The loop ends\<close>

definition one_round ::
  "env \<Rightarrow> 'k sys \<Rightarrow> (nat \<Rightarrow> ('k base, unit) comp) \<Rightarrow> int \<Rightarrow> nat \<Rightarrow> nat \<Rightarrow> ('k base, unit) comp" where
  "one_round env S resume tid l fw = bnd (poll_loop S fw l) (handle_all env S resume tid l)"



end
