(* ===== verification/EventLoopPool.thy ===== *)
theory EventLoopPool
  imports EventLoop
begin

text \<open>
  base/EventLoopPool.h and EventLoopPool.cpp: the process-wide registry of event loops by thread,
  the main loop and the rotation of the others, and base/Eventsops.h: the operations on events
  that find the loop through the registry. An \<open>EventLoop*\<close> is a number or \<open>None\<close>.
\<close>

definition EventLoopPool_new :: EventLoopPool where
  "EventLoopPool_new = \<lparr>lp_mutex = Mutex_init, mainLoop = None, lp_loops = Map.empty,
     nextLoops = [], lp_next = 0\<rparr>"

text \<open>
  \<open>Instance()\<close>: every caller goes on to lock \<open>mutex_\<close> of the object, so the null pointer that is
  left when the allocation fails is dereferenced.
\<close>

definition lpool_Instance :: "env \<Rightarrow> ('k base, unit) comp" where
  "lpool_Instance env = bnd (gets lpool_made) (\<lambda>made.
     if made then ret ()
     else bnd (nothrow_new env) (\<lambda>ok.
       if ok then modify (\<lambda>w. w\<lparr>lpool := EventLoopPool_new, lpool_made := True\<rparr>)
       else raise NullDeref))"

definition addEventLoop :: "int \<Rightarrow> nat option \<Rightarrow> bool \<Rightarrow> ('k base, bool) comp" where
  "addEventLoop tid loop ismain = MutexLocker pool_lock set_pool_lock
     (bnd (gets lpool) (\<lambda>p.
       case loop of
         None \<Rightarrow> ret False
       | Some l \<Rightarrow>
           if lp_loops p tid \<noteq> None then ret False
           else seq (modify (\<lambda>w. w\<lparr>lpool := (lpool w)\<lparr>lp_loops := (lp_loops p)(tid \<mapsto> l)\<rparr>\<rparr>))
             (seq (if \<not> ismain
                   then modify (\<lambda>w. w\<lparr>lpool := (lpool w)\<lparr>nextLoops := nextLoops p @ [l]\<rparr>\<rparr>)
                   else modify (\<lambda>w. w\<lparr>lpool := (lpool w)\<lparr>mainLoop := Some l\<rparr>\<rparr>))
               (ret True))))"

definition getNextLoop :: "('k base, nat option) comp" where
  "getNextLoop = MutexLocker pool_lock set_pool_lock
     (bnd (gets lpool) (\<lambda>p.
       if length (nextLoops p) = 0 then ret (mainLoop p)
       else let n = (if length (nextLoops p) \<le> lp_next p then 0 else lp_next p) in
         seq (modify (\<lambda>w. w\<lparr>lpool := (lpool w)\<lparr>lp_next := Suc n\<rparr>\<rparr>))
           (ret (Some (nextLoops p ! n)))))"

definition getLoop :: "int \<Rightarrow> ('k base, nat option) comp" where
  "getLoop tid = MutexLocker pool_lock set_pool_lock (gets (\<lambda>w. lp_loops (lpool w) tid))"

definition getMainLoop :: "('k base, nat option) comp" where
  "getMainLoop = MutexLocker pool_lock set_pool_lock (bnd (gets (\<lambda>w. mainLoop (lpool w)))
     (\<lambda>m. case m of Some l \<Rightarrow> ret (Some l) | None \<Rightarrow> ret None))"

definition AddEventLoop :: "env \<Rightarrow> nat option \<Rightarrow> ('k base, bool) comp" where
  "AddEventLoop env loop = seq (lpool_Instance env)
     (bnd (deref NullDeref (\<lambda>w. map_option (\<lambda>l. el_tid (loops w l)) loop))
       (\<lambda>t. addEventLoop t loop False))"

definition addMainLoop :: "env \<Rightarrow> nat option \<Rightarrow> ('k base, bool) comp" where
  "addMainLoop env loop = seq (lpool_Instance env)
     (bnd (deref NullDeref (\<lambda>w. map_option (\<lambda>l. el_tid (loops w l)) loop))
       (\<lambda>t. addEventLoop t loop True))"

definition GetNextLoop :: "env \<Rightarrow> ('k base, nat option) comp" where
  "GetNextLoop env = seq (lpool_Instance env) getNextLoop"

definition GetMainLoop :: "env \<Rightarrow> ('k base, nat option) comp" where
  "GetMainLoop env = seq (lpool_Instance env) getMainLoop"

definition GetLoop :: "env \<Rightarrow> int \<Rightarrow> ('k base, nat option) comp" where
  "GetLoop env tid = seq (lpool_Instance env) (getLoop tid)"

subsection \<open>Operations on events through the registry\<close>

definition RemoveEventFromLoop :: "env \<Rightarrow> 'k sys \<Rightarrow> nat \<Rightarrow> ('k base, bool) comp" where
  "RemoveEventFromLoop env S e = bnd (get_ev e) (\<lambda>event.
     bnd (GetLoop env (ev_tid event)) (\<lambda>loop. case loop of
       None \<Rightarrow> seq (cassert (dbg env) (ret False)) (ret False)
     | Some l \<Rightarrow> seq (upd_ev e (setState DEL)) (updateEvents env S l e)))"

definition UpdateLoopEvents :: "env \<Rightarrow> 'k sys \<Rightarrow> nat \<Rightarrow> ('k base, bool) comp" where
  "UpdateLoopEvents env S e = bnd (get_ev e) (\<lambda>event.
     bnd (GetLoop env (ev_tid event)) (\<lambda>loop. case loop of
       None \<Rightarrow> ret False
     | Some l \<Rightarrow> updateEvents env S l e))"

definition GetEvents :: "env \<Rightarrow> int \<Rightarrow> int \<Rightarrow> ('k base, nat option) comp" where
  "GetEvents env tid fd = bnd (GetLoop env tid) (\<lambda>loop. case loop of
       None \<Rightarrow> ret None
     | Some l \<Rightarrow> getEvents l fd)"

subsection \<open>The registry under its lock\<close>

definition pool_ready :: "'k base \<Rightarrow> bool" where
  "pool_ready w \<longleftrightarrow> lpool_made w \<and> \<not> mutex_held (pool_lock w)"

lemma pool_released:
  assumes "\<not> mutex_held (pool_lock w)"
  shows "MutexLocker pool_lock set_pool_lock body w =
    (case body (set_pool_lock \<lparr>mutex_held = True\<rparr> w) of (r, t) \<Rightarrow>
       (r, set_pool_lock ((pool_lock t)\<lparr>mutex_held := False\<rparr>) t))"
proof -
  have m: "(pool_lock w)\<lparr>mutex_held := True\<rparr> = \<lparr>mutex_held = True\<rparr>"
    by (cases "pool_lock w") simp
  have "lpool_lock.free w"
    using assms by (simp add: lpool_lock.free_def)
  from lpool_lock.locker_free [OF this, of body] show ?thesis
    unfolding lpool_lock.held_def lpool_lock.released_def m .
qed

lemma unheld: "\<not> mutex_held m \<Longrightarrow> \<lparr>mutex_held = False\<rparr> = m"
  by (cases m) simp

lemma addEventLoop_run:
  assumes "\<not> mutex_held (pool_lock w)"
  shows "addEventLoop tid loop ismain w =
    (case loop of None \<Rightarrow> (Inr False, w)
     | Some l \<Rightarrow> if lp_loops (lpool w) tid \<noteq> None then (Inr False, w)
         else (Inr True, w\<lparr>lpool := (lpool w)\<lparr>lp_loops := (lp_loops (lpool w))(tid \<mapsto> l),
           nextLoops := (if ismain then nextLoops (lpool w) else nextLoops (lpool w) @ [l]),
           mainLoop := (if ismain then Some l else mainLoop (lpool w))\<rparr>\<rparr>))"
proof -
  have m: "\<lparr>mutex_held = False\<rparr> = lp_mutex (lpool w)"
    using assms unheld by (simp add: pool_lock_def)
  show ?thesis
    unfolding addEventLoop_def pool_released [OF assms]
    by (cases "lpool w") (auto simp: comp_defs set_pool_lock_def pool_lock_def m split: option.splits)
qed

lemma getLoop_run:
  assumes "\<not> mutex_held (pool_lock w)"
  shows "getLoop tid w = (Inr (lp_loops (lpool w) tid), w)"
proof -
  have m: "\<lparr>mutex_held = False\<rparr> = lp_mutex (lpool w)"
    using assms unheld by (simp add: pool_lock_def)
  show ?thesis
    unfolding getLoop_def pool_released [OF assms]
    by (simp add: comp_defs set_pool_lock_def pool_lock_def m)
qed

lemma getMainLoop_run:
  assumes "\<not> mutex_held (pool_lock w)"
  shows "getMainLoop w = (Inr (mainLoop (lpool w)), w)"
proof -
  have m: "\<lparr>mutex_held = False\<rparr> = lp_mutex (lpool w)"
    using assms unheld by (simp add: pool_lock_def)
  show ?thesis
    unfolding getMainLoop_def pool_released [OF assms]
    by (auto simp: comp_defs set_pool_lock_def pool_lock_def m split: option.splits)
qed

lemma GetLoop_run: "pool_ready w \<Longrightarrow> GetLoop env tid w = (Inr (lp_loops (lpool w) tid), w)"
  by (simp add: GetLoop_def lpool_Instance_def comp_defs pool_ready_def getLoop_run)

text \<open>What \<open>next_\<close> is taken as, and the position after \<open>k\<close> more calls.\<close>

definition next_pos :: "EventLoopPool \<Rightarrow> nat" where
  "next_pos p = (if length (nextLoops p) \<le> lp_next p then 0 else lp_next p)"

lemma getNextLoop_run:
  assumes "\<not> mutex_held (pool_lock w)" "nextLoops (lpool w) \<noteq> []"
  shows "getNextLoop w = (Inr (Some (nextLoops (lpool w) ! next_pos (lpool w))),
    w\<lparr>lpool := (lpool w)\<lparr>lp_next := Suc (next_pos (lpool w))\<rparr>\<rparr>)"
proof -
  have m: "\<lparr>mutex_held = False\<rparr> = lp_mutex (lpool w)"
    using assms unheld by (simp add: pool_lock_def)
  show ?thesis
    using assms(2) unfolding getNextLoop_def pool_released [OF assms(1)]
    by (cases "lpool w") (auto simp: comp_defs set_pool_lock_def pool_lock_def m next_pos_def Let_def)
qed

lemma getNextLoop_main:
  assumes "\<not> mutex_held (pool_lock w)" "nextLoops (lpool w) = []"
  shows "getNextLoop w = (Inr (mainLoop (lpool w)), w)"
proof -
  have m: "\<lparr>mutex_held = False\<rparr> = lp_mutex (lpool w)"
    using assms unheld by (simp add: pool_lock_def)
  show ?thesis
    using assms(2) unfolding getNextLoop_def pool_released [OF assms(1)]
    by (simp add: comp_defs set_pool_lock_def pool_lock_def m)
qed

lemma next_pos_step:
  assumes "nextLoops p \<noteq> []"
  shows "next_pos (p\<lparr>lp_next := Suc (next_pos p)\<rparr>) = Suc (next_pos p) mod length (nextLoops p)"
    and "next_pos p < length (nextLoops p)"
proof -
  show lt: "next_pos p < length (nextLoops p)"
    using assms by (simp add: next_pos_def)
  show "next_pos (p\<lparr>lp_next := Suc (next_pos p)\<rparr>) = Suc (next_pos p) mod length (nextLoops p)"
  proof (cases "Suc (next_pos p) = length (nextLoops p)")
    case True
    then show ?thesis by (simp add: next_pos_def [of "_\<lparr>lp_next := _\<rparr>"])
  next
    case False
    with lt show ?thesis by (simp add: next_pos_def [of "_\<lparr>lp_next := _\<rparr>"])
  qed
qed

text \<open>\<open>k\<close> successive calls, with their results.\<close>

fun next_loops :: "nat \<Rightarrow> ('k base, nat option list) comp" where
  "next_loops 0 = ret []"
| "next_loops (Suc k) = bnd getNextLoop (\<lambda>l. bnd (next_loops k) (\<lambda>ls. ret (l # ls)))"

text \<open>
  C21. New connections are spread over the loops in turn: whatever \<open>next_\<close> holds, \<open>k\<close> successive
  calls of \<open>getNextLoop\<close> give \<open>k\<close> successive loops of the rotation, cyclically, and without any
  loop in the rotation they give the main loop; the registry itself is not changed.
\<close>

theorem getNextLoop_round_robin:
  fixes w :: "'k base" and k :: nat
  defines "p \<equiv> lpool w"
  assumes free: "\<not> mutex_held (pool_lock w)"
  shows "\<exists>n. next_loops k w =
    (Inr (if nextLoops p = [] then replicate k (mainLoop p)
       else map (\<lambda>i. Some (nextLoops p ! ((next_pos p + i) mod length (nextLoops p)))) [0..<k]),
     w\<lparr>lpool := p\<lparr>lp_next := n\<rparr>\<rparr>)"
  using free unfolding p_def
proof (induction k arbitrary: w)
  case 0
  then show ?case
    by (auto intro!: exI [of _ "lp_next (lpool w)"])
next
  case (Suc k)
  show ?case
  proof (cases "nextLoops (lpool w) = []")
    case True
    then show ?thesis
      using Suc.IH [OF Suc.prems] getNextLoop_main [OF Suc.prems True] by (auto simp: comp_defs)
  next
    case False
    let ?L = "nextLoops (lpool w)" and ?n = "next_pos (lpool w)"
    let ?w = "w\<lparr>lpool := (lpool w)\<lparr>lp_next := Suc ?n\<rparr>\<rparr>"
    have "\<not> mutex_held (pool_lock ?w)"
      using Suc.prems by (simp add: pool_lock_def)
    then obtain n where n: "next_loops k ?w = (Inr (map (\<lambda>i. Some (?L ! ((next_pos (lpool ?w) + i)
        mod length ?L))) [0..<k]), ?w\<lparr>lpool := (lpool ?w)\<lparr>lp_next := n\<rparr>\<rparr>)"
      using Suc.IH [of ?w] False by auto
    have pos: "(next_pos (lpool ?w) + i) mod length ?L = (?n + Suc i) mod length ?L" for i
      using next_pos_step(1) [OF False] by (simp add: mod_add_left_eq)
    have "map (\<lambda>i. Some (?L ! ((?n + i) mod length ?L))) [0..<Suc k] =
        Some (?L ! ?n) # map (\<lambda>i. Some (?L ! ((?n + Suc i) mod length ?L))) [0..<k]"
      using next_pos_step(2) [OF False] by (simp add: map_upt_Suc del: upt_Suc)
    then show ?thesis
      using n False getNextLoop_run [OF Suc.prems False] pos
      by (auto simp: comp_defs simp del: upt_Suc)
  qed
qed

theorem getNextLoop_round_robin_witness:
  "fst (next_loops 3 ((demo_base Map.empty (Events_new 1 9 0) Map.empty)
     \<lparr>lpool := EventLoopPool_new\<lparr>nextLoops := [7, 8], lp_next := 2\<rparr>\<rparr>)) = Inr [Some 7, Some 8, Some 7]"
  using getNextLoop_round_robin [of "(demo_base Map.empty (Events_new 1 9 0) Map.empty)
     \<lparr>lpool := EventLoopPool_new\<lparr>nextLoops := [7, 8], lp_next := 2\<rparr>\<rparr>" 3]
  by (auto simp: pool_lock_def EventLoopPool_new_def Mutex_init_def next_pos_def upt_rec)

text \<open>
  C22. The registry holds one loop per thread: \<open>addEventLoop\<close> succeeds exactly for a non-null loop
  of a thread that has none, after which \<open>getLoop\<close> gives it for that thread and what it gave
  before for every other, a main loop is what \<open>getMainLoop\<close> gives and does not enter the
  rotation, another loop is appended to the rotation; a refused call changes nothing.
\<close>

theorem addEventLoop_registers:
  assumes "\<not> mutex_held (pool_lock w)"
  shows "\<exists>ok w'. addEventLoop tid loop ismain w = (Inr ok, w') \<and>
    (ok \<longleftrightarrow> loop \<noteq> None \<and> getLoop tid w = (Inr None, w)) \<and> (\<not> ok \<longrightarrow> w' = w) \<and>
    (ok \<longrightarrow> (\<forall>t. getLoop t w' = (if t = tid then (Inr loop, w') else (fst (getLoop t w), w'))) \<and>
      getMainLoop w' = (if ismain then (Inr loop, w') else (fst (getMainLoop w), w')) \<and>
      map Some (nextLoops (lpool w')) =
        map Some (nextLoops (lpool w)) @ (if ismain then [] else [loop]))"
proof -
  obtain ok w' where run: "addEventLoop tid loop ismain w = (Inr ok, w')"
    using addEventLoop_run [OF assms, of tid loop ismain]
    by (cases loop; cases "lp_loops (lpool w) tid") auto
  have "\<not> mutex_held (pool_lock w')"
    using run assms unfolding addEventLoop_run [OF assms]
    by (auto simp: pool_lock_def split: option.splits if_splits)
  note g = getLoop_run [OF this] getMainLoop_run [OF this] getLoop_run [OF assms] getMainLoop_run [OF assms]
  have main: "(ok \<longleftrightarrow> loop \<noteq> None \<and> getLoop tid w = (Inr None, w)) \<and> (\<not> ok \<longrightarrow> w' = w) \<and>
    (ok \<longrightarrow> (\<forall>t. getLoop t w' = (if t = tid then (Inr loop, w') else (fst (getLoop t w), w'))) \<and>
      getMainLoop w' = (if ismain then (Inr loop, w') else (fst (getMainLoop w), w')) \<and>
      map Some (nextLoops (lpool w')) =
        map Some (nextLoops (lpool w)) @ (if ismain then [] else [loop]))"
    using run unfolding g addEventLoop_run [OF assms] by (auto split: option.splits if_splits)
  show ?thesis
    using run main by blast
qed

theorem addEventLoop_registers_witness:
  "\<exists>w'. addEventLoop 2 (Some 7) False ((demo_base Map.empty (Events_new 1 9 0) Map.empty)
     \<lparr>lpool := EventLoopPool_new\<rparr>) = (Inr True, w') \<and> getLoop 2 w' = (Inr (Some 7), w')"
proof -
  let ?w = "(demo_base Map.empty (Events_new 1 9 0) Map.empty)\<lparr>lpool := EventLoopPool_new\<rparr>"
  have free: "\<not> mutex_held (pool_lock ?w)"
    by (simp add: pool_lock_def EventLoopPool_new_def Mutex_init_def)
  have "getLoop 2 ?w = (Inr None, ?w)"
    using getLoop_run [OF free] by (simp add: EventLoopPool_new_def)
  then show ?thesis
    using addEventLoop_registers [OF free, of 2 "Some 7" False] by auto
qed

end
