(* ===== verification/LoopRegistry.thy ===== *)
theory LoopRegistry
  imports EventLoopPool
begin

text \<open>
  What the registry of base/EventLoopPool.cpp is worth to its clients: whichever of its operations
  are called and in whichever order, a loop that it gives out is registered for its own thread, so
  that an event made for this thread finds its way back to the loop, as \<open>TcpServer\<close> relies on.
\<close>

subsection \<open>A well-formed registry\<close>

text \<open>
  For the threads \<open>th\<close> of the loops: every loop is registered under its own thread, every loop of the
  rotation and the main loop are registered, no loop is in the rotation twice, and the main loop
  is not in it at all.
\<close>

definition pool_wf :: "(nat \<Rightarrow> int) \<Rightarrow> EventLoopPool \<Rightarrow> bool" where
  "pool_wf th p \<longleftrightarrow> (\<forall>t l. lp_loops p t = Some l \<longrightarrow> th l = t) \<and>
     (\<forall>l \<in> set (nextLoops p) \<union> set_option (mainLoop p). lp_loops p (th l) = Some l) \<and>
     distinct (nextLoops p) \<and> set (nextLoops p) \<inter> set_option (mainLoop p) = {}"

definition thread_of :: "'k base \<Rightarrow> nat \<Rightarrow> int" where
  "thread_of w l = el_tid (loops w l)"

definition registered :: "'k base \<Rightarrow> nat \<Rightarrow> bool" where
  "registered w l \<longleftrightarrow> lp_loops (lpool w) (thread_of w l) = Some l"

definition registry_ok :: "'k base \<Rightarrow> bool" where
  "registry_ok w \<longleftrightarrow> (lpool_made w \<longrightarrow> \<not> mutex_held (pool_lock w) \<and> pool_wf (thread_of w) (lpool w))"

lemma pool_wf_new: "pool_wf th EventLoopPool_new"
  by (simp add: pool_wf_def EventLoopPool_new_def)

lemma pool_wf_next [simp]: "pool_wf th (p\<lparr>lp_next := n\<rparr>) = pool_wf th p"
  by (simp add: pool_wf_def)

lemma pool_wf_add:
  assumes "pool_wf th p" "lp_loops p (th l) = None"
  shows "pool_wf th (p\<lparr>lp_loops := (lp_loops p)(th l \<mapsto> l), mainLoop := Some l\<rparr>)"
    and "pool_wf th (p\<lparr>lp_loops := (lp_loops p)(th l \<mapsto> l), nextLoops := nextLoops p @ [l]\<rparr>)"
proof -
  have *: "th k \<noteq> th l" if "k \<in> set (nextLoops p) \<union> set_option (mainLoop p)" for k
    using assms that unfolding pool_wf_def by (metis option.distinct(1))
  then have "l \<notin> set (nextLoops p) \<union> set_option (mainLoop p)"
    by blast
  with * assms(1)
  show "pool_wf th (p\<lparr>lp_loops := (lp_loops p)(th l \<mapsto> l), mainLoop := Some l\<rparr>)"
    "pool_wf th (p\<lparr>lp_loops := (lp_loops p)(th l \<mapsto> l), nextLoops := nextLoops p @ [l]\<rparr>)"
    by (simp_all add: pool_wf_def)
qed

lemma pool_wf_given:
  "pool_wf th p \<Longrightarrow> l \<in> set (nextLoops p) \<Longrightarrow> lp_loops p (th l) = Some l"
  "pool_wf th p \<Longrightarrow> mainLoop p = Some l \<Longrightarrow> lp_loops p (th l) = Some l"
  "pool_wf th p \<Longrightarrow> lp_loops p t = Some l \<Longrightarrow> th l = t"
  by (auto simp: pool_wf_def)

lemma thread_of_pool [simp]: "thread_of (w\<lparr>lpool := p\<rparr>) = thread_of w"
  by (simp add: thread_of_def fun_eq_iff)

text \<open>The calls of the registry's clients; what a lookup gives.\<close>

datatype registry_call = AddLoop nat | AddMain nat | NextLoop | TheMain | LoopOf int

fun registry_do :: "env \<Rightarrow> registry_call \<Rightarrow> ('k base, nat option) comp" where
  "registry_do env (AddLoop l) = seq (AddEventLoop env (Some l)) (ret None)"
| "registry_do env (AddMain l) = seq (addMainLoop env (Some l)) (ret None)"
| "registry_do env NextLoop = GetNextLoop env"
| "registry_do env TheMain = GetMainLoop env"
| "registry_do env (LoopOf t) = GetLoop env t"

fun registry_calls :: "env \<Rightarrow> registry_call list \<Rightarrow> ('k base, nat option list) comp" where
  "registry_calls env [] = ret []"
| "registry_calls env (c # cs) =
     bnd (registry_do env c) (\<lambda>l. bnd (registry_calls env cs) (\<lambda>ls. ret (l # ls)))"

subsection \<open>The first call\<close>

lemma Instance_made: "lpool_made w \<Longrightarrow> lpool_Instance env w = (Inr (), w)"
  by (simp add: lpool_Instance_def comp_defs)

lemma Instance_run:
  "lpool_Instance env w = (r, v) \<Longrightarrow> registry_ok w \<Longrightarrow>
    registry_ok v \<and> loops v = loops w \<and> (r = Inr () \<and> lpool_made v \<or> r = Inl NullDeref \<and> \<not> lpool_made w)"
  using pool_wf_new [of "thread_of v"]
  by (auto simp: lpool_Instance_def nothrow_new_def on_mco_def comp_defs registry_ok_def
      EventLoopPool_new_def pool_lock_def Mutex_init_def split: if_splits)

subsection \<open>Every operation\<close>

text \<open>What one call keeps and what it gives.\<close>

definition registry_kept :: "'k base \<Rightarrow> 'k base \<Rightarrow> bool" where
  "registry_kept w v \<longleftrightarrow> registry_ok v \<and> lpool_made v \<and> loops v = loops w \<and>
     (\<forall>l. registered w l \<longrightarrow> registered v l)"

lemma registry_kept_trans: "registry_kept u v \<Longrightarrow> registry_kept v w \<Longrightarrow> registry_kept u w"
  by (simp add: registry_kept_def)

lemma registry_keptI:
  assumes "lpool_made w" "\<not> mutex_held (lp_mutex p)" "pool_wf (thread_of w) p"
    and "lp_loops (lpool w) \<subseteq>\<^sub>m lp_loops p"
  shows "registry_kept w (w\<lparr>lpool := p\<rparr>)"
proof -
  have "lp_loops p t = Some l" if "lp_loops (lpool w) t = Some l" for t l
    using assms(4) that by (metis domI map_le_def)
  with assms(1-3) show ?thesis
    by (simp add: registry_kept_def registry_ok_def registered_def pool_lock_def)
qed

lemma registry_same: "registry_ok w \<Longrightarrow> lpool_made w \<Longrightarrow> registry_kept w w"
  by (simp add: registry_kept_def)

lemma registry_free:
  assumes "registry_ok w" "lpool_made w"
  shows "\<not> mutex_held (pool_lock w)" "\<not> mutex_held (lp_mutex (lpool w))" "pool_wf (thread_of w) (lpool w)"
  using assms by (simp_all add: registry_ok_def pool_lock_def)

lemma add_keeps:
  assumes ok: "registry_ok w" and made: "lpool_made w"
  shows "\<exists>b v. addEventLoop (thread_of w l) (Some l) ismain w = (Inr b, v) \<and> registry_kept w v"
proof (cases "lp_loops (lpool w) (thread_of w l)")
  case None
  note wf = pool_wf_add [OF registry_free(3) [OF ok made] None]
  have "lp_loops (lpool w) \<subseteq>\<^sub>m (lp_loops (lpool w))(thread_of w l \<mapsto> l)"
    using None by (auto simp: map_le_def)
  then show ?thesis
    using None wf registry_free(2) [OF ok made] made
    by (cases ismain) (auto simp: addEventLoop_run [OF registry_free(1) [OF ok made]] intro!: registry_keptI)
next
  case (Some k)
  then show ?thesis
    using registry_same [OF ok made]
    by (intro exI [of _ False] exI [of _ w]) (simp add: addEventLoop_run [OF registry_free(1) [OF ok made]])
qed

lemma next_keeps:
  assumes ok: "registry_ok w" and made: "lpool_made w"
  shows "\<exists>x v. getNextLoop w = (Inr x, v) \<and> registry_kept w v \<and> (\<forall>l. x = Some l \<longrightarrow> registered v l)"
proof (cases "nextLoops (lpool w) = []")
  case True
  then show ?thesis
    using registry_same [OF ok made] pool_wf_given(2) [OF registry_free(3) [OF ok made]]
    by (auto simp: getNextLoop_main [OF registry_free(1) [OF ok made]] registered_def)
next
  case False
  let ?l = "nextLoops (lpool w) ! next_pos (lpool w)"
  let ?v = "w\<lparr>lpool := (lpool w)\<lparr>lp_next := Suc (next_pos (lpool w))\<rparr>\<rparr>"
  have "lp_loops (lpool w) (thread_of w ?l) = Some ?l"
    using next_pos_step(2) [OF False] by (intro pool_wf_given(1) [OF registry_free(3) [OF ok made]]) simp
  then have "registered ?v ?l"
    by (simp add: registered_def)
  moreover have "registry_kept w ?v"
    using registry_free [OF ok made] made by (intro registry_keptI) simp_all
  ultimately show ?thesis
    by (simp add: getNextLoop_run [OF registry_free(1) [OF ok made] False])
qed

lemma do_keeps:
  assumes ok: "registry_ok w" and made: "lpool_made w"
  shows "\<exists>x v. registry_do env c w = (Inr x, v) \<and> registry_kept w v \<and> (\<forall>l. x = Some l \<longrightarrow> registered v l)"
proof -
  note run = Instance_made [OF made] getLoop_run [OF registry_free(1) [OF ok made]]
    getMainLoop_run [OF registry_free(1) [OF ok made]]
  note same = registry_same [OF ok made]
  note given = pool_wf_given [OF registry_free(3) [OF ok made]]
  show ?thesis
  proof (cases c)
    case (AddLoop l)
    obtain b v where "addEventLoop (thread_of w l) (Some l) False w = (Inr b, v)" "registry_kept w v"
      using add_keeps [OF ok made] by blast
    then show ?thesis
      by (simp add: AddLoop AddEventLoop_def run comp_defs thread_of_def)
  next
    case (AddMain l)
    obtain b v where "addEventLoop (thread_of w l) (Some l) True w = (Inr b, v)" "registry_kept w v"
      using add_keeps [OF ok made] by blast
    then show ?thesis
      by (simp add: AddMain addMainLoop_def run comp_defs thread_of_def)
  next
    case NextLoop
    then show ?thesis
      using next_keeps [OF ok made] by (simp add: GetNextLoop_def run comp_defs)
  next
    case TheMain
    then show ?thesis
      using same given(2) by (simp add: GetMainLoop_def run comp_defs registered_def)
  next
    case (LoopOf t)
    then show ?thesis
      using same given(3) by (auto simp: GetLoop_def run comp_defs registered_def)
  qed
qed

lemma calls_keep:
  assumes "registry_ok w" "lpool_made w"
  shows "\<exists>xs v. registry_calls env cs w = (Inr xs, v) \<and> registry_kept w v \<and> length xs = length cs \<and>
    (\<forall>l. Some l \<in> set xs \<longrightarrow> registered v l)"
  using assms
proof (induction cs arbitrary: w)
  case Nil
  then show ?case by (simp add: comp_defs registry_kept_def)
next
  case (Cons c cs)
  obtain x v where v: "registry_do env c w = (Inr x, v)" "registry_kept w v"
      "\<And>l. x = Some l \<Longrightarrow> registered v l"
    using do_keeps [OF Cons.prems] by blast
  then have "registry_ok v" "lpool_made v"
    by (simp_all add: registry_kept_def)
  from Cons.IH [OF this] obtain xs u where u: "registry_calls env cs v = (Inr xs, u)" "registry_kept v u"
      "length xs = length cs" "\<And>l. Some l \<in> set xs \<Longrightarrow> registered u l"
    by blast
  moreover have "registered u l" if "x = Some l" for l
    using v(3) [OF that] u(2) by (simp add: registry_kept_def)
  ultimately show ?case
    using v registry_kept_trans [OF v(2) u(2)] by (auto simp: comp_defs)
qed

lemma do_first:
  assumes "lpool_Instance env w = (Inr (), v)" "lpool_made v"
  shows "registry_do env c w = registry_do env c v"
  using assms(1) Instance_made [OF assms(2), of env]
  by (cases c) (simp_all add: AddEventLoop_def addMainLoop_def GetNextLoop_def GetMainLoop_def
      GetLoop_def comp_defs)

lemma do_fails: "lpool_Instance env w = (Inl e, v) \<Longrightarrow> registry_do env c w = (Inl e, v)"
  by (cases c) (simp_all add: AddEventLoop_def addMainLoop_def GetNextLoop_def GetMainLoop_def
      GetLoop_def comp_defs)

lemma calls_first:
  assumes "registry_ok w" "\<not> lpool_made w" "cs \<noteq> []"
  obtains v where "registry_ok v" "loops v = loops w"
    "registry_calls env cs w = (Inl NullDeref, v) \<or>
     lpool_made v \<and> registry_calls env cs w = registry_calls env cs v"
proof -
  obtain c cs' where cs: "cs = c # cs'"
    using assms(3) by (cases cs) auto
  obtain r v where run: "lpool_Instance env w = (r, v)"
    by fastforce
  note v = Instance_run [OF run assms(1)]
  have "registry_calls env cs w = (Inl NullDeref, v) \<or>
      lpool_made v \<and> registry_calls env cs w = registry_calls env cs v"
    using v run do_first [of env w v c] do_fails [of env w NullDeref v c] by (auto simp: cs comp_defs)
  with v show thesis
    by (intro that [of v]) simp_all
qed

lemma registered_found:
  "registry_ok v \<Longrightarrow> lpool_made v \<Longrightarrow> registered v l \<Longrightarrow> GetLoop env (el_tid (loops v l)) v = (Inr (Some l), v)"
  by (simp add: GetLoop_run pool_ready_def registry_ok_def registered_def thread_of_def)

text \<open>
  C23. The registry is well-formed for ever, and what it gives out is usable: from a well-formed
  registry, or before there is one, any sequence of its operations leaves it well-formed (every
  loop under its own thread, no loop twice in the rotation, the main loop not in it) and does not
  touch the loops; it returns, unless the registry has still to be created and there is no memory
  for it; and every loop it gave out on the way is the one found under that loop's own thread in the end.
\<close>

theorem registry_stays_well_formed:
  assumes ok: "registry_ok w"
  shows "\<exists>r v. registry_calls env cs w = (r, v) \<and> registry_ok v \<and> loops v = loops w \<and>
    (case r of
       Inl e \<Rightarrow> e = NullDeref \<and> \<not> lpool_made w
     | Inr xs \<Rightarrow> length xs = length cs \<and>
         (\<forall>l. Some l \<in> set xs \<longrightarrow> GetLoop env (el_tid (loops v l)) v = (Inr (Some l), v)))"
proof -
  have made: ?thesis if u: "registry_ok u" "lpool_made u" "loops u = loops w"
      "registry_calls env cs w = registry_calls env cs u" for u
  proof -
    obtain xs v where v: "registry_calls env cs u = (Inr xs, v)" "registry_kept u v" "length xs = length cs"
        "\<And>l. Some l \<in> set xs \<Longrightarrow> registered v l"
      using calls_keep [OF u(1,2)] by blast
    then have "registry_ok v" "lpool_made v" "loops v = loops w"
      using u(3) by (simp_all add: registry_kept_def)
    moreover have "GetLoop env (el_tid (loops v l)) v = (Inr (Some l), v)" if "Some l \<in> set xs" for l
      using registered_found [OF calculation(1,2) v(4) [OF that]] .
    ultimately show ?thesis
      using u(4) v(1,3) by simp
  qed
  show ?thesis
  proof (cases "lpool_made w \<or> cs = []")
    case True
    then show ?thesis
      using ok made [of w] by (auto simp: comp_defs)
  next
    case False
    then obtain v where "registry_ok v" "loops v = loops w"
        "registry_calls env cs w = (Inl NullDeref, v) \<or>
         lpool_made v \<and> registry_calls env cs w = registry_calls env cs v"
      using calls_first [OF ok] by metis
    then show ?thesis
      using False made [of v] by auto
  qed
qed

definition demo_registry :: "demo_kernel base" where
  "demo_registry = (demo_base Map.empty (Events_new 1 9 0) Map.empty)
     \<lparr>lpool := EventLoopPool_new, lpool_made := True,
      loops := (\<lambda>l. ((loops (demo_base Map.empty (Events_new 1 9 0) Map.empty)) 0)\<lparr>el_tid := int l\<rparr>)\<rparr>"

lemma demo_registry_ok: "registry_ok demo_registry"
  using pool_wf_new
  by (simp add: registry_ok_def demo_registry_def EventLoopPool_new_def pool_lock_def Mutex_init_def)

theorem registry_stays_well_formed_witness:
  "\<exists>v. registry_calls demo_env [AddMain 1, NextLoop, AddLoop 2, AddLoop 2, AddLoop 1, NextLoop] demo_registry =
      (Inr [None, Some 1, None, None, None, Some 2], v) \<and> registry_ok v"
proof -
  let ?cs = "[AddMain 1, NextLoop, AddLoop 2, AddLoop 2, AddLoop 1, NextLoop]"
  have "fst (registry_calls demo_env ?cs demo_registry) = Inr [None, Some 1, None, None, None, Some 2]"
    by code_simp
  then show ?thesis
    using registry_stays_well_formed [OF demo_registry_ok, of demo_env ?cs] by (metis fst_conv)
qed

subsection \<open>A loop that changes its thread\<close>

text \<open>
  \<open>resetOwnerTid\<close> of a registered loop leaves the registry as it is: the loop is still given out, but
  under its new thread nobody is found.
\<close>

lemma moved_loop_not_found:
  assumes "registry_ok w" "lpool_made w" "nextLoops (lpool w) = [l]"
    "lp_loops (lpool w) tid = None"
  shows "\<exists>u v. resetOwnerTid tid l w = (Inr (), u) \<and> GetNextLoop env u = (Inr (Some l), v) \<and>
    el_tid (loops v l) = tid \<and> GetLoop env tid v = (Inr None, v)"
proof -
  let ?u = "upd_loop l (\<lambda>x. x\<lparr>el_tid := tid\<rparr>) w"
  have u: "lpool ?u = lpool w" "lpool_made ?u = lpool_made w" "el_tid (loops ?u l) = tid"
    by (simp_all add: upd_loop_def)
  have free: "\<not> mutex_held (pool_lock ?u)" "nextLoops (lpool ?u) \<noteq> []" "lpool_made ?u"
    using assms(1-3) u by (simp_all add: registry_ok_def pool_lock_def)
  have pos: "next_pos (lpool w) = 0"
    using next_pos_step(2) [of "lpool w"] assms(3) by simp
  let ?v = "?u\<lparr>lpool := (lpool ?u)\<lparr>lp_next := Suc (next_pos (lpool ?u))\<rparr>\<rparr>"
  have "GetNextLoop env ?u = (Inr (Some l), ?v)"
    using getNextLoop_run [OF free(1,2)] assms(3) pos
    by (simp add: GetNextLoop_def Instance_made [OF free(3)] comp_defs u)
  moreover have "GetLoop env tid ?v = (Inr None, ?v)"
    using free assms(4) by (simp add: GetLoop_run pool_ready_def pool_lock_def u)
  ultimately show ?thesis
    using u by (simp add: resetOwnerTid_def comp_defs)
qed

end
