(* ===== verification/Registry_Race.thy ===== *)
theory Registry_Race
  imports LoopRegistry Locked_Object
begin

text \<open>
  The registry of loops (base/EventLoopPool.cpp) called by many threads: every thread that makes a
  loop registers it, and the accepting thread asks for the next one in between. The statements of
  the operations are interleaved; the locale \<open>locked_object\<close> gives the atomic run they amount to.
\<close>

datatype pool_call = Add int "nat option" bool | Next | Get int | Main

datatype pool_answer = Added bool | Given "nat option"

text \<open>
  The places between two statements: in \<open>addEventLoop\<close> before the test, before the entry into
  \<open>loops_\<close>, before the entry into \<open>nextLoops_\<close> or \<open>mainLoop_\<close> and before the return; in
  \<open>getNextLoop\<close> before the test of the size, the wrap-around, the increment of the atomic \<open>next_\<close>
  and the access to the vector.
\<close>

datatype pool_loc =
    At_call pool_call
  | At_map int nat bool
  | At_list nat bool
  | At_true
  | At_wrap
  | At_increment
  | At_index nat

fun pool_micro :: "pool_loc \<Rightarrow> 'k base \<Rightarrow> (pool_loc + pool_answer) \<times> 'k base" where
  "pool_micro (At_call (Add tid loop ismain)) w = (case loop of
      None \<Rightarrow> (Inr (Added False), w)
    | Some l \<Rightarrow> if lp_loops (lpool w) tid \<noteq> None then (Inr (Added False), w)
        else (Inl (At_map tid l ismain), w))"
| "pool_micro (At_map tid l ismain) w =
    (Inl (At_list l ismain), w\<lparr>lpool := (lpool w)\<lparr>lp_loops := (lp_loops (lpool w))(tid \<mapsto> l)\<rparr>\<rparr>)"
| "pool_micro (At_list l ismain) w = (Inl At_true,
     if \<not> ismain then w\<lparr>lpool := (lpool w)\<lparr>nextLoops := nextLoops (lpool w) @ [l]\<rparr>\<rparr>
     else w\<lparr>lpool := (lpool w)\<lparr>mainLoop := Some l\<rparr>\<rparr>)"
| "pool_micro At_true w = (Inr (Added True), w)"
| "pool_micro (At_call Next) w =
    (if length (nextLoops (lpool w)) = 0 then (Inr (Given (mainLoop (lpool w))), w) else (Inl At_wrap, w))"
| "pool_micro At_wrap w = (Inl At_increment,
     if length (nextLoops (lpool w)) \<le> lp_next (lpool w) then w\<lparr>lpool := (lpool w)\<lparr>lp_next := 0\<rparr>\<rparr> else w)"
| "pool_micro At_increment w =
    (Inl (At_index (lp_next (lpool w))), w\<lparr>lpool := (lpool w)\<lparr>lp_next := Suc (lp_next (lpool w))\<rparr>\<rparr>)"
| "pool_micro (At_index n) w = (Inr (Given (Some (nextLoops (lpool w) ! n))), w)"
| "pool_micro (At_call (Get tid)) w = (Inr (Given (lp_loops (lpool w) tid)), w)"
| "pool_micro (At_call Main) w = (Inr (Given (mainLoop (lpool w))), w)"

fun pool_rank :: "pool_loc \<Rightarrow> nat" where
  "pool_rank (At_call c) = 3"
| "pool_rank (At_map tid l ismain) = 2"
| "pool_rank (At_list l ismain) = 1"
| "pool_rank At_wrap = 2"
| "pool_rank At_increment = 1"
| "pool_rank _ = 0"

text \<open>The operations as functions, from the sequential model.\<close>

fun pool_do :: "pool_call \<Rightarrow> ('k base, pool_answer) comp" where
  "pool_do (Add tid loop ismain) = bnd (addEventLoop tid loop ismain) (\<lambda>b. ret (Added b))"
| "pool_do Next = bnd getNextLoop (\<lambda>l. ret (Given l))"
| "pool_do (Get tid) = bnd (getLoop tid) (\<lambda>l. ret (Given l))"
| "pool_do Main = bnd getMainLoop (\<lambda>l. ret (Given l))"

definition pool_whole :: "pool_call \<Rightarrow> 'k base \<Rightarrow> pool_answer \<times> 'k base" where
  "pool_whole c w = (case pool_do c w of (Inr x, v) \<Rightarrow> (x, v) | (Inl e, v) \<Rightarrow> (Added False, v))"

text \<open>The registry is there, unlocked, and every loop it can give out is registered under some thread.\<close>

definition giveable :: "EventLoopPool \<Rightarrow> nat set" where
  "giveable p = set (nextLoops p) \<union> set_option (mainLoop p) \<union> ran (lp_loops p)"

definition pool_sound :: "'k base \<Rightarrow> bool" where
  "pool_sound w \<longleftrightarrow> lpool_made w \<and> \<not> mutex_held (pool_lock w) \<and>
    giveable (lpool w) \<subseteq> ran (lp_loops (lpool w))"

lemma pool_sound_free: "pool_sound w \<Longrightarrow> \<not> mutex_held (pool_lock w)"
  by (simp add: pool_sound_def)

lemma registry_sound: "registry_ok w \<Longrightarrow> lpool_made w \<Longrightarrow> pool_sound w"
  by (auto simp: registry_ok_def pool_sound_def giveable_def pool_wf_def intro: ranI)

lemma pool_whole_run:
  assumes "pool_sound w"
  shows "pool_whole (Add tid loop ismain) w = (case loop of
      None \<Rightarrow> (Added False, w)
    | Some l \<Rightarrow> if lp_loops (lpool w) tid \<noteq> None then (Added False, w)
        else (Added True, w\<lparr>lpool := (lpool w)\<lparr>lp_loops := (lp_loops (lpool w))(tid \<mapsto> l),
           nextLoops := (if ismain then nextLoops (lpool w) else nextLoops (lpool w) @ [l]),
           mainLoop := (if ismain then Some l else mainLoop (lpool w))\<rparr>\<rparr>))"
    and "pool_whole Next w = (if nextLoops (lpool w) = [] then (Given (mainLoop (lpool w)), w)
      else (Given (Some (nextLoops (lpool w) ! next_pos (lpool w))),
        w\<lparr>lpool := (lpool w)\<lparr>lp_next := Suc (next_pos (lpool w))\<rparr>\<rparr>))"
    and "pool_whole (Get tid) w = (Given (lp_loops (lpool w) tid), w)"
    and "pool_whole Main w = (Given (mainLoop (lpool w)), w)"
  using pool_sound_free [OF assms]
  by (auto simp: pool_whole_def comp_defs addEventLoop_run getLoop_run getMainLoop_run
      getNextLoop_run getNextLoop_main split: option.splits)

lemma pool_whole_ok:
  assumes ok: "pool_sound w" and run: "pool_whole c w = (x, v)"
  shows "pool_sound v" and "lp_loops (lpool w) \<subseteq>\<^sub>m lp_loops (lpool v)"
proof -
  note whole = pool_whole_run [OF ok]
  have g: "giveable (lpool w) \<subseteq> ran (lp_loops (lpool w))" and m: "lpool_made w" "\<not> mutex_held (pool_lock w)"
    using ok by (simp_all add: pool_sound_def)
  have "pool_sound v \<and> lp_loops (lpool w) \<subseteq>\<^sub>m lp_loops (lpool v)"
  proof (cases c)
    case (Add tid loop ismain)
    then show ?thesis
      using run g m ok
      by (auto simp: whole pool_sound_def giveable_def pool_lock_def map_le_def ran_map_upd split: option.splits if_splits)
  next
    case Next
    then show ?thesis
      using run g m ok by (auto simp: whole pool_sound_def giveable_def pool_lock_def split: if_splits)
  qed (use run ok in \<open>auto simp: whole\<close>)
  then show "pool_sound v" and "lp_loops (lpool w) \<subseteq>\<^sub>m lp_loops (lpool v)"
    by blast+
qed

text \<open>Where the statements of one call get to from the state \<open>a\<close> at its lock.\<close>

fun pool_reached :: "pool_call \<Rightarrow> 'k base \<Rightarrow> pool_loc \<Rightarrow> 'k base \<Rightarrow> bool" where
  "pool_reached c a (At_call d) w \<longleftrightarrow> d = c \<and> w = a"
| "pool_reached c a (At_map tid l ismain) w \<longleftrightarrow>
     c = Add tid (Some l) ismain \<and> lp_loops (lpool a) tid = None \<and> w = a"
| "pool_reached c a (At_list l ismain) w \<longleftrightarrow> (\<exists>tid. c = Add tid (Some l) ismain \<and>
     lp_loops (lpool a) tid = None \<and>
     w = a\<lparr>lpool := (lpool a)\<lparr>lp_loops := (lp_loops (lpool a))(tid \<mapsto> l)\<rparr>\<rparr>)"
| "pool_reached c a At_true w \<longleftrightarrow> pool_whole c a = (Added True, w)"
| "pool_reached c a At_wrap w \<longleftrightarrow> c = Next \<and> nextLoops (lpool a) \<noteq> [] \<and> w = a"
| "pool_reached c a At_increment w \<longleftrightarrow> c = Next \<and> nextLoops (lpool a) \<noteq> [] \<and>
     w = a\<lparr>lpool := (lpool a)\<lparr>lp_next := next_pos (lpool a)\<rparr>\<rparr>"
| "pool_reached c a (At_index n) w \<longleftrightarrow> c = Next \<and> nextLoops (lpool a) \<noteq> [] \<and>
     pool_whole c a = (Given (Some (nextLoops (lpool w) ! n)), w)"

lemma pool_reached_step:
  assumes ok: "pool_sound a" and r: "pool_reached c a l w" and m: "pool_micro l w = (Inl l', w')"
  shows "pool_reached c a l' w'"
  using r m
proof (cases l)
  case (At_call d)
  then show ?thesis
    using r m by (cases d) (auto split: option.splits if_splits)
next
  case At_wrap
  then show ?thesis
    using r m by (auto simp: next_pos_def)
qed (auto simp: pool_whole_run [OF ok] split: if_splits)

lemma pool_reached_last:
  assumes ok: "pool_sound a" and r: "pool_reached c a l w" and m: "pool_micro l w = (Inr x, w')"
  shows "pool_whole c a = (x, w')"
proof (cases l)
  case (At_call d)
  then show ?thesis
    using r m ok by (cases d) (auto simp: pool_whole_run split: option.splits if_splits)
qed (use r m in auto)

lemma pool_runs:
  assumes ok: "pool_sound a" and run: "runs_to pool_micro (At_call c, a) (l, w)"
  shows "pool_reached c a l w"
  using run unfolding runs_to_def
proof (induction "(l, w)" arbitrary: l w rule: rtranclp_induct)
  case (step d)
  then show ?case
    using pool_reached_step [OF ok] by (cases d) auto
qed simp

interpretation registry_lock: locked_object At_call pool_micro pool_whole pool_sound pool_rank
proof
  fix a :: "'a base" and c l w x w'
  assume "pool_sound a" "runs_to pool_micro (At_call c, a) (l, w)" "pool_micro l w = (Inr x, w')"
  then show "pool_whole c a = (x, w')"
    using pool_runs pool_reached_last by blast
next
  fix a a' :: "'a base" and c x
  show "pool_sound a \<Longrightarrow> pool_whole c a = (x, a') \<Longrightarrow> pool_sound a'"
    by (rule pool_whole_ok)
next
  fix l l' and w w' :: "'a base"
  assume m: "pool_micro l w = (Inl l', w')"
  show "pool_rank l' < pool_rank l"
  proof (cases l)
    case (At_call d)
    then show ?thesis using m by (cases d) (auto split: option.splits if_splits)
  qed (use m in auto)
qed

subsection \<open>What the threads see\<close>

lemma calls_sound:
  assumes "atomically pool_whole cs w = (xs, v)" "pool_sound w"
  shows "pool_sound v \<and> lp_loops (lpool w) \<subseteq>\<^sub>m lp_loops (lpool v)"
  using assms
proof (induction cs arbitrary: w xs)
  case (Cons c cs)
  obtain x u where u: "pool_whole c w = (x, u)" by fastforce
  with Cons show ?case
    using pool_whole_ok [OF Cons.prems(2) u] by (auto split: prod.splits dest: map_le_trans)
qed simp

text \<open>What an answer in a run of atomic operations says about the registry before and afterwards.\<close>

lemma call_given:
  assumes "atomically pool_whole cs w = (xs, v)" "pool_sound w" "i < length cs" "xs ! i = Given (Some l)"
  shows "l \<in> ran (lp_loops (lpool v))"
proof -
  obtain u u' where u: "atomically pool_whole (take i cs) w = (take i xs, u)"
      "pool_whole (cs ! i) u = (xs ! i, u')"
      "atomically pool_whole (drop (Suc i) cs) u' = (drop (Suc i) xs, v)"
    using atomically_nth [OF assms(1,3)] by blast
  have s: "pool_sound u" "pool_sound u'"
    using calls_sound [OF u(1) assms(2)] pool_whole_ok(1) [OF _ u(2)] by blast+
  have "l \<in> giveable (lpool u)"
    using u(2) assms(4) next_pos_step(2) [of "lpool u"] s(1)
    by (cases "cs ! i") (auto simp: pool_whole_run giveable_def intro: ranI split: option.splits if_splits)
  then have "l \<in> ran (lp_loops (lpool u))"
    using s(1) by (auto simp: pool_sound_def)
  moreover have "lp_loops (lpool u) \<subseteq>\<^sub>m lp_loops (lpool v)"
    using pool_whole_ok(2) [OF s(1) u(2)] calls_sound [OF u(3) s(2)] map_le_trans by blast
  ultimately show ?thesis
    by (auto simp: ran_def map_le_def dom_def) metis
qed

lemma call_added:
  assumes "atomically pool_whole cs w = (xs, v)" "pool_sound w" "i < length cs"
    "cs ! i = Add tid loop ismain" "xs ! i = Added True"
  shows "lp_loops (lpool w) tid = None" "loop \<noteq> None" "lp_loops (lpool v) tid = loop"
proof -
  obtain u u' where u: "atomically pool_whole (take i cs) w = (take i xs, u)"
      "pool_whole (cs ! i) u = (xs ! i, u')"
      "atomically pool_whole (drop (Suc i) cs) u' = (drop (Suc i) xs, v)"
    using atomically_nth [OF assms(1,3)] by blast
  have s: "pool_sound u" "lp_loops (lpool w) \<subseteq>\<^sub>m lp_loops (lpool u)"
    using calls_sound [OF u(1) assms(2)] by blast+
  then have s': "pool_sound u'"
    using pool_whole_ok(1) u(2) by blast
  obtain l where l: "loop = Some l" "lp_loops (lpool u) tid = None" "lp_loops (lpool u') tid = Some l"
    using u(2) assms(4,5) s(1) by (auto simp: pool_whole_run split: option.splits if_splits)
  then show "loop \<noteq> None" "lp_loops (lpool w) tid = None" "lp_loops (lpool v) tid = loop"
    using s(2) calls_sound [OF u(3) s'] by (auto simp: map_le_def dom_def)
qed

lemma added_once:
  assumes run: "atomically pool_whole cs w = (xs, v)" and ok: "pool_sound w"
    and i: "cs ! i = Add tid loop ismain" "xs ! i = Added True" "i < j"
    and j: "j < length cs" "cs ! j = Add tid loop' ismain'" "xs ! j = Added True"
  shows False
proof -
  obtain u u' where u: "atomically pool_whole (take j cs) w = (take j xs, u)"
      "pool_whole (cs ! j) u = (xs ! j, u')"
    using atomically_nth [OF run j(1)] by blast
  have "lp_loops (lpool u) tid = loop" "loop \<noteq> None"
    using call_added [OF u(1) ok, of i] i j(1) by simp_all
  then show False
    using u(2) j(2,3) calls_sound [OF u(1) ok] by (auto simp: pool_whole_run split: option.splits if_splits)
qed

text \<open>
  C36. The registry under concurrent callers: from a well-formed registry, however the statements
  of the calls of any number of threads are interleaved, the answers are those of some sequence of
  the sequential operations, in which every call that has an answer has its own place; every
  loop a thread was given is registered in the end; whoever was told that its loop was added
  had no predecessor under this thread id and is found under it in the end, and at most one thread is
  told so for one id; nobody sees the registry between two statements of another thread, and a
  thread that waits for the lock can still get it.
\<close>

theorem registry_atomic:
  fixes w :: "'k base"
  assumes ok: "registry_ok w" "lpool_made w" and run: "(cstep At_call pool_micro)\<^sup>*\<^sup>* (cstart w) s"
  shows "\<exists>cs xs place v. atomically pool_whole cs w = (xs, v) \<and> linearised cs xs place s \<and>
    (idle s \<longrightarrow> shared s = v) \<and>
    (\<forall>t c l. result_of s t c (Given (Some l)) \<longrightarrow> l \<in> ran (lp_loops (lpool v))) \<and>
    (\<forall>t tid loop m. result_of s t (Add tid loop m) (Added True) \<longrightarrow>
       lp_loops (lpool w) tid = None \<and> loop \<noteq> None \<and> lp_loops (lpool v) tid = loop) \<and>
    (\<forall>t t' tid loop loop' m m'. result_of s t (Add tid loop m) (Added True) \<longrightarrow>
       result_of s t' (Add tid loop' m') (Added True) \<longrightarrow> t = t') \<and>
    (\<forall>t t'. critical (cpcs s t) \<longrightarrow> critical (cpcs s t') \<longrightarrow> t = t') \<and>
    (\<forall>t c. cpcs s t = Wanting c \<longrightarrow>
       (\<exists>s'. (cstep At_call pool_micro)\<^sup>*\<^sup>* s s' \<and> cpcs s' t = Inside c (At_call c)))"
proof -
  have sound: "pool_sound w"
    using ok by (rule registry_sound)
  obtain cs xs place v where v: "atomically pool_whole cs w = (xs, v)" "registry_lock.simulated s v"
      and lin: "linearised cs xs place s"
    using registry_lock.interleaved_run [OF run sound] by blast
  have at: "place t < length cs" "cs ! place t = c" "xs ! place t = r" if "result_of s t c r" for t c r
    using lin that unfolding linearised_def by blast+
  have ex: "exclusive s" and idle: "idle s \<longrightarrow> shared s = v"
    using v(2) by (simp_all add: registry_lock.simulated_def)
  have given: "\<forall>t c l. result_of s t c (Given (Some l)) \<longrightarrow> l \<in> ran (lp_loops (lpool v))"
  proof (intro allI impI)
    fix t c l
    assume r: "result_of s t c (Given (Some l))"
    show "l \<in> ran (lp_loops (lpool v))"
      using call_given [OF v(1) sound at(1) [OF r] at(3) [OF r]] .
  qed
  have added: "\<forall>t tid loop m. result_of s t (Add tid loop m) (Added True) \<longrightarrow>
      lp_loops (lpool w) tid = None \<and> loop \<noteq> None \<and> lp_loops (lpool v) tid = loop"
  proof (intro allI impI)
    fix t tid loop m
    assume r: "result_of s t (Add tid loop m) (Added True)"
    show "lp_loops (lpool w) tid = None \<and> loop \<noteq> None \<and> lp_loops (lpool v) tid = loop"
      using call_added [OF v(1) sound at [OF r]] by simp
  qed
  have once: "\<forall>t t' tid loop loop' m m'. result_of s t (Add tid loop m) (Added True) \<longrightarrow>
      result_of s t' (Add tid loop' m') (Added True) \<longrightarrow> t = t'"
  proof (intro allI impI)
    fix t t' tid loop loop' m m'
    assume r: "result_of s t (Add tid loop m) (Added True)" "result_of s t' (Add tid loop' m') (Added True)"
    have "\<not> place t < place t'"
      using added_once [OF v(1) sound at(2,3) [OF r(1)] _ at [OF r(2)]] by (rule notI)
    moreover have "\<not> place t' < place t"
      using added_once [OF v(1) sound at(2,3) [OF r(2)] _ at [OF r(1)]] by (rule notI)
    ultimately have "place t = place t'" by simp
    with r show "t = t'"
      using lin unfolding linearised_def by blast
  qed
  have "\<forall>t t'. critical (cpcs s t) \<longrightarrow> critical (cpcs s t') \<longrightarrow> t = t'"
    using exclusive_other [OF ex] by blast
  moreover have "\<forall>t c. cpcs s t = Wanting c \<longrightarrow>
      (\<exists>s'. (cstep At_call pool_micro)\<^sup>*\<^sup>* s s' \<and> cpcs s' t = Inside c (At_call c))"
    using registry_lock.nobody_starves [OF ex] by blast
  ultimately show ?thesis
    using v(1) lin idle given added once by blast
qed

text \<open>
  Two threads register loop 1 and loop 2 under the thread id 5 while a third asks for a loop between
  the statements of the first: it gets loop 1 although it asked before loop 1 was in the rotation.
\<close>

theorem registry_atomic_witness:
  "\<exists>s :: (demo_kernel base, pool_call, pool_loc, pool_answer) cstate.
     (cstep At_call pool_micro)\<^sup>*\<^sup>* (cstart demo_registry) s \<and>
     cpcs s 1 = Returned (Add 5 (Some 1) False) (Added True) \<and>
     cpcs s 2 = Returned (Add 5 (Some 2) False) (Added False) \<and>
     cpcs s 3 = Leaving Next (Given (Some 1)) \<and>
     (\<exists>cs xs place v. atomically pool_whole cs demo_registry = (xs, v) \<and> linearised cs xs place s \<and>
       1 \<in> ran (lp_loops (lpool v)) \<and> lp_loops (lpool v) 5 = Some 1)"
proof -
  let ?go = "schedule At_call pool_micro
    [(1, Some (Add 5 (Some 1) False)), (2, Some (Add 5 (Some 2) False)), (1, None), (2, None), (1, None),
     (3, Some Next), (3, None), (1, None), (1, None), (1, None), (1, None), (2, None), (2, None), (2, None),
     (3, None), (3, None), (3, None), (3, None), (3, None)]"
  let ?s = "?go (cstart demo_registry)"
  have at: "cpcs ?s 1 = Returned (Add 5 (Some 1) False) (Added True)"
      "cpcs ?s 2 = Returned (Add 5 (Some 2) False) (Added False)"
      "cpcs ?s 3 = Leaving Next (Given (Some 1))"
    by code_simp+
  have run: "(cstep At_call pool_micro)\<^sup>*\<^sup>* (cstart demo_registry) ?s"
    by (rule schedule_run)
  have made: "lpool_made demo_registry"
    by (simp add: demo_registry_def)
  have "result_of ?s 1 (Add 5 (Some 1) False) (Added True)" "result_of ?s 3 Next (Given (Some 1))"
    using at by (simp_all add: result_of_def)
  then show ?thesis
    using registry_atomic [OF demo_registry_ok made run] run at by metis
qed

end
