(* ===== verification/Loop_Race.thy ===== *)
theory Loop_Race
  imports EventLoop
begin

text \<open>
  A loop (base/EventLoop.cpp) that runs in its thread while other threads stop it with \<open>quit\<close> and
  register events. \<open>quit_\<close> is a plain \<open>bool\<close> that \<open>quit\<close> writes and \<open>loop\<close> reads outside the lock; the
  steps below are interleaved as if every access to it took effect at once.
\<close>

subsection \<open>The statements\<close>

text \<open>The two statements of \<open>quit\<close>, and the lookup of the loop's body apart from the rest of it.\<close>

definition set_quit :: "nat \<Rightarrow> ('k base, unit) comp" where
  "set_quit l = modify (upd_loop l (\<lambda>x. x\<lparr>el_quit := True\<rparr>))"

definition quit_wake :: "'k sys \<Rightarrow> int \<Rightarrow> nat \<Rightarrow> ('k base, unit) comp" where
  "quit_wake S tid l = bnd (gets (\<lambda>w. el_tid (loops w l))) (\<lambda>owner.
     if owner \<noteq> tid then MutexLocker (loop_mutex l) (set_loop_mutex l) (wakeupLoop S l) else ret ())"

lemma quit_statements: "quit S tid l = seq (set_quit l) (quit_wake S tid l)"
  by (simp add: quit_def set_quit_def quit_wake_def)

definition find_event :: "nat \<Rightarrow> epoll_event \<Rightarrow> ('k base, nat option) comp" where
  "find_event l ev = MutexLocker (loop_mutex l) (set_loop_mutex l)
     (gets (\<lambda>w. el_events (loops w l) (ep_fd ev)))"

definition handle_found :: "'k sys \<Rightarrow> int \<Rightarrow> nat \<Rightarrow> epoll_event \<Rightarrow> nat option \<Rightarrow> ('k base, nat option) comp" where
  "handle_found S tid l ev events = (case events of
      None \<Rightarrow> ret None
    | Some e \<Rightarrow> seq (upd_ev e (setMutable (ep_events ev)))
        (bnd (eventHandleAble e) (\<lambda>able.
          if \<not> able then ret None
          else bnd (get_ev e) (\<lambda>event.
            bnd (gets (\<lambda>w. wakeFd (loops w l))) (\<lambda>wfd.
              if wfd = ev_fd event then seq (HandleWake S wfd) (ret None)
              else GetMcoRoutine tid (ev_fd event))))))"

lemma handle_statements: "handle_begin S tid l ev = bnd (find_event l ev) (handle_found S tid l ev)"
  by (simp add: handle_begin_def find_event_def handle_found_def fun_eq_iff bnd_apply
      split: sum.split prod.split)

definition resume_found ::
  "env \<Rightarrow> 'k sys \<Rightarrow> (nat \<Rightarrow> ('k base, unit) comp) \<Rightarrow> int \<Rightarrow> nat option \<Rightarrow> ('k base, unit) comp" where
  "resume_found env S resume tid mco = (case mco of
     None \<Rightarrow> ret () | Some c \<Rightarrow> seq (resume c) (cont_drop env S tid c))"

lemma handle_one_statements:
  "handle_one env S resume tid l ev = bnd (handle_begin S tid l ev) (resume_found env S resume tid)"
  by (simp add: handle_one_def resume_found_def [abs_def])

subsection \<open>The interleaved steps\<close>

text \<open>
  The loop's thread is before the test of \<open>quit_\<close>, before or in \<open>epoll_wait\<close>, before the lookup, after
  the lookup or before the resume for one of the events that occurred, or has returned. Another
  thread is outside \<open>quit\<close>, between its statements, or back from it.
\<close>

datatype loop_pc =
    At_while
  | At_poll
  | At_for "epoll_event list"
  | At_found epoll_event "nat option" "epoll_event list"
  | At_resume "nat option" "epoll_event list"
  | Ended

datatype quit_pc = Not_quitting | Quit_set | Quit_done

record 'k lrun =
  lworld :: "'k base"
  lpc :: loop_pc
  qpcs :: "int \<Rightarrow> quit_pc"

text \<open>The next step of the loop's thread; there is none when it has returned or when a call fails.\<close>

definition going :: "'k base \<times> loop_pc \<Rightarrow> 'k lrun \<Rightarrow> 'k lrun" where
  "going c s = s\<lparr>lworld := fst c, lpc := snd c\<rparr>"

definition proceed :: "('k base, 'a) comp \<Rightarrow> ('a \<Rightarrow> loop_pc) \<Rightarrow> 'k base \<Rightarrow> ('k base \<times> loop_pc) option" where
  "proceed m pc w = (case m w of (Inr x, v) \<Rightarrow> Some (v, pc x) | (Inl e, v) \<Rightarrow> None)"

fun loop_turn ::
  "env \<Rightarrow> 'k sys \<Rightarrow> (nat \<Rightarrow> ('k base, unit) comp) \<Rightarrow> int \<Rightarrow> nat \<Rightarrow> nat \<Rightarrow> loop_pc \<Rightarrow> 'k base \<Rightarrow>
    ('k base \<times> loop_pc) option"
where
  "loop_turn env S resume tid l fw At_while w =
     proceed (gets (\<lambda>w. el_quit (loops w l))) (\<lambda>q. if q then Ended else At_poll) w"
| "loop_turn env S resume tid l fw At_poll w = proceed (poll_loop S fw l) At_for w"
| "loop_turn env S resume tid l fw (At_for []) w = Some (w, At_while)"
| "loop_turn env S resume tid l fw (At_for (ev # evs)) w =
     proceed (find_event l ev) (\<lambda>events. At_found ev events evs) w"
| "loop_turn env S resume tid l fw (At_found ev events evs) w =
     proceed (handle_found S tid l ev events) (\<lambda>mco. At_resume mco evs) w"
| "loop_turn env S resume tid l fw (At_resume mco evs) w =
     proceed (resume_found env S resume tid mco) (\<lambda>_. At_for evs) w"
| "loop_turn env S resume tid l fw Ended w = None"

text \<open>
  Steps of all threads; the label says whether it is one of the loop's own. \<open>others\<close> is what other
  threads do to the state apart from \<open>quit\<close>.
\<close>

inductive lstep ::
  "env \<Rightarrow> 'k sys \<Rightarrow> (nat \<Rightarrow> ('k base, unit) comp) \<Rightarrow> ('k base \<Rightarrow> 'k base \<Rightarrow> bool) \<Rightarrow> int \<Rightarrow> nat \<Rightarrow> nat \<Rightarrow>
    bool \<Rightarrow> 'k lrun \<Rightarrow> 'k lrun \<Rightarrow> bool"
  for env S resume others tid l fw
where
  l_own: "loop_turn env S resume tid l fw (lpc s) (lworld s) = Some c \<Longrightarrow>
    lstep env S resume others tid l fw True s (going c s)"
| l_set: "t \<noteq> tid \<Longrightarrow> qpcs s t \<noteq> Quit_set \<Longrightarrow> set_quit l (lworld s) = (Inr (), w) \<Longrightarrow>
    lstep env S resume others tid l fw False s (s\<lparr>lworld := w, qpcs := (qpcs s)(t := Quit_set)\<rparr>)"
| l_wake: "t \<noteq> tid \<Longrightarrow> qpcs s t = Quit_set \<Longrightarrow> quit_wake S t l (lworld s) = (Inr (), w) \<Longrightarrow>
    lstep env S resume others tid l fw False s (s\<lparr>lworld := w, qpcs := (qpcs s)(t := Quit_done)\<rparr>)"
| l_other: "others (lworld s) w \<Longrightarrow> lstep env S resume others tid l fw False s (s\<lparr>lworld := w\<rparr>)"

inductive lruns ::
  "env \<Rightarrow> 'k sys \<Rightarrow> (nat \<Rightarrow> ('k base, unit) comp) \<Rightarrow> ('k base \<Rightarrow> 'k base \<Rightarrow> bool) \<Rightarrow> int \<Rightarrow> nat \<Rightarrow> nat \<Rightarrow>
    bool list \<Rightarrow> 'k lrun \<Rightarrow> 'k lrun \<Rightarrow> bool"
  for env S resume others tid l fw
where
  lr_done: "lruns env S resume others tid l fw [] s s"
| lr_step: "lstep env S resume others tid l fw b s s' \<Longrightarrow> lruns env S resume others tid l fw bs s' s'' \<Longrightarrow>
    lruns env S resume others tid l fw (b # bs) s s''"

subsection \<open>What the wake-up rests on\<close>

text \<open>
  The eventfd: a \<open>write\<close> leaves its counter positive, even if the counter is at its maximum
  (eventfd(2)), and \<open>epoll_wait\<close> does not put the caller to sleep while a watched descriptor is ready
  (epoll\_wait(2)). None of the loop's calls but \<open>epoll_ctl\<close> changes what is watched. \<open>count k\<close> is the
  counter of descriptor \<open>wfd\<close>, \<open>sleeps k epfd\<close> says that \<open>epoll_wait\<close> would put its caller to sleep.
\<close>

definition eventfd_spec ::
  "'k sys \<Rightarrow> int \<Rightarrow> ('k \<Rightarrow> nat) \<Rightarrow> ('k \<Rightarrow> int \<Rightarrow> int \<rightharpoonup> emask) \<Rightarrow> ('k \<Rightarrow> int \<Rightarrow> bool) \<Rightarrow> bool"
where
  "eventfd_spec S wfd count watch sleeps \<longleftrightarrow>
    (\<forall>k. 0 < count (snd (sys_write8 S wfd k)) \<and> watch (snd (sys_write8 S wfd k)) = watch k \<and>
       watch (snd (sys_read S wfd 8 k)) = watch k \<and> watch (snd (sys_now S k)) = watch k) \<and>
    (\<forall>fd n t k. watch (snd (sys_epoll_wait S fd n t k)) = watch k) \<and>
    (\<forall>k epfd m. 0 < count k \<longrightarrow> watch k epfd wfd = Some m \<longrightarrow> m AND POLLIN \<noteq> 0 \<longrightarrow> \<not> sleeps k epfd)"

text \<open>The wake-up event is registered for reading with the loop's poller.\<close>

definition wired :: "('k \<Rightarrow> int \<Rightarrow> int \<rightharpoonup> emask) \<Rightarrow> int \<Rightarrow> int \<Rightarrow> nat \<Rightarrow> 'k base \<Rightarrow> bool" where
  "wired watch wfd tid l w \<longleftrightarrow> wakeFd (loops w l) = wfd \<and> el_tid (loops w l) = tid \<and>
    (\<exists>p m. el_poll (loops w l) = Some p \<and> watch (kern w) (epoll_fd p) wfd = Some m \<and> m AND POLLIN \<noteq> 0)"

text \<open>What the user's code must leave alone: the loop's fields, the wake-up descriptor, and \<open>quit_\<close> once set.\<close>

definition undisturbed :: "('k \<Rightarrow> int \<Rightarrow> int \<rightharpoonup> emask) \<Rightarrow> nat \<Rightarrow> 'k base \<Rightarrow> 'k base \<Rightarrow> bool" where
  "undisturbed watch l w v \<longleftrightarrow> el_poll (loops v l) = el_poll (loops w l) \<and>
    wakeFd (loops v l) = wakeFd (loops w l) \<and> el_tid (loops v l) = el_tid (loops w l) \<and>
    (el_quit (loops w l) \<longrightarrow> el_quit (loops v l)) \<and>
    (\<forall>p. el_poll (loops w l) = Some p \<longrightarrow>
       watch (kern v) (epoll_fd p) (wakeFd (loops w l)) = watch (kern w) (epoll_fd p) (wakeFd (loops w l)))"

lemma undisturbed_refl: "undisturbed watch l w w"
  by (simp add: undisturbed_def)

lemma undisturbed_same:
  "loops v l = loops w l \<Longrightarrow> watch (kern v) = watch (kern w) \<Longrightarrow> undisturbed watch l w v"
  by (simp add: undisturbed_def)

lemma undisturbed_wired: "undisturbed watch l w v \<Longrightarrow> wired watch wfd tid l w \<Longrightarrow> wired watch wfd tid l v"
  by (auto simp: undisturbed_def wired_def)

lemma find_event_run:
  assumes "find_event l ev w = (Inr events, v)"
  shows "v = w \<and> events = el_events (loops w l) (ep_fd ev)"
proof (cases "mutex_held (loop_mutex l w)")
  case True
  then show ?thesis
    using assms loop_lock.locker_deadlock [of l w "gets (\<lambda>w. el_events (loops w l) (ep_fd ev))"]
    by (simp add: find_event_def loop_lock.free_def)
next
  case False
  then show ?thesis
    using assms locked_find [OF False, of "ep_fd ev"] by (auto simp: find_event_def)
qed

lemma quit_wake_run:
  assumes "quit_wake S t l w = (Inr (), v)" "el_tid (loops w l) \<noteq> t"
  shows "v = w\<lparr>kern := snd (sys_write8 S (wakeFd (loops w l)) (kern w))\<rparr>"
proof -
  let ?body = "wakeupLoop S l"
  have run: "MutexLocker (loop_mutex l) (set_loop_mutex l) ?body w = (Inr (), v)"
    using assms by (simp add: quit_wake_def comp_defs)
  then have free: "loop_lock.free l w"
    using loop_lock.locker_deadlock [of l w ?body] by fastforce
  let ?h = "loop_lock.held l w"
  have body: "?body ?h = (Inr (), ?h\<lparr>kern := snd (sys_write8 S (wakeFd (loops w l)) (kern w))\<rparr>)"
    by (simp add: wakeupLoop_def comp_defs loop_lock.held_def set_loop_mutex_def upd_loop_def)
  have "loop_lock.released l (?h\<lparr>kern := k\<rparr>) = (loop_lock.released l ?h)\<lparr>kern := k\<rparr>" for k
    by (simp add: loop_lock.released_def set_loop_mutex_def upd_loop_def loop_mutex_def)
  then show ?thesis
    using run body loop_lock.locker_free [OF free, of ?body] loop_lock.released_held [OF free] by simp
qed

lemma GetMcoRoutine_elsewhere:
  assumes "GetMcoRoutine tid fd w = (r, v)"
  shows "loops v = loops w \<and> kern v = kern w"
proof -
  have put [simp]: "loops (mcopools_put p u) = loops u" "kern (mcopools_put p u) = kern u"
      "loops (own c u) = loops u" "kern (own c u) = kern u" for p c and u :: "'a base"
    by (simp_all add: mcopools_put_def own_def split: option.split)
  show ?thesis
    using assms by (auto simp: GetMcoRoutine_def GetMcoPool_def getT_def Item_def Instance_def MutexLocker_def
      set_inst_mutex_def set_item_def Mutex_lock_def Mutex_unlock_def comp_defs
      split: if_splits prod.splits sum.splits option.splits)
qed

lemma handle_found_undisturbed:
  assumes spec: "eventfd_spec S wfd count watch sleeps" and wfd: "wakeFd (loops w l) = wfd"
    and run: "handle_found S tid l ev events w = (Inr mco, v)"
  shows "undisturbed watch l w v"
proof (cases events)
  case None
  then show ?thesis
    using run by (simp add: handle_found_def undisturbed_refl)
next
  case (Some e)
  have read: "watch (snd (sys_read S wfd 8 k)) = watch k" for k
    using spec by (simp add: eventfd_spec_def)
  obtain x where x: "evobjs w e = Some x"
    using run Some by (cases "evobjs w e") (simp_all add: handle_found_def comp_defs upd_ev_def get_ev_def)
  have "handle_found S tid l ev events w =
      bnd (seq (upd_ev e (setMutable (ep_events ev))) (eventHandleAble e)) (\<lambda>able.
        if \<not> able then ret None
        else bnd (get_ev e) (\<lambda>event. bnd (gets (\<lambda>w. wakeFd (loops w l))) (\<lambda>wfd.
          if wfd = ev_fd event then seq (HandleWake S wfd) (ret None)
          else GetMcoRoutine tid (ev_fd event)))) w"
    by (auto simp: handle_found_def Some comp_defs split: prod.splits sum.splits)
  note found = run [unfolded this eventHandleAble_run [OF x]]
  let ?w = "put_ev e (after_occurrence (ep_events ev) x) w"
  have same: "loops ?w = loops w" "kern ?w = kern w"
    by (simp_all add: put_ev_def)
  then have "undisturbed watch l ?w v"
    using found read wfd GetMcoRoutine_elsewhere [of tid _ ?w "Inr mco" v]
    by (auto simp: comp_defs HandleWake_def put_ev_def intro!: undisturbed_same split: if_splits)
  then show ?thesis
    using same by (simp add: undisturbed_def)
qed

lemma loopWait_watch:
  "eventfd_spec S wfd count watch sleeps \<Longrightarrow> loopWait S f fd n t k = (x, k') \<Longrightarrow> watch k' = watch k"
proof (induction f arbitrary: k)
  case (Suc f)
  have "watch (snd (sys_epoll_wait S fd n t k)) = watch k"
    using Suc.prems(1) by (simp add: eventfd_spec_def)
  then show ?case
    using Suc by (auto simp: comp_defs split: wait_result.splits)
qed (simp add: comp_defs)

lemma poll_loop_run:
  assumes spec: "eventfd_spec S wfd count watch sleeps" and bounded: "wait_bounded S"
    and p: "el_poll (loops w l) = Some p" and run: "poll_loop S fw l w = (Inr occur, v)"
  shows "length occur \<le> maxNum p \<and> (\<exists>p'. loops v = (loops w)(l := (loops w l)\<lparr>el_poll := Some p'\<rparr>) \<and>
    epoll_fd p' = epoll_fd p) \<and> watch (kern v) = watch (kern w)"
proof -
  obtain x k where x: "loopWait S fw (epoll_fd p) (maxNum p) 2000000 (kern w) = (x, k)"
    by fastforce
  have now: "watch (snd (sys_now S k)) = watch k"
    using spec by (simp add: eventfd_spec_def)
  show ?thesis
  proof (cases x)
    case (Inr y)
    obtain r evs where y: "y = (r, evs)" by fastforce
    with x Inr have xi: "loopWait S fw (epoll_fd p) (maxNum p) 2000000 (kern w) = (Inr (r, evs), k)" by simp
    have "length evs \<le> maxNum p" "nat r \<le> maxNum p"
      using loopWait_bounded [OF bounded xi] loopWait_result [OF xi] by auto
    then show ?thesis
      using run p xi now loopWait_watch [OF spec x]
      by (auto simp: poll_loop_def comp_defs Epoll_Loop_def Let_def rev_clear_def rev_resize_def
          upd_loop_def split: if_splits)
  qed (use run p x in \<open>simp add: poll_loop_def comp_defs Epoll_Loop_def\<close>)
qed

subsection \<open>No wake-up is lost\<close>

text \<open>
  What every reachable state satisfies: once a \<open>quit\<close> has set \<open>quit_\<close> it stays set, and if one has
  returned while the loop is before or in \<open>epoll_wait\<close>, its wake-up is still in the eventfd.
\<close>

definition loop_inv :: "('k \<Rightarrow> nat) \<Rightarrow> ('k \<Rightarrow> int \<Rightarrow> int \<rightharpoonup> emask) \<Rightarrow> int \<Rightarrow> int \<Rightarrow> nat \<Rightarrow> 'k lrun \<Rightarrow> bool" where
  "loop_inv count watch wfd tid l s \<longleftrightarrow> wired watch wfd tid l (lworld s) \<and>
    ((\<exists>t. qpcs s t \<noteq> Not_quitting) \<longrightarrow> el_quit (loops (lworld s) l)) \<and>
    (lpc s = Ended \<longrightarrow> el_quit (loops (lworld s) l)) \<and>
    ((\<exists>t. qpcs s t = Quit_done) \<and> lpc s = At_poll \<longrightarrow> 0 < count (kern (lworld s)))"

text \<open>The user's code and the other threads; the latter do not read the loop's eventfd.\<close>

definition harmless ::
  "env \<Rightarrow> 'k sys \<Rightarrow> (nat \<Rightarrow> ('k base, unit) comp) \<Rightarrow> ('k base \<Rightarrow> 'k base \<Rightarrow> bool) \<Rightarrow> ('k \<Rightarrow> nat) \<Rightarrow>
    ('k \<Rightarrow> int \<Rightarrow> int \<rightharpoonup> emask) \<Rightarrow> int \<Rightarrow> int \<Rightarrow> nat \<Rightarrow> bool"
where
  "harmless env S resume others count watch wfd tid l \<longleftrightarrow> (\<forall>w v. wired watch wfd tid l w \<longrightarrow>
    (\<forall>mco. resume_found env S resume tid mco w = (Inr (), v) \<longrightarrow> undisturbed watch l w v) \<and>
    (others w v \<longrightarrow> undisturbed watch l w v \<and> (0 < count (kern w) \<longrightarrow> 0 < count (kern v))))"

lemma harmless_resume:
  "harmless env S resume others count watch wfd tid l \<Longrightarrow> wired watch wfd tid l w \<Longrightarrow>
    resume_found env S resume tid mco w = (Inr (), v) \<Longrightarrow> undisturbed watch l w v"
  unfolding harmless_def by blast

lemma harmless_other:
  assumes "harmless env S resume others count watch wfd tid l" "wired watch wfd tid l w" "others w v"
  shows "undisturbed watch l w v" "0 < count (kern w) \<Longrightarrow> 0 < count (kern v)"
  using assms unfolding harmless_def by blast+

lemma own_step_inv:
  assumes spec: "eventfd_spec S wfd count watch sleeps" and bounded: "wait_bounded S"
    and harm: "harmless env S resume others count watch wfd tid l"
    and inv: "loop_inv count watch wfd tid l s"
    and turn: "loop_turn env S resume tid l fw (lpc s) (lworld s) = Some (v, pc)"
  shows "loop_inv count watch wfd tid l (going (v, pc) s)"
proof -
  note parts = inv [unfolded loop_inv_def]
  have keep: ?thesis if "undisturbed watch l (lworld s) v" "pc \<noteq> At_poll" "pc \<noteq> Ended"
    using that parts undisturbed_wired [OF that(1)] by (auto simp: loop_inv_def going_def undisturbed_def)
  show ?thesis
  proof (cases "lpc s")
    case At_while
    then show ?thesis
      using turn parts by (auto simp: proceed_def comp_defs loop_inv_def going_def split: if_splits)
  next
    case At_poll
    then obtain occur where run: "poll_loop S fw l (lworld s) = (Inr occur, v)" "pc = At_for occur"
      using turn by (auto simp: proceed_def split: prod.splits sum.splits)
    obtain p where "el_poll (loops (lworld s) l) = Some p"
      using parts by (auto simp: wired_def)
    from poll_loop_run [OF spec bounded this run(1)] show ?thesis
      using parts run(2) \<open>el_poll (loops (lworld s) l) = Some p\<close>
      by (auto simp: loop_inv_def going_def wired_def)
  next
    case (At_for evs)
    then show ?thesis
      using turn find_event_run [of l _ "lworld s" _ v] undisturbed_refl [of watch l "lworld s"] keep
      by (cases evs) (auto simp: proceed_def split: prod.splits sum.splits)
  next
    case (At_found ev events evs)
    have "wakeFd (loops (lworld s) l) = wfd"
      using parts by (simp add: wired_def)
    then show ?thesis
      using turn At_found handle_found_undisturbed [OF spec] keep
      by (auto simp: proceed_def split: prod.splits sum.splits)
  next
    case (At_resume mco evs)
    then show ?thesis
      using turn harmless_resume [OF harm] keep parts by (auto simp: proceed_def split: prod.splits sum.splits)
  next
    case Ended
    then show ?thesis using turn by simp
  qed
qed

lemma lstep_inv:
  assumes spec: "eventfd_spec S wfd count watch sleeps" and bounded: "wait_bounded S"
    and harm: "harmless env S resume others count watch wfd tid l"
  shows "lstep env S resume others tid l fw b s s' \<Longrightarrow> loop_inv count watch wfd tid l s \<Longrightarrow>
    loop_inv count watch wfd tid l s'"
proof (induction rule: lstep.induct)
  case (l_own s c)
  then show ?case
    using own_step_inv [OF spec bounded harm l_own(2)] by (cases c) simp
next
  case (l_set t s w)
  then show ?case
    by (auto simp: loop_inv_def set_quit_def comp_defs upd_loop_def wired_def split: if_splits)
next
  case (l_wake t s w)
  have "el_tid (loops (lworld s) l) \<noteq> t" "wakeFd (loops (lworld s) l) = wfd"
    using l_wake by (auto simp: loop_inv_def wired_def)
  then have w: "w = (lworld s)\<lparr>kern := snd (sys_write8 S wfd (kern (lworld s)))\<rparr>"
    using quit_wake_run [OF l_wake(3)] by simp
  have "0 < count (kern w)" "watch (kern w) = watch (kern (lworld s))"
    using spec unfolding w by (simp_all add: eventfd_spec_def)
  then show ?case
    using l_wake(2,4) w by (auto simp: loop_inv_def wired_def)
next
  case (l_other s w)
  then have "undisturbed watch l (lworld s) w" "0 < count (kern (lworld s)) \<longrightarrow> 0 < count (kern w)"
    using harmless_other [OF harm _ l_other(1)] l_other(2) by (simp_all add: loop_inv_def)
  then show ?case
    using l_other(2) undisturbed_wired [of watch l "lworld s" w wfd tid]
    by (auto simp: loop_inv_def undisturbed_def)
qed

subsection \<open>The loop ends\<close>

text \<open>How many steps of its own the loop still takes once \<open>quit_\<close> is set.\<close>

definition steps_left :: "nat \<Rightarrow> 'k lrun \<Rightarrow> nat" where
  "steps_left l s = (case lpc s of
      At_while \<Rightarrow> 1
    | At_poll \<Rightarrow> 3 * (case el_poll (loops (lworld s) l) of None \<Rightarrow> 0 | Some p \<Rightarrow> maxNum p) + 3
    | At_for evs \<Rightarrow> 3 * length evs + 2
    | At_found ev events evs \<Rightarrow> 3 * length evs + 4
    | At_resume mco evs \<Rightarrow> 3 * length evs + 3
    | Ended \<Rightarrow> 0)"

lemma own_step_nearer:
  assumes spec: "eventfd_spec S wfd count watch sleeps" and bounded: "wait_bounded S"
    and wired: "wired watch wfd tid l (lworld s)" and quits: "el_quit (loops (lworld s) l)"
    and turn: "loop_turn env S resume tid l fw (lpc s) (lworld s) = Some (v, pc)"
  shows "Suc (steps_left l (going (v, pc) s)) \<le> steps_left l s"
proof (cases "lpc s")
  case At_poll
  then obtain occur where run: "poll_loop S fw l (lworld s) = (Inr occur, v)" "pc = At_for occur"
    using turn by (auto simp: proceed_def split: prod.splits sum.splits)
  obtain p where p: "el_poll (loops (lworld s) l) = Some p"
    using wired by (auto simp: wired_def)
  then have "length occur \<le> maxNum p"
    using poll_loop_run [OF spec bounded p run(1)] by blast
  then show ?thesis
    using At_poll p run(2) by (simp add: steps_left_def going_def)
next
  case (At_for evs)
  then show ?thesis
    using turn by (cases evs) (auto simp: steps_left_def going_def proceed_def split: prod.splits sum.splits)
qed (use turn quits in \<open>auto simp: steps_left_def going_def proceed_def comp_defs split: prod.splits sum.splits\<close>)

lemma own_step_quit:
  assumes spec: "eventfd_spec S wfd count watch sleeps" and bounded: "wait_bounded S"
    and harm: "harmless env S resume others count watch wfd tid l"
    and wired: "wired watch wfd tid l (lworld s)" and quits: "el_quit (loops (lworld s) l)"
    and turn: "loop_turn env S resume tid l fw (lpc s) (lworld s) = Some (v, pc)"
  shows "el_quit (loops v l)"
proof -
  have keep: ?thesis if "undisturbed watch l (lworld s) v"
    using that quits by (simp add: undisturbed_def)
  show ?thesis
  proof (cases "lpc s")
    case At_poll
    then obtain occur where run: "poll_loop S fw l (lworld s) = (Inr occur, v)"
      using turn by (auto simp: proceed_def split: prod.splits sum.splits)
    obtain p where p: "el_poll (loops (lworld s) l) = Some p"
      using wired by (auto simp: wired_def)
    then show ?thesis
      using poll_loop_run [OF spec bounded p run] quits by auto
  next
    case (At_for evs)
    then show ?thesis
      using turn quits find_event_run [of l _ "lworld s" _ v]
      by (cases evs) (auto simp: proceed_def split: prod.splits sum.splits)
  next
    case (At_found ev events evs)
    then show ?thesis
      using turn wired keep handle_found_undisturbed [OF spec, of "lworld s" l tid ev events _ v]
      by (auto simp: wired_def proceed_def split: prod.splits sum.splits)
  next
    case (At_resume mco evs)
    then obtain u where "resume_found env S resume tid mco (lworld s) = (Inr u, v)"
      using turn by (auto simp: proceed_def split: prod.splits sum.splits)
    then show ?thesis
      using harmless_resume [OF harm wired] keep by simp
  qed (use turn quits in \<open>auto simp: proceed_def comp_defs\<close>)
qed

lemma steps_left_same:
  "lpc s' = lpc s \<Longrightarrow> el_poll (loops (lworld s') l) = el_poll (loops (lworld s) l) \<Longrightarrow>
    steps_left l s' = steps_left l s"
  by (simp add: steps_left_def split: loop_pc.split)

lemma step_nearer:
  assumes spec: "eventfd_spec S wfd count watch sleeps" and bounded: "wait_bounded S"
    and harm: "harmless env S resume others count watch wfd tid l"
    and step: "lstep env S resume others tid l fw b s s'" and inv: "loop_inv count watch wfd tid l s"
    and quits: "el_quit (loops (lworld s) l)"
  shows "el_quit (loops (lworld s') l) \<and> (if b then 1 else 0) + steps_left l s' \<le> steps_left l s"
  using step
proof cases
  case (l_own c)
  obtain v pc where c: "c = (v, pc)" by fastforce
  have "wired watch wfd tid l (lworld s)"
    using inv by (simp add: loop_inv_def)
  from own_step_nearer [OF spec bounded this quits] have "Suc (steps_left l s') \<le> steps_left l s"
    using l_own c by simp
  moreover have "el_quit (loops v l)"
    using own_step_quit [OF spec bounded harm _ quits] inv l_own(3) c by (auto simp: loop_inv_def)
  ultimately show ?thesis
    using l_own c by (simp add: going_def)
next
  case (l_set t w)
  then show ?thesis
    by (auto simp: set_quit_def comp_defs upd_loop_def intro!: eq_imp_le steps_left_same)
next
  case (l_wake t w)
  have "el_tid (loops (lworld s) l) \<noteq> t"
    using l_wake inv by (auto simp: loop_inv_def wired_def)
  then show ?thesis
    using quit_wake_run [OF l_wake(5)] l_wake(1,2) quits by (auto intro!: eq_imp_le steps_left_same)
next
  case (l_other w)
  then have "undisturbed watch l (lworld s) w"
    using harmless_other(1) [OF harm] inv by (simp add: loop_inv_def)
  then show ?thesis
    using l_other quits by (auto simp: undisturbed_def intro!: eq_imp_le steps_left_same)
qed

lemma lruns_inv:
  assumes spec: "eventfd_spec S wfd count watch sleeps" and bounded: "wait_bounded S"
    and harm: "harmless env S resume others count watch wfd tid l"
  shows "lruns env S resume others tid l fw bs s s' \<Longrightarrow> loop_inv count watch wfd tid l s \<Longrightarrow>
    loop_inv count watch wfd tid l s'"
  by (induction rule: lruns.induct) (auto dest: lstep_inv [OF spec bounded harm])

lemma lruns_nearer:
  assumes spec: "eventfd_spec S wfd count watch sleeps" and bounded: "wait_bounded S"
    and harm: "harmless env S resume others count watch wfd tid l"
  shows "lruns env S resume others tid l fw bs s s' \<Longrightarrow> loop_inv count watch wfd tid l s \<Longrightarrow>
    el_quit (loops (lworld s) l) \<Longrightarrow> length (filter id bs) + steps_left l s' \<le> steps_left l s"
proof (induction rule: lruns.induct)
  case (lr_step b s s' bs s'')
  have "el_quit (loops (lworld s') l)" "(if b then 1 else 0) + steps_left l s' \<le> steps_left l s"
    using step_nearer [OF spec bounded harm lr_step(1,4,5)] by simp_all
  then show ?case
    using lr_step.IH lstep_inv [OF spec bounded harm lr_step(1,4)] by (cases b) auto
qed simp


subsection \<open>What the library itself does meanwhile\<close>

text \<open>Another thread hands an event for a descriptor of its own to the loop, as \<open>TcpServer\<close> does.\<close>

definition registers :: "env \<Rightarrow> 'k sys \<Rightarrow> nat \<Rightarrow> 'k base \<Rightarrow> 'k base \<Rightarrow> bool" where
  "registers env S l w v \<longleftrightarrow> (\<exists>e x b. evobjs w e = Some x \<and> isnew x \<and> ev_fd x \<noteq> wakeFd (loops w l) \<and>
     el_events (loops w l) (ev_fd x) = None \<and> updateEvents env S l e w = (Inr b, v))"

lemma registers_harmless:
  assumes spec: "eventfd_spec S wfd count watch sleeps" and epoll: "epoll_spec S watch"
    and ctl: "\<And>epfd op e k. count (snd (sys_epoll_ctl S epfd op e k)) = count k"
    and wfd: "wakeFd (loops w l) = wfd" and run: "registers env S l w v"
  shows "undisturbed watch l w v \<and> 0 < count (kern v)"
proof -
  obtain e x b where e: "evobjs w e = Some x" "isnew x" "ev_fd x \<noteq> wfd"
      "el_events (loops w l) (ev_fd x) = None" and upd: "updateEvents env S l e w = (Inr b, v)"
    using run wfd by (auto simp: registers_def)
  let ?body = "seq (wakeupLoop S l) (pollUpdate env S l e)"
  have valid: "\<not> invaild x"
    using upd e(1) e(2) by (simp add: state_defs)
  then have locker: "MutexLocker (loop_mutex l) (set_loop_mutex l) ?body w = (Inr b, v)"
    using upd e(1) by (simp add: updateEvents_def comp_defs)
  then have free: "loop_lock.free l w"
    using loop_lock.locker_deadlock [of l w ?body] by fastforce
  let ?h = "loop_lock.held l w"
  let ?k = "snd (sys_write8 S wfd (kern w))"
  have h: "kern ?h = kern w" "evobjs ?h = evobjs w" "el_poll (loops ?h l) = el_poll (loops w l)"
      "wakeFd (loops ?h l) = wakeFd (loops w l)" "el_tid (loops ?h l) = el_tid (loops w l)"
      "el_quit (loops ?h l) = el_quit (loops w l)" "el_events (loops ?h l) = el_events (loops w l)"
    by (simp_all add: loop_lock.held_def set_loop_mutex_def upd_loop_def)
  have woken: "0 < count ?k" "watch ?k = watch (kern w)"
    using spec by (simp_all add: eventfd_spec_def)
  obtain u where body: "?body ?h = (Inr b, u)" "v = loop_lock.released l u"
    using locker loop_lock.locker_free [OF free, of ?body] by (auto split: prod.splits)
  have "wakeupLoop S l ?h = (Inr (), ?h\<lparr>kern := ?k\<rparr>)"
    using wfd by (simp add: wakeupLoop_def comp_defs h)
  then have "pollUpdate env S l e (?h\<lparr>kern := ?k\<rparr>) = (Inr b, u)"
    using body(1) by (simp add: comp_defs)
  note upd = this [unfolded pollUpdate_def]
  obtain p where p: "el_poll (loops w l) = Some p" "epoll_fd p \<noteq> - 1 \<or> \<not> dbg env"
      and u: "loops u l = (loops ?h l)\<lparr>el_events := (el_events (loops w l))(ev_fd x \<mapsto> e)\<rparr>"
      "kern u = snd (sys_epoll_ctl S (epoll_fd p) CTL_ADD (epollEvents x) ?k)"
    using upd e valid h
    by (cases "el_poll (loops w l)")
      (auto simp: comp_defs EventsAdd_def eventCtl_def get_poll_def state_defs split: if_splits)
  have "watch (kern u) (epoll_fd p) wfd = watch ?k (epoll_fd p) wfd"
    using epoll_specD(1) [OF epoll, of "epoll_fd p" CTL_ADD "epollEvents x" ?k] u(2) e(3)
    by (cases "sys_epoll_ctl S (epoll_fd p) CTL_ADD (epollEvents x) ?k") (auto simp: epollEvents_def)
  moreover have "0 < count (kern u)"
    using u(2) ctl woken(1) by simp
  ultimately show ?thesis
    using p(1) u(1) h body(2) woken(2) wfd
    by (auto simp: undisturbed_def loop_lock.released_def set_loop_mutex_def upd_loop_def)
qed

text \<open>The end of the loop's own pointer, if the function objects own no events.\<close>

lemma cont_drop_elsewhere:
  assumes "\<forall>f. bound env f = []" "cont_drop env S tid c w = (r, v)"
  shows "loops v = loops w \<and> kern v = kern w"
proof -
  have "closure_of env co u = []" for co and u :: "'a base"
    using assms(1) by (simp add: closure_of_def split: option.split)
  then show ?thesis
    using assms(2) by (auto simp: cont_drop_def Continuation_delete_def comp_defs get_cont_def on_mco_def
        split: if_splits prod.splits sum.splits option.splits)
qed

lemma harmless_library:
  assumes spec: "eventfd_spec S wfd count watch sleeps" and epoll: "epoll_spec S watch"
    and ctl: "\<And>epfd op e k. count (snd (sys_epoll_ctl S epfd op e k)) = count k"
    and env: "\<forall>f. bound env f = []"
  shows "harmless env S (\<lambda>_. ret ()) (registers env S l) count watch wfd tid l"
  unfolding harmless_def
proof (intro allI impI conjI)
  fix w v mco
  assume "resume_found env S (\<lambda>_. ret ()) tid mco w = (Inr (), v)"
  then have "loops v = loops w \<and> kern v = kern w"
    using cont_drop_elsewhere [OF env, of S tid _ w "Inr ()" v]
    by (auto simp: resume_found_def comp_defs split: option.splits)
  then show "undisturbed watch l w v"
    by (simp add: undisturbed_same)
next
  fix w v
  assume "wired watch wfd tid l w" "registers env S l w v"
  then show "undisturbed watch l w v" "0 < count (kern v)"
    using registers_harmless [OF spec epoll ctl _ , where l = l and w = w and v = v] by (simp_all add: wired_def)
qed

text \<open>
  The loop keeps no pointer to the event that it found: after the lock is released, another thread's
  deregistration may give up the last one, and the loop uses a dangling pointer.
\<close>

lemma erased_after_lookup:
  assumes find: "find_event l ev w = (Inr (Some e), u)" and last: "evrefs u e \<le> 1" "evobjs u e \<noteq> None"
    and erase: "erase_entry S l (ep_fd ev) u = (r, v)"
  shows "r = Inr True \<and> handle_found S tid l ev (Some e) v = (Inl DanglingPtr, v)"
proof -
  have "el_events (loops u l) (ep_fd ev) = Some e"
    using find_event_run [OF find] by simp
  then show ?thesis
    using last erase
    by (auto simp: erase_entry_def comp_defs ev_drop_def upd_loop_def get_ev_def upd_ev_def handle_found_def)
qed

subsection \<open>A run\<close>

fun loop_turns ::
  "env \<Rightarrow> 'k sys \<Rightarrow> (nat \<Rightarrow> ('k base, unit) comp) \<Rightarrow> int \<Rightarrow> nat \<Rightarrow> nat \<Rightarrow> nat \<Rightarrow> 'k lrun \<Rightarrow> 'k lrun option"
where
  "loop_turns env S resume tid l fw 0 s = Some s"
| "loop_turns env S resume tid l fw (Suc n) s = (case loop_turn env S resume tid l fw (lpc s) (lworld s) of
      None \<Rightarrow> None | Some c \<Rightarrow> loop_turns env S resume tid l fw n (going c s))"

lemma loop_turns_run:
  "loop_turns env S resume tid l fw n s = Some s' \<Longrightarrow>
    lruns env S resume others tid l fw (replicate n True) s s'"
  by (induction n arbitrary: s) (auto split: option.splits intro: lr_done lr_step l_own)

text \<open>
  Loop 0 of thread 1 with its eventfd 5: it tests \<open>quit_\<close> and goes to \<open>epoll_wait\<close>; a second
  thread registers the event 1 and calls \<open>quit\<close>.
\<close>

definition demo_wait :: "demo_kernel sys" where
  "demo_wait = demo_sys\<lparr>sys_epoll_wait := (\<lambda>_ n _ k. case dk_waits k of
     Ready evs # rs \<Rightarrow> (Ready (take n evs), k\<lparr>dk_waits := rs\<rparr>) | _ \<Rightarrow> (WaitError, k))\<rparr>"

definition demo_bare :: env where
  "demo_bare = demo_env\<lparr>bound := \<lambda>_. []\<rparr>"

definition demo_begin :: "demo_kernel base" where
  "demo_begin = (demo_base [5 \<mapsto> 0] (Events_new 1 9 kReadEvent) [5 \<mapsto> kReadEvent])
     \<lparr>kern := demo_kernel0\<lparr>dk_interest := [5 \<mapsto> kReadEvent], dk_waits := [Ready [\<lparr>ep_fd = 5, ep_events = 1\<rparr>]]\<rparr>\<rparr>"

definition demo_quitted :: "demo_kernel base" where
  "demo_quitted = snd (quit_wake demo_wait 2 0 (snd (set_quit 0
     (snd (updateEvents demo_bare demo_wait 0 1 demo_begin)))))"

definition demo_at :: "demo_kernel base \<Rightarrow> loop_pc \<Rightarrow> quit_pc \<Rightarrow> demo_kernel lrun" where
  "demo_at w pc q = \<lparr>lworld = w, lpc = pc, qpcs = (\<lambda>_. Not_quitting)(2 := q)\<rparr>"

definition demo_sleeps :: "demo_kernel \<Rightarrow> int \<Rightarrow> bool" where
  "demo_sleeps k epfd \<longleftrightarrow> dk_counter k = 0"

lemma demo_wait_specs:
  "eventfd_spec demo_wait 5 dk_counter (\<lambda>k _. dk_interest k) demo_sleeps"
  "epoll_spec demo_wait (\<lambda>k _. dk_interest k)" "wait_bounded demo_wait"
  "dk_counter (snd (sys_epoll_ctl demo_wait epfd op e k)) = dk_counter k"
  by (auto simp: eventfd_spec_def epoll_spec_def wait_bounded_def demo_wait_def demo_sys_def demo_sleeps_def
      demo_ctl_def Let_def split: list.split wait_result.split ctl.split)

lemma demo_harmless:
  "harmless demo_bare demo_wait (\<lambda>_. ret ()) (registers demo_bare demo_wait 0) dk_counter
     (\<lambda>k _. dk_interest k) 5 1 0"
  by (rule harmless_library [OF demo_wait_specs(1,2,4)]) (simp add: demo_bare_def)

lemma demo_quit_run:
  "lruns demo_bare demo_wait (\<lambda>_. ret ()) (registers demo_bare demo_wait 0) 1 0 1 [True, False, False, False]
     (demo_at demo_begin At_while Not_quitting) (demo_at demo_quitted At_poll Quit_done)"
proof -
  let ?reg = "updateEvents demo_bare demo_wait 0 1"
  let ?w = "snd (?reg demo_begin)"
  have "fst (?reg demo_begin) = Inr True"
    by code_simp
  then have r: "?reg demo_begin = (Inr True, ?w)"
    by (simp add: prod_eq_iff)
  have reg: "registers demo_bare demo_wait 0 demo_begin ?w"
    unfolding registers_def
    by (intro exI [of _ 1] exI [of _ "Events_new 1 9 kReadEvent"] exI [of _ True])
      (use r in \<open>simp add: demo_begin_def demo_base_def demo_loop_def Events_new_def state_defs\<close>)
  have s: "set_quit 0 ?w = (Inr (), snd (set_quit 0 ?w))"
    by (simp add: set_quit_def comp_defs)
  have "fst (quit_wake demo_wait 2 0 (snd (set_quit 0 ?w))) = Inr ()"
    by code_simp
  then have q: "quit_wake demo_wait 2 0 (snd (set_quit 0 ?w)) = (Inr (), demo_quitted)"
    by (simp add: prod_eq_iff demo_quitted_def)
  let ?step = "lstep demo_bare demo_wait (\<lambda>_. ret ()) (registers demo_bare demo_wait 0) 1 0 1"
  have "\<not> el_quit (loops demo_begin 0)"
    by (simp add: demo_begin_def demo_base_def demo_loop_def)
  then have "?step True (demo_at demo_begin At_while Not_quitting) (demo_at demo_begin At_poll Not_quitting)"
    using l_own [of demo_bare demo_wait "\<lambda>_. ret ()" 1 0 1 "demo_at demo_begin At_while Not_quitting" "(demo_begin, At_poll)"]
    by (simp add: demo_at_def proceed_def comp_defs going_def)
  moreover have "?step False (demo_at demo_begin At_poll Not_quitting) (demo_at ?w At_poll Not_quitting)"
    using l_other [of "registers demo_bare demo_wait 0" "demo_at demo_begin At_poll Not_quitting" ?w] reg
    by (simp add: demo_at_def)
  moreover have "?step False (demo_at ?w At_poll Not_quitting) (demo_at (snd (set_quit 0 ?w)) At_poll Quit_set)"
    using l_set [of 2 1 "demo_at ?w At_poll Not_quitting" 0 "snd (set_quit 0 ?w)"] s
    by (simp add: demo_at_def)
  moreover have "?step False (demo_at (snd (set_quit 0 ?w)) At_poll Quit_set) (demo_at demo_quitted At_poll Quit_done)"
    using l_wake [of 2 1 "demo_at (snd (set_quit 0 ?w)) At_poll Quit_set" demo_wait 0 demo_quitted] q
    by (simp add: demo_at_def)
  ultimately show ?thesis
    by (blast intro: lr_step lr_done)
qed


end
