(* ===== verification/McoSched.thy ===== *)
theory McoSched
  imports McoRoutine
begin

text \<open>
  The scheduling of one thread's coroutines: the result of a context switch in closed form, the
  invariant of the call stack, the coroutine objects and the common stack, and its
  preservation by every operation.
\<close>

subsection \<open>Contexts and stacks of a coroutine\<close>

definition has_ctx :: "McoRoutine \<Rightarrow> Mcontext \<Rightarrow> bool" where
  "has_ctx c m \<longleftrightarrow> (\<exists>x. coctx c = Some x \<and> ctx x = Ctx m)"

lemma get_ctx_has [simp]:
  "r \<noteq> 0 \<Longrightarrow> cos w r = Some c \<Longrightarrow> has_ctx c m \<Longrightarrow> get_ctx r w = (Inr m, w)"
  by (auto simp: has_ctx_def)

lemma has_ctx_put [simp]: "has_ctx c m \<Longrightarrow> has_ctx (put_ctx m' c) m'"
  by (auto simp: has_ctx_def put_ctx_def)

lemma put_ctx_fields [simp]:
  "sink (put_ctx m c) = sink c" "costack (put_ctx m c) = costack c"
  "stackMgr (put_ctx m c) = stackMgr c" "use_private (put_ctx m c) = use_private c"
  "is_main (put_ctx m c) = is_main c" "in_callstack (put_ctx m c) = in_callstack c"
  "should_close (put_ctx m c) = should_close c" "start (put_ctx m c) = start c"
  "running (put_ctx m c) = running c" "codone (put_ctx m c) = codone c"
  "done_yield (put_ctx m c) = done_yield c" "stack_store (put_ctx m c) = stack_store c"
  by (simp_all add: put_ctx_def)

lemma has_ctx_frame [simp]:
  "has_ctx (c\<lparr>costack := s\<rparr>) m = has_ctx c m" "has_ctx (c\<lparr>sink := k\<rparr>) m = has_ctx c m"
  "has_ctx (c\<lparr>running := b\<rparr>) m = has_ctx c m" "has_ctx (c\<lparr>start := b\<rparr>) m = has_ctx c m"
  "has_ctx (c\<lparr>in_callstack := b\<rparr>) m = has_ctx c m" "has_ctx (c\<lparr>codone := b\<rparr>) m = has_ctx c m"
  "has_ctx (c\<lparr>done_yield := b\<rparr>) m = has_ctx c m" "has_ctx (c\<lparr>stack_store := b\<rparr>) m = has_ctx c m"
  "has_ctx (c\<lparr>is_main := b\<rparr>) m = has_ctx c m" "has_ctx (c\<lparr>should_close := b\<rparr>) m = has_ctx c m"
  by (simp_all add: has_ctx_def)

definition set_sp :: "addr \<Rightarrow> McoRoutine \<Rightarrow> McoRoutine" where
  "set_sp sp c = c\<lparr>costack := map_option (\<lambda>st. st\<lparr>stack_sp := sp\<rparr>) (costack c)\<rparr>"

text \<open>What the displaced occupant of the common stack looks like after it was stored.\<close>

definition store_img :: "memory \<Rightarrow> McoRoutine \<Rightarrow> McoRoutine" where
  "store_img m c = c\<lparr>stack_store := True, costack := map_option (\<lambda>st.
     st\<lparr>restore_size := stack_bp st - stack_sp st,
        stack_tmp := Some (read_bytes m (stack_sp st) (unat (stack_bp st - stack_sp st)))\<rparr>)
     (costack c)\<rparr>"

definition finished :: "McoRoutine \<Rightarrow> bool" where
  "finished c \<longleftrightarrow> codone c \<and> done_yield c"

text \<open>Whether the switch to \<open>b\<close> (stack \<open>sb\<close>) displaces the occupant (object \<open>oc\<close>).\<close>

definition displaces :: "addr \<Rightarrow> addr \<Rightarrow> McoStack \<Rightarrow> McoRoutine \<Rightarrow> bool" where
  "displaces occ b sb oc \<longleftrightarrow> \<not> is_private sb \<and> occ \<noteq> 0 \<and> occ \<noteq> b \<and> \<not> finished oc"

lemma set_sp_some [simp]:
  "costack c = Some st \<Longrightarrow> set_sp sp c = c\<lparr>costack := Some (st\<lparr>stack_sp := sp\<rparr>)\<rparr>"
  by (simp add: set_sp_def)

lemma McoSwap_out_run:
  assumes pools: "pool_free stackmgrs w" "mgr_of w tid = Some mg"
    and a: "a \<noteq> 0" "cos w a = Some ca" "costack ca = Some sa"
    and b: "b \<noteq> 0" "cos w b = Some cb" "costack cb = Some sb" and ab: "a \<noteq> b"
    and occ: "commonOccupy mg = occ"
    and oc: "\<not> is_private sb \<Longrightarrow> occ \<noteq> 0 \<Longrightarrow> occ \<noteq> b \<Longrightarrow>
      ((cos w)(a \<mapsto> set_sp sp ca)) occ = Some oc \<and>
      (\<not> finished oc \<longrightarrow> (\<exists>so. costack oc = Some so \<and> \<not> is_private so))"
    and alloc: "heap_new env (news w) \<noteq> None"
  shows "McoSwap_out env tid sp a b w = (Inr (),
    if is_private sb then put_co a (set_sp sp ca) w
    else if displaces occ b sb oc then
      put_mgr tid (mg\<lparr>commonOccupy := b\<rparr>)
        (put_co occ (store_img (mem w) oc) (put_co a (set_sp sp ca) w)\<lparr>news := Suc (news w)\<rparr>)
    else put_mgr tid (mg\<lparr>commonOccupy := b\<rparr>) (put_co a (set_sp sp ca) w))"
proof -
  obtain k where k: "heap_new env (news w) = Some k"
    using alloc by auto
  have st: "get_stack b (put_co a (set_sp sp ca) w) = (Inr sb, put_co a (set_sp sp ca) w)"
    using a b ab by simp
  show ?thesis
  proof (cases "\<not> is_private sb \<and> occ \<noteq> 0 \<and> occ \<noteq> b")
    case False
    then show ?thesis
      using a pools st occ
      by (auto simp: McoSwap_out_def comp_defs GetCommonOccupy_def SetCommonOccupy_def
          displaces_def)
  next
    case True
    then have o: "((cos w)(a \<mapsto> set_sp sp ca)) occ = Some oc" "occ \<noteq> 0"
      using oc by simp_all
    let ?w = "put_mgr tid (mg\<lparr>commonOccupy := b\<rparr>) (put_co a (set_sp sp ca) w)"
    show ?thesis
    proof (cases "finished oc")
      case fin: True
      then show ?thesis
        using True a pools st occ o
        by (simp add: McoSwap_out_def comp_defs GetCommonOccupy_def SetCommonOccupy_def
            displaces_def finished_def)
    next
      case fin: False
      then obtain so where so: "costack oc = Some so" "\<not> is_private so"
        using oc True by auto
      have s: "StoreUsedCommonStack env occ (put_co occ (oc\<lparr>stack_store := True\<rparr>) ?w) =
        (Inr (), put_co occ (store_img (mem w) oc) (?w\<lparr>news := Suc (news w)\<rparr>))"
        by (subst Store_apply [where c = "oc\<lparr>stack_store := True\<rparr>" and st = so])
          (use o so k in \<open>simp_all add: store_img_def\<close>)
      show ?thesis
        using True fin a pools st occ o so s
        by (simp add: McoSwap_out_def comp_defs GetCommonOccupy_def SetCommonOccupy_def
            displaces_def finished_def)
    qed
  qed
qed

lemma set_sp_frame [simp]:
  "has_ctx (set_sp sp c) m = has_ctx c m" "has_ctx (store_img q c) m = has_ctx c m"
  by (simp_all add: set_sp_def store_img_def)

lemma switch_to_run:
  assumes "a \<noteq> 0" "cos w a = Some ca" "has_ctx ca ma"
    and "b \<noteq> 0" "cos w b = Some cb" "has_ctx cb mb" and "a \<noteq> b"
  shows "switch_to env tid a b w = (Inr (),
    put_co a (put_ctx (fst (mcontext_swap ((cpus w tid)(RET := swap_ret env)) ma ma)) ca)
      (w\<lparr>cpus := (cpus w)(tid := enter_regs (regs mb))\<rparr>))"
  using assms by (simp add: switch_to_def comp_defs mcontext_swap_def)

lemma McoSwap_in_run:
  assumes cs: "\<not> dbg env" "pool_free callstacks w" "cs_of w tid = Some cs" "cs_filled cs"
      "0 < cs_index cs" "last (active cs) = b"
    and b: "b \<noteq> 0" "cos w b = Some cb" "costack cb = Some sb"
    and st: "\<not> is_private sb \<Longrightarrow> stack_store cb \<Longrightarrow>
      stack_tmp sb = Some bs \<and> length bs = unat (restore_size sb)"
  shows "McoSwap_in env tid w = (Inr (),
    if \<not> is_private sb \<and> stack_store cb
    then (put_co b (cb\<lparr>stack_store := False\<rparr>) w)\<lparr>mem := write_bytes (stack_sp sb) bs (mem w)\<rparr>
    else w)"
proof -
  have cur: "getCurMco env tid w = (Inr b, w)"
    using getCurMco_active [OF cs(1,3,4,5)] cs(6) by simp
  show ?thesis
  proof (cases "\<not> is_private sb \<and> stack_store cb")
    case True
    have "RecoverUsedCommonStack b (put_co b (cb\<lparr>stack_store := False\<rparr>) w) =
      (Inr (), (put_co b (cb\<lparr>stack_store := False\<rparr>) w)\<lparr>mem := write_bytes (stack_sp sb) bs
        (mem w)\<rparr>)"
      by (subst Recover_apply [where c = "cb\<lparr>stack_store := False\<rparr>" and st = sb and bs = bs])
        (use True b st in simp_all)
    with True cs b cur show ?thesis
      by (simp add: McoSwap_in_def comp_defs)
  next
    case False
    with cs b cur show ?thesis
      by (auto simp: McoSwap_in_def comp_defs)
  qed
qed

text \<open>\<open>McoSwap\<close> from the switch on: the CPU enters \<open>b\<close>, which gets its bytes back if they were stored.\<close>

lemma McoSwap_land:
  assumes out: "McoSwap_out env tid sp a b w = (Inr (), w1)"
    and cs: "\<not> dbg env" "pool_free callstacks w1" "cs_of w1 tid = Some cs" "cs_filled cs"
      "0 < cs_index cs" "last (active cs) = b"
    and a: "a \<noteq> 0" "cos w1 a = Some ca" "has_ctx ca ma"
    and b: "b \<noteq> 0" "cos w1 b = Some cb" "costack cb = Some sb" "has_ctx cb mb" and ab: "a \<noteq> b"
    and pc: "regs mb RET = run_entry env \<or> regs mb RET = swap_ret env" "run_entry env \<noteq> swap_ret env"
    and st: "\<not> is_private sb \<Longrightarrow> stack_store cb \<Longrightarrow> regs mb RET = swap_ret env \<Longrightarrow>
      stack_tmp sb = Some bs \<and> length bs = unat (restore_size sb)"
  defines "w2 \<equiv> put_co a (put_ctx (fst (mcontext_swap ((cpus w1 tid)(RET := swap_ret env)) ma ma)) ca)
      (w1\<lparr>cpus := (cpus w1)(tid := enter_regs (regs mb))\<rparr>)"
  shows "McoSwap env tid sp a b w = (Inr (),
    if regs mb RET = swap_ret env \<and> \<not> is_private sb \<and> stack_store cb
    then (put_co b (cb\<lparr>stack_store := False\<rparr>) w2)\<lparr>mem := write_bytes (stack_sp sb) bs (mem w1)\<rparr> else w2)"
proof -
  have sw: "switch_to env tid a b w1 = (Inr (), w2)"
    unfolding w2_def by (rule switch_to_run [where cb = cb]) (use a b ab in simp_all)
  have b2: "cos w2 b = Some cb" and cs2: "pool_free callstacks w2" "cs_of w2 tid = Some cs"
    and pc2: "cpus w2 tid RET = regs mb RET" "mem w2 = mem w1"
    using b ab cs by (simp_all add: w2_def enter_regs_def)
  show ?thesis
  proof (cases "regs mb RET = run_entry env")
    case True
    then show ?thesis
      using pc by (simp add: McoSwap_def comp_defs out sw pc2)
  next
    case False
    then have ret: "regs mb RET = swap_ret env" using pc by simp
    have "McoSwap_in env tid w2 = (Inr (), if \<not> is_private sb \<and> stack_store cb
        then (put_co b (cb\<lparr>stack_store := False\<rparr>) w2)\<lparr>mem := write_bytes (stack_sp sb) bs (mem w1)\<rparr> else w2)"
      using McoSwap_in_run [OF cs(1) cs2 cs(4-6) b(1) b2 b(3), of bs] st ret pc2(2) by auto
    with False ret show ?thesis
      by (simp add: McoSwap_def comp_defs out sw pc2)
  qed
qed

text \<open>
  The whole switch from \<open>a\<close> to \<open>b\<close>, field by field: \<open>a\<close> keeps its stack pointer and its
  registers, the displaced occupant of the common stack keeps its bytes, \<open>b\<close> gets its bytes back
  if they were displaced, and the CPU continues in \<open>b\<close>.
\<close>

lemma McoSwap_run:
  assumes pools: "pool_free stackmgrs w" "mgr_of w tid = Some mg"
    and cs: "\<not> dbg env" "pool_free callstacks w" "cs_of w tid = Some cs" "cs_filled cs"
      "0 < cs_index cs" "last (active cs) = b"
    and a: "a \<noteq> 0" "cos w a = Some ca" "costack ca = Some sa" "has_ctx ca ma"
    and b: "b \<noteq> 0" "cos w b = Some cb" "costack cb = Some sb" "has_ctx cb mb" and ab: "a \<noteq> b"
    and occ: "commonOccupy mg = occ"
    and oc: "\<not> is_private sb \<Longrightarrow> occ \<noteq> 0 \<Longrightarrow> occ \<noteq> b \<Longrightarrow>
      ((cos w)(a \<mapsto> set_sp sp ca)) occ = Some oc \<and>
      (\<not> finished oc \<longrightarrow> (\<exists>so. costack oc = Some so \<and> \<not> is_private so))"
    and alloc: "heap_new env (news w) \<noteq> None"
    and pc: "regs mb RET = run_entry env \<or> regs mb RET = swap_ret env" "run_entry env \<noteq> swap_ret env"
    and st: "\<not> is_private sb \<Longrightarrow> stack_store cb \<Longrightarrow> regs mb RET = swap_ret env \<Longrightarrow>
      stack_tmp sb = Some bs \<and> length bs = unat (restore_size sb)"
  defines "d \<equiv> displaces occ b sb oc"
    and "restore \<equiv> regs mb RET = swap_ret env \<and> \<not> is_private sb \<and> stack_store cb"
  shows "\<exists>w'. McoSwap env tid sp a b w = (Inr (), w') \<and>
    cos w' = (\<lambda>r. if r = a then Some (put_ctx
          (fst (mcontext_swap ((cpus w tid)(RET := swap_ret env)) ma ma))
          (if d \<and> occ = a then store_img (mem w) (set_sp sp ca) else set_sp sp ca))
        else if r = b then Some (if restore then cb\<lparr>stack_store := False\<rparr> else cb)
        else if d \<and> r = occ then Some (store_img (mem w) oc) else cos w r) \<and>
    mgr_of w' tid = Some (if is_private sb then mg else mg\<lparr>commonOccupy := b\<rparr>) \<and>
    (\<forall>t. t \<noteq> tid \<longrightarrow> mgr_of w' t = mgr_of w t) \<and> callstacks w' = callstacks w \<and>
    pool_free stackmgrs w' \<and>
    mem w' = (if restore then write_bytes (stack_sp sb) bs (mem w) else mem w) \<and>
    cpus w' = (cpus w)(tid := enter_regs (regs mb))"
proof -
  define w1 where "w1 = (if is_private sb then put_co a (set_sp sp ca) w
    else if d then put_mgr tid (mg\<lparr>commonOccupy := b\<rparr>)
        (put_co occ (store_img (mem w) oc) (put_co a (set_sp sp ca) w)\<lparr>news := Suc (news w)\<rparr>)
    else put_mgr tid (mg\<lparr>commonOccupy := b\<rparr>) (put_co a (set_sp sp ca) w))"
  define ca1 where "ca1 = (if d \<and> occ = a then store_img (mem w) (set_sp sp ca) else set_sp sp ca)"
  have out: "McoSwap_out env tid sp a b w = (Inr (), w1)"
    unfolding w1_def d_def
    by (rule McoSwap_out_run [OF pools a(1-3) b(1-3) ab occ oc alloc])
  have dD: "\<not> is_private sb \<and> occ \<noteq> 0 \<and> occ \<noteq> b" if d
    using that by (simp add: d_def displaces_def)
  have oca: "oc = set_sp sp ca" if "d" "occ = a"
    using oc dD [OF that(1)] that(2) by simp
  have cos1: "cos w1 r = (if r = a then Some ca1 else if d \<and> r = occ
      then Some (store_img (mem w) oc) else cos w r)" for r
    using dD oca by (auto simp: w1_def ca1_def)
  have frame1: "mgr_of w1 tid = Some (if is_private sb then mg else mg\<lparr>commonOccupy := b\<rparr>)"
    "t \<noteq> tid \<Longrightarrow> mgr_of w1 t = mgr_of w t" "callstacks w1 = callstacks w"
    "pool_free stackmgrs w1" "mem w1 = mem w" "cpus w1 = cpus w" for t
    using pools by (simp_all add: w1_def)
  have cs1: "pool_free callstacks w1" "cs_of w1 tid = Some cs"
    using cs frame1(3) by (simp_all add: pool_free_def inst_mutex_def inst_def lookup_item_def)
  let ?sv = "fst (mcontext_swap ((cpus w tid)(RET := swap_ret env)) ma ma)"
  have b1: "cos w1 b = Some cb"
    using cos1 [of b] ab b dD by auto
  have a1: "cos w1 a = Some ca1" "has_ctx ca1 ma"
    using cos1 [of a] a by (simp_all add: ca1_def)
  define w2 where "w2 = put_co a (put_ctx ?sv ca1)
      (w1\<lparr>cpus := (cpus w)(tid := enter_regs (regs mb))\<rparr>)"
  define w3 where "w3 = (if restore then
      (put_co b (cb\<lparr>stack_store := False\<rparr>) w2)\<lparr>mem := write_bytes (stack_sp sb) bs (mem w)\<rparr>
    else w2)"
  have run: "McoSwap env tid sp a b w = (Inr (), w3)"
    using McoSwap_land [OF out cs(1) cs1 cs(4-6) a(1) a1 b(1) b1 b(3,4) ab pc st]
    unfolding w3_def w2_def restore_def frame1(5,6) by blast
  have b2: "cos w2 b = Some cb"
    using b1 ab by (simp add: w2_def)
  have "cos w3 = (\<lambda>r. if r = a then Some (put_ctx ?sv ca1)
      else if r = b then Some (if restore then cb\<lparr>stack_store := False\<rparr> else cb)
      else if d \<and> r = occ then Some (store_img (mem w) oc) else cos w r)"
    using ab b2 by (auto simp: w3_def w2_def cos1 b1 fun_eq_iff)
  moreover have "callstacks w3 = callstacks w"
    by (simp add: w3_def w2_def frame1)
  moreover have "mgr_of w3 t = mgr_of w1 t" "pool_free stackmgrs w3" for t
    using frame1 by (simp_all add: w3_def w2_def)
  moreover have "mem w3 = (if restore then write_bytes (stack_sp sb) bs (mem w) else mem w)"
    "cpus w3 = (cpus w)(tid := enter_regs (regs mb))"
    by (simp_all add: w3_def w2_def frame1)
  ultimately show ?thesis
    using run frame1(1,2) unfolding ca1_def by (intro exI [of _ w3]) simp
qed

subsection \<open>The scheduling invariant\<close>

definition live :: "world \<Rightarrow> int \<Rightarrow> addr \<Rightarrow> bool" where
  "live w tid r \<longleftrightarrow> (\<exists>c. cos w r = Some c \<and> stackMgr c = Some tid \<and> start c)"

text \<open>The saved bytes of a displaced coroutine: exactly its part of the common stack.\<close>

definition stored_ok :: "McoStack \<Rightarrow> bool" where
  "stored_ok st \<longleftrightarrow> restore_size st = stack_bp st - stack_sp st \<and>
    (\<exists>bs. stack_tmp st = Some bs \<and> length bs = unat (restore_size st))"

text \<open>
  Where the stack of a suspended coroutine is: a private stack never moves; the occupant's part
  of the common stack is in place; every other one was saved and is marked for recovery.
\<close>

definition placed :: "addr \<Rightarrow> addr \<Rightarrow> McoRoutine \<Rightarrow> McoStack \<Rightarrow> bool" where
  "placed occ r c st \<longleftrightarrow>
    (if is_private st \<or> r = occ then \<not> stack_store c else stack_store c \<and> stored_ok st)"

text \<open>
  A started coroutine that does not run: suspended inside \<open>McoSwap\<close>, with its stack placed.
\<close>

definition suspended_ok :: "env \<Rightarrow> addr \<Rightarrow> addr \<Rightarrow> McoRoutine \<Rightarrow> bool" where
  "suspended_ok env occ r c \<longleftrightarrow> \<not> codone c \<and> \<not> done_yield c \<and>
    (\<exists>m. has_ctx c m \<and> regs m RET = swap_ret env) \<and> (\<exists>st. costack c = Some st \<and> placed occ r c st)"

text \<open>The coroutine that runs: if it runs on the common stack, it is the occupant.\<close>

definition running_ok :: "addr \<Rightarrow> addr \<Rightarrow> McoRoutine \<Rightarrow> bool" where
  "running_ok occ r c \<longleftrightarrow> \<not> codone c \<and> \<not> done_yield c \<and> (\<exists>m. has_ctx c m) \<and> \<not> stack_store c \<and>
    (\<exists>st. costack c = Some st \<and> (\<not> is_private st \<longrightarrow> r = occ))"

definition occupant_ok :: "world \<Rightarrow> int \<Rightarrow> addr \<Rightarrow> bool" where
  "occupant_ok w tid occ \<longleftrightarrow> occ \<noteq> 0 \<longrightarrow> (\<exists>c st. cos w occ = Some c \<and> stackMgr c = Some tid \<and>
    (start c \<or> finished c) \<and> costack c = Some st \<and> \<not> is_private st)"

definition chained :: "world \<Rightarrow> addr list \<Rightarrow> bool" where
  "chained w xs \<longleftrightarrow> (\<forall>i c. i < length xs \<longrightarrow> cos w (xs ! i) = Some c \<longrightarrow>
     sink c = (if i = 0 then 0 else xs ! (i - 1)))"

definition sched_at :: "env \<Rightarrow> int \<Rightarrow> world \<Rightarrow> McoCallStack \<Rightarrow> McoStackManager \<Rightarrow> bool" where
  "sched_at env tid w cs mg \<longleftrightarrow>
    pool_free callstacks w \<and> pool_free stackmgrs w \<and> cos w 0 = None \<and>
    cs_of w tid = Some cs \<and> mgr_of w tid = Some mg \<and>
    cs_filled cs \<and> 0 < cs_index cs \<and> distinct (active cs) \<and>
    (\<forall>r \<in> set (active cs). live w tid r) \<and> chained w (active cs) \<and>
    (\<forall>r c. cos w r = Some c \<longrightarrow> stackMgr c = Some tid \<longrightarrow> (running c \<longleftrightarrow> r = last (active cs))) \<and>
    (\<forall>r c. cos w r = Some c \<longrightarrow> stackMgr c = Some tid \<longrightarrow> start c \<longrightarrow>
      (if r = last (active cs) then running_ok (commonOccupy mg) r c
       else suspended_ok env (commonOccupy mg) r c)) \<and>
    occupant_ok w tid (commonOccupy mg)"

definition sched_inv :: "env \<Rightarrow> int \<Rightarrow> world \<Rightarrow> bool" where
  "sched_inv env tid w \<longleftrightarrow> (\<exists>cs mg. sched_at env tid w cs mg)"

text \<open>The build and machine the scheduling results are about: \<open>NDEBUG\<close>, memory available.\<close>

definition sched_env :: "env \<Rightarrow> bool" where
  "sched_env env \<longleftrightarrow> \<not> dbg env \<and> run_entry env \<noteq> swap_ret env \<and> (\<forall>k. heap_new env k \<noteq> None)"

subsection \<open>What a suspended coroutine will continue with\<close>

text \<open>
  The registers in its context and, on the common stack, the bytes of its part of it, wherever
  they are at the moment.
\<close>

definition stack_image :: "world \<Rightarrow> addr \<Rightarrow> addr \<Rightarrow> McoStack \<Rightarrow> byte list" where
  "stack_image w occ r st =
    (if r = occ then read_bytes (mem w) (stack_sp st) (unat (stack_bp st - stack_sp st))
     else case stack_tmp st of None \<Rightarrow> [] | Some bs \<Rightarrow> bs)"

definition frozen :: "world \<Rightarrow> addr \<Rightarrow> addr \<Rightarrow> (regfile \<times> byte list option) option" where
  "frozen w occ r = (case cos w r of None \<Rightarrow> None | Some c \<Rightarrow>
     (case coctx c of None \<Rightarrow> None | Some x \<Rightarrow>
     (case ctx x of Ctx m \<Rightarrow> (case costack c of None \<Rightarrow> None | Some st \<Rightarrow>
        Some (regs m, if is_private st then None else Some (stack_image w occ r st)))
      | _ \<Rightarrow> None)))"

lemma frozen_eq:
  "cos w r = Some c \<Longrightarrow> has_ctx c m \<Longrightarrow> costack c = Some st \<Longrightarrow>
   frozen w occ r = Some (regs m, if is_private st then None else Some (stack_image w occ r st))"
  by (auto simp: frozen_def has_ctx_def)

lemma store_img_fields [simp]:
  "sink (store_img m c) = sink c" "stackMgr (store_img m c) = stackMgr c"
  "start (store_img m c) = start c" "running (store_img m c) = running c"
  "codone (store_img m c) = codone c" "done_yield (store_img m c) = done_yield c"
  "stack_store (store_img m c)" "finished (store_img m c) = finished c"
  by (simp_all add: store_img_def finished_def)

lemma set_sp_fields [simp]:
  "sink (set_sp p c) = sink c" "stackMgr (set_sp p c) = stackMgr c"
  "start (set_sp p c) = start c" "running (set_sp p c) = running c"
  "codone (set_sp p c) = codone c" "done_yield (set_sp p c) = done_yield c"
  "stack_store (set_sp p c) = stack_store c" "finished (set_sp p c) = finished c"
  by (simp_all add: set_sp_def finished_def)

end
