(* ===== verification/McoSwitch.thy ===== *)
theory McoSwitch
  imports McoSched
begin

text \<open>
  One context switch between two coroutines of a thread keeps the scheduling invariant and
  carries every suspended coroutine's registers and stack bytes over unchanged, wherever the
  bytes are kept.
\<close>

definition leaving_ok :: "addr \<Rightarrow> addr \<Rightarrow> McoRoutine \<Rightarrow> bool" where
  "leaving_ok occ r c \<longleftrightarrow> (\<exists>m. has_ctx c m) \<and> \<not> stack_store c \<and>
    (\<exists>st. costack c = Some st \<and> (\<not> is_private st \<longrightarrow> r = occ)) \<and>
    (if start c then \<not> codone c \<and> \<not> done_yield c else finished c)"

definition entering_ok :: "env \<Rightarrow> addr \<Rightarrow> addr \<Rightarrow> McoRoutine \<Rightarrow> bool" where
  "entering_ok env occ r c \<longleftrightarrow> \<not> codone c \<and> \<not> done_yield c \<and>
    (\<exists>m st. has_ctx c m \<and> costack c = Some st \<and>
      (regs m RET = swap_ret env \<and> placed occ r c st \<or>
       regs m RET = run_entry env \<and> \<not> stack_store c))"

text \<open>
  The state in which \<open>McoSwap\<close> is called: the call stack and the flags already show \<open>b\<close> as
  running, the CPU is still in \<open>a\<close>.
\<close>

definition switching ::
  "env \<Rightarrow> int \<Rightarrow> world \<Rightarrow> McoCallStack \<Rightarrow> McoStackManager \<Rightarrow> addr \<Rightarrow> addr \<Rightarrow> bool" where
  "switching env tid w cs mg a b \<longleftrightarrow>
    pool_free callstacks w \<and> pool_free stackmgrs w \<and> cos w 0 = None \<and>
    cs_of w tid = Some cs \<and> mgr_of w tid = Some mg \<and>
    cs_filled cs \<and> 0 < cs_index cs \<and> distinct (active cs) \<and> last (active cs) = b \<and> a \<noteq> b \<and>
    (\<forall>r \<in> set (active cs). live w tid r) \<and> chained w (active cs) \<and>
    (\<forall>r c. cos w r = Some c \<longrightarrow> stackMgr c = Some tid \<longrightarrow> (running c \<longleftrightarrow> r = b)) \<and>
    (\<exists>c. cos w a = Some c \<and> stackMgr c = Some tid \<and> leaving_ok (commonOccupy mg) a c) \<and>
    (\<exists>c. cos w b = Some c \<and> stackMgr c = Some tid \<and> start c \<and>
      entering_ok env (commonOccupy mg) b c) \<and>
    (\<forall>r c. r \<noteq> a \<longrightarrow> r \<noteq> b \<longrightarrow> cos w r = Some c \<longrightarrow> stackMgr c = Some tid \<longrightarrow> start c \<longrightarrow>
      suspended_ok env (commonOccupy mg) r c) \<and>
    occupant_ok w tid (commonOccupy mg)"

text \<open>
  The world after the switch, in terms of the one before: whether the occupant of the common
  stack is displaced, and whether \<open>b\<close> gets its bytes back.
\<close>

definition displaced :: "world \<Rightarrow> addr \<Rightarrow> addr \<Rightarrow> McoStack \<Rightarrow> bool" where
  "displaced w occ b sb \<longleftrightarrow>
    \<not> is_private sb \<and> occ \<noteq> 0 \<and> occ \<noteq> b \<and> \<not> finished (the (cos w occ))"

definition restored :: "env \<Rightarrow> Mcontext \<Rightarrow> McoStack \<Rightarrow> McoRoutine \<Rightarrow> bool" where
  "restored env mb sb cb \<longleftrightarrow>
    regs mb RET = swap_ret env \<and> \<not> is_private sb \<and> stack_store cb"

definition moves ::
  "env \<Rightarrow> int \<Rightarrow> addr \<Rightarrow> addr \<Rightarrow> addr \<Rightarrow> world \<Rightarrow> McoStackManager \<Rightarrow> McoRoutine \<Rightarrow> McoStack \<Rightarrow>
   Mcontext \<Rightarrow> McoRoutine \<Rightarrow> McoStack \<Rightarrow> Mcontext \<Rightarrow> world \<Rightarrow> bool"
where
  "moves env tid sp a b w mg ca sa ma cb sb mb w' \<longleftrightarrow>
    (\<forall>r. cos w' r =
      (if r = a then Some (put_ctx (ma\<lparr>regs := save_regs ((cpus w tid)(RET := swap_ret env))\<rparr>)
          (if displaced w (commonOccupy mg) b sb \<and> commonOccupy mg = a
           then store_img (mem w) (set_sp sp ca) else set_sp sp ca))
       else if r = b then Some (if restored env mb sb cb then cb\<lparr>stack_store := False\<rparr> else cb)
       else if displaced w (commonOccupy mg) b sb \<and> r = commonOccupy mg
       then Some (store_img (mem w) (the (cos w r))) else cos w r)) \<and>
    mgr_of w' tid = Some (if is_private sb then mg else mg\<lparr>commonOccupy := b\<rparr>) \<and>
    (\<forall>t. t \<noteq> tid \<longrightarrow> mgr_of w' t = mgr_of w t) \<and> callstacks w' = callstacks w \<and>
    pool_free stackmgrs w' \<and>
    mem w' = (if restored env mb sb cb then write_bytes (stack_sp sb) (the (stack_tmp sb)) (mem w)
      else mem w) \<and>
    cpus w' = (cpus w)(tid := enter_regs (regs mb))"

lemma switch_runs:
  assumes env: "sched_env env" and sw: "switching env tid w cs mg a b"
  obtains w' ca sa ma cb sb mb where
    "McoSwap env tid sp a b w = (Inr (), w')"
    "cos w a = Some ca" "stackMgr ca = Some tid" "costack ca = Some sa" "has_ctx ca ma"
    "cos w b = Some cb" "stackMgr cb = Some tid" "costack cb = Some sb" "has_ctx cb mb"
    "regs mb RET = swap_ret env \<and> placed (commonOccupy mg) b cb sb \<or>
       regs mb RET = run_entry env \<and> \<not> stack_store cb"
    "moves env tid sp a b w mg ca sa ma cb sb mb w'"
proof -
  let ?occ = "commonOccupy mg"
  obtain ca where a: "cos w a = Some ca" "stackMgr ca = Some tid" "leaving_ok ?occ a ca"
    using sw by (auto simp: switching_def)
  obtain cb where b: "cos w b = Some cb" "stackMgr cb = Some tid" "start cb"
      "entering_ok env ?occ b cb"
    using sw by (auto simp: switching_def)
  obtain sa ma where sa: "costack ca = Some sa" "has_ctx ca ma"
    using a(3) by (auto simp: leaving_ok_def)
  obtain sb mb where sb: "costack cb = Some sb" "has_ctx cb mb"
      "regs mb RET = swap_ret env \<and> placed ?occ b cb sb \<or>
       regs mb RET = run_entry env \<and> \<not> stack_store cb"
    using b(4) by (auto simp: entering_ok_def)
  have nz: "a \<noteq> 0" "b \<noteq> 0"
    using a b sw by (auto simp: switching_def)
  let ?oc = "the (((cos w)(a \<mapsto> set_sp sp ca)) ?occ)"
  have oc: "((cos w)(a \<mapsto> set_sp sp ca)) ?occ = Some ?oc \<and>
      (\<not> finished ?oc \<longrightarrow> (\<exists>so. costack ?oc = Some so \<and> \<not> is_private so))" if "?occ \<noteq> 0"
    using sw that a by (auto simp: switching_def occupant_ok_def set_sp_def)
  have fin: "finished ?oc = finished (the (cos w ?occ))"
    using a by simp
  have alloc: "heap_new env (news w) \<noteq> None" and ndbg: "\<not> dbg env"
    and pcs: "run_entry env \<noteq> swap_ret env"
    using env by (auto simp: sched_env_def)
  have pc: "regs mb RET = run_entry env \<or> regs mb RET = swap_ret env"
    using sb(3) by blast
  have st: "stack_tmp sb = Some (the (stack_tmp sb)) \<and>
      length (the (stack_tmp sb)) = unat (restore_size sb)"
    if "\<not> is_private sb" "stack_store cb" "regs mb RET = swap_ret env"
    using that sb(3) pcs by (auto simp: placed_def stored_ok_def split: if_splits)
  have cs: "pool_free callstacks w" "cs_of w tid = Some cs" "cs_filled cs" "0 < cs_index cs"
    "last (active cs) = b" "a \<noteq> b" "pool_free stackmgrs w" "mgr_of w tid = Some mg"
    using sw by (simp_all add: switching_def)
  obtain w' where w': "McoSwap env tid sp a b w = (Inr (), w')"
    "cos w' = (\<lambda>r. if r = a then Some (put_ctx
          (fst (mcontext_swap ((cpus w tid)(RET := swap_ret env)) ma ma))
          (if displaces ?occ b sb ?oc \<and> ?occ = a then store_img (mem w) (set_sp sp ca)
           else set_sp sp ca))
        else if r = b then Some (if regs mb RET = swap_ret env \<and> \<not> is_private sb \<and> stack_store cb
          then cb\<lparr>stack_store := False\<rparr> else cb)
        else if displaces ?occ b sb ?oc \<and> r = ?occ then Some (store_img (mem w) ?oc) else cos w r)"
    "mgr_of w' tid = Some (if is_private sb then mg else mg\<lparr>commonOccupy := b\<rparr>)"
    "\<forall>t. t \<noteq> tid \<longrightarrow> mgr_of w' t = mgr_of w t" "callstacks w' = callstacks w"
    "pool_free stackmgrs w'"
    "mem w' = (if regs mb RET = swap_ret env \<and> \<not> is_private sb \<and> stack_store cb
      then write_bytes (stack_sp sb) (the (stack_tmp sb)) (mem w) else mem w)"
    "cpus w' = (cpus w)(tid := enter_regs (regs mb))"
    using McoSwap_run [OF cs(7,8) ndbg cs(1-5) nz(1) a(1) sa nz(2) b(1) sb(1,2) cs(6) refl _
        alloc pc pcs st, of sp ?oc] oc by blast
  have "moves env tid sp a b w mg ca sa ma cb sb mb w'"
    unfolding moves_def w'(2,3,5,7,8) fin [symmetric] displaces_def displaced_def restored_def
      mcontext_swap_def fst_conv
    using oc w'(4,6) by auto
  then show thesis
    by (rule that [OF w'(1) a(1,2) sa b(1,2) sb])
qed

subsection \<open>What a switch leaves alone\<close>

definition same_core :: "McoRoutine \<Rightarrow> McoRoutine \<Rightarrow> bool" where
  "same_core c c' \<longleftrightarrow> sink c' = sink c \<and> stackMgr c' = stackMgr c \<and> start c' = start c \<and>
    running c' = running c \<and> codone c' = codone c \<and> done_yield c' = done_yield c"

lemma same_core_simps [simp]:
  "same_core c c" "same_core c (store_img m c)" "same_core c (set_sp p c)"
  "same_core c (put_ctx k (set_sp p c))" "same_core c (put_ctx k (store_img m (set_sp p c)))"
  "same_core c (c\<lparr>stack_store := False\<rparr>)"
  by (simp_all add: same_core_def)

lemma moves_cos:
  assumes "moves env tid sp a b w mg ca sa ma cb sb mb w'"
  shows "cos w' a = Some (put_ctx (ma\<lparr>regs := save_regs ((cpus w tid)(RET := swap_ret env))\<rparr>)
      (if displaced w (commonOccupy mg) b sb \<and> commonOccupy mg = a
       then store_img (mem w) (set_sp sp ca) else set_sp sp ca))"
    and "b \<noteq> a \<Longrightarrow> cos w' b = Some (if restored env mb sb cb then cb\<lparr>stack_store := False\<rparr> else cb)"
    and "r \<noteq> a \<Longrightarrow> r \<noteq> b \<Longrightarrow> cos w' r = (if displaced w (commonOccupy mg) b sb \<and> r = commonOccupy mg
      then Some (store_img (mem w) (the (cos w r))) else cos w r)"
  using assms unfolding moves_def by simp_all

lemma moves_core:
  assumes mv: "moves env tid sp a b w mg ca sa ma cb sb mb w'"
    and ab: "cos w a = Some ca" "cos w b = Some cb" and occ: "occupant_ok w tid (commonOccupy mg)"
  shows "rel_option same_core (cos w r) (cos w' r)"
proof -
  consider "r = a" | "r \<noteq> a" "r = b" | "r \<noteq> a" "r \<noteq> b" by blast
  then show ?thesis
  proof cases
    case 1
    then show ?thesis using moves_cos(1) [OF mv] ab by simp
  next
    case 2
    then show ?thesis using moves_cos(2) [OF mv] ab by simp
  next
    case 3
    show ?thesis
    proof (cases "displaced w (commonOccupy mg) b sb \<and> r = commonOccupy mg")
      case True
      then have "r \<noteq> 0" by (auto simp: displaced_def)
      with True occ obtain c where "cos w r = Some c" by (auto simp: occupant_ok_def)
      then show ?thesis using moves_cos(3) [OF mv 3] True by simp
    next
      case False
      then have "cos w' r = cos w r" using moves_cos(3) [OF mv 3] by auto
      then show ?thesis by (simp add: option.rel_refl)
    qed
  qed
qed

lemma core_back:
  assumes "\<And>r. rel_option same_core (cos w r) (cos w' r)" and "cos w' r = Some c'"
  obtains c where "cos w r = Some c" and "same_core c c'"
  using assms(1) [of r] assms(2) by (auto simp: option_rel_Some2)

lemma core_forth:
  assumes "\<And>r. rel_option same_core (cos w r) (cos w' r)" and "cos w r = Some c"
  obtains c' where "cos w' r = Some c'" and "same_core c c'"
  using assms(1) [of r] assms(2) by (auto simp: option_rel_Some1)

lemma core_live:
  assumes core: "\<And>r. rel_option same_core (cos w r) (cos w' r)"
  shows "live w' tid r = live w tid r"
  using core [of r] by (cases "cos w r"; cases "cos w' r") (auto simp: live_def same_core_def)

lemma core_chained:
  assumes core: "\<And>r. rel_option same_core (cos w r) (cos w' r)" and ch: "chained w xs"
  shows "chained w' xs"
  unfolding chained_def
proof (intro allI impI)
  fix i c'
  assume i: "i < length xs" and c': "cos w' (xs ! i) = Some c'"
  from core_back [OF core c'] obtain c where "cos w (xs ! i) = Some c" "same_core c c'"
    by blast
  then show "sink c' = (if i = 0 then 0 else xs ! (i - 1))"
    using ch i by (auto simp: chained_def same_core_def)
qed

lemma core_running:
  assumes core: "\<And>r. rel_option same_core (cos w r) (cos w' r)"
    and run: "\<forall>r c. cos w r = Some c \<longrightarrow> stackMgr c = Some tid \<longrightarrow> (running c \<longleftrightarrow> r = b)"
    and c': "cos w' r = Some c'" "stackMgr c' = Some tid"
  shows "running c' \<longleftrightarrow> r = b"
  using core_back [OF core c'(1)] run c'(2) by (metis same_core_def)

lemma store_img_stored:
  "costack c = Some st \<Longrightarrow> \<exists>st'. costack (store_img m c) = Some st' \<and>
    is_private st' = is_private st \<and> stored_ok st'"
  by (simp add: store_img_def stored_ok_def)

text \<open>A coroutine not taking part keeps its stack placed, relative to the new occupant.\<close>

lemma moves_bystander:
  assumes mv: "moves env tid sp a b w mg ca sa ma cb sb mb w'"
    and r: "r \<noteq> a" "r \<noteq> b" "cos w r = Some c" "r \<noteq> 0"
    and ok: "suspended_ok env (commonOccupy mg) r c" and occ: "occupant_ok w tid (commonOccupy mg)"
  shows "\<exists>c'. cos w' r = Some c' \<and>
    suspended_ok env (if is_private sb then commonOccupy mg else b) r c' \<and>
    frozen w' (if is_private sb then commonOccupy mg else b) r = frozen w (commonOccupy mg) r"
proof -
  let ?occ = "commonOccupy mg"
  obtain m st where c: "\<not> codone c" "\<not> done_yield c" "has_ctx c m" "regs m RET = swap_ret env"
    "costack c = Some st" "placed ?occ r c st"
    using ok by (auto simp: suspended_ok_def)
  have nf: "\<not> finished c"
    using c by (simp add: finished_def)
  consider "displaced w ?occ b sb" "r = ?occ" | "is_private sb" | "\<not> is_private sb" "r \<noteq> ?occ"
    using nf r by (cases "r = ?occ") (auto simp: displaced_def)
  then show ?thesis
  proof cases
    case 1
    let ?c = "store_img (mem w) c"
    have c': "cos w' r = Some ?c"
      using moves_cos(3) [OF mv r(1,2)] 1 r by simp
    have pub: "\<not> is_private st" "\<not> is_private sb"
      using occ 1 r c by (auto simp: occupant_ok_def displaced_def)
    let ?st = "st\<lparr>restore_size := stack_bp st - stack_sp st,
        stack_tmp := Some (read_bytes (mem w) (stack_sp st) (unat (stack_bp st - stack_sp st)))\<rparr>"
    have img: "costack ?c = Some ?st"
      using c by (simp add: store_img_def)
    have "placed b r ?c ?st"
      using r pub by (simp add: placed_def stored_ok_def)
    then have "suspended_ok env b r ?c"
      using c img by (auto simp: suspended_ok_def)
    moreover have "frozen w' b r = frozen w ?occ r"
      using frozen_eq [OF c' _ img, of m b] frozen_eq [OF r(3) c(3,5), of ?occ] pub 1(2) r c(3)
      by (simp add: stack_image_def)
    ultimately show ?thesis
      using c' pub by simp
  next
    case 2
    then have c': "cos w' r = Some c" and "mem w' = mem w"
      using moves_cos(3) [OF mv r(1,2)] r mv by (auto simp: displaced_def restored_def moves_def)
    then have "frozen w' ?occ r = frozen w ?occ r"
      using frozen_eq [OF c' c(3,5), of ?occ] frozen_eq [OF r(3) c(3,5), of ?occ]
      by (simp add: stack_image_def)
    then show ?thesis
      using 2 ok c' by simp
  next
    case 3
    then have c': "cos w' r = Some c"
      using moves_cos(3) [OF mv r(1,2)] r by simp
    have "placed b r c st"
      using c(6) 3 r by (simp add: placed_def)
    then have "suspended_ok env b r c"
      using c by (auto simp: suspended_ok_def)
    moreover have "frozen w' b r = frozen w ?occ r"
      using frozen_eq [OF c' c(3,5), of b] frozen_eq [OF r(3) c(3,5), of ?occ] 3 r
      by (simp add: stack_image_def)
    ultimately show ?thesis
      using c' 3 by simp
  qed
qed

text \<open>The coroutine that leaves: its registers and its bytes at the moment of the switch are kept.\<close>

lemma moves_leaving:
  assumes mv: "moves env tid sp a b w mg ca sa ma cb sb mb w'" and ab: "a \<noteq> b"
    and a: "cos w a = Some ca" "costack ca = Some sa" "has_ctx ca ma" "a \<noteq> 0"
    and ok: "leaving_ok (commonOccupy mg) a ca" "start ca"
    and occ: "occupant_ok w tid (commonOccupy mg)"
  shows "\<exists>c'. cos w' a = Some c' \<and>
    suspended_ok env (if is_private sb then commonOccupy mg else b) a c' \<and>
    frozen w' (if is_private sb then commonOccupy mg else b) a =
      Some (save_regs ((cpus w tid)(RET := swap_ret env)),
        if is_private sa then None else Some (read_bytes (mem w) sp (unat (stack_bp sa - sp))))"
proof -
  let ?occ = "commonOccupy mg"
  let ?m = "ma\<lparr>regs := save_regs ((cpus w tid)(RET := swap_ret env))\<rparr>"
  have fl: "\<not> stack_store ca" "\<not> is_private sa \<Longrightarrow> a = ?occ" "\<not> codone ca" "\<not> done_yield ca"
    using ok a by (auto simp: leaving_ok_def)
  have priv: "is_private sa \<Longrightarrow> a \<noteq> ?occ"
    using occ a by (auto simp: occupant_ok_def)
  have ret: "regs ?m RET = swap_ret env"
    by (simp add: save_regs_def)
  let ?d = "displaced w ?occ b sb \<and> ?occ = a"
  show ?thesis
  proof (cases ?d)
    case True
    then have pub: "\<not> is_private sb" "\<not> is_private sa"
      using priv by (auto simp: displaced_def)
    let ?c = "put_ctx ?m (store_img (mem w) (set_sp sp ca))"
    have c': "cos w' a = Some ?c"
      using moves_cos(1) [OF mv] unfolding if_P [OF True] .
    have hc: "has_ctx ?c ?m"
      using a(3) by (intro has_ctx_put) simp
    have st: "costack ?c = Some (sa\<lparr>stack_sp := sp, restore_size := stack_bp sa - sp,
        stack_tmp := Some (read_bytes (mem w) sp (unat (stack_bp sa - sp)))\<rparr>)"
      using a by (simp add: store_img_def)
    have "suspended_ok env b a ?c"
      using fl hc ret st ab pub by (auto simp: suspended_ok_def placed_def stored_ok_def)
    moreover have "frozen w' b a = Some (regs ?m, Some (read_bytes (mem w) sp (unat (stack_bp sa - sp))))"
      using frozen_eq [OF c' hc st, of b] pub ab by (simp add: stack_image_def)
    ultimately show ?thesis
      using c' pub by simp
  next
    case False
    let ?c = "put_ctx ?m (set_sp sp ca)"
    let ?occ' = "if is_private sb then ?occ else b"
    have c': "cos w' a = Some ?c"
      using moves_cos(1) [OF mv] unfolding if_not_P [OF False] .
    have hc: "has_ctx ?c ?m"
      using a(3) by (intro has_ctx_put) simp
    have st: "costack ?c = Some (sa\<lparr>stack_sp := sp\<rparr>)"
      using a by simp
    have pub: "is_private sb" if "\<not> is_private sa"
      using that False fl(2) ab a fl(3,4) by (auto simp: displaced_def finished_def)
    have "placed ?occ' a ?c (sa\<lparr>stack_sp := sp\<rparr>)"
      using fl pub by (auto simp: placed_def)
    then have "suspended_ok env ?occ' a ?c"
      using fl hc ret st by (auto simp: suspended_ok_def)
    moreover have "frozen w' ?occ' a = Some (regs ?m,
        if is_private sa then None else Some (read_bytes (mem w) sp (unat (stack_bp sa - sp))))"
      using frozen_eq [OF c' hc st, of ?occ'] pub fl(2) mv
      by (auto simp: stack_image_def moves_def restored_def)
    ultimately show ?thesis
      using c' by simp
  qed
qed

text \<open>The coroutine that is entered: it runs with its registers and its bytes.\<close>

lemma moves_entering:
  assumes mv: "moves env tid sp a b w mg ca sa ma cb sb mb w'" and ab: "a \<noteq> b"
    and b: "costack cb = Some sb" "has_ctx cb mb" "\<not> codone cb" "\<not> done_yield cb"
    and pc: "regs mb RET = swap_ret env \<and> placed (commonOccupy mg) b cb sb \<or>
       regs mb RET = run_entry env \<and> \<not> stack_store cb" "run_entry env \<noteq> swap_ret env"
  shows "\<exists>c'. cos w' b = Some c' \<and> costack c' = Some sb \<and> has_ctx c' mb \<and>
      running_ok (if is_private sb then commonOccupy mg else b) b c'"
    and "cpus w' tid = enter_regs (regs mb)"
    and "regs mb RET = swap_ret env \<Longrightarrow> \<not> is_private sb \<Longrightarrow>
      read_bytes (mem w') (stack_sp sb) (unat (stack_bp sb - stack_sp sb)) =
      stack_image w (commonOccupy mg) b sb"
proof -
  let ?c = "if restored env mb sb cb then cb\<lparr>stack_store := False\<rparr> else cb"
  have "cos w' b = Some ?c"
    using moves_cos(2) [OF mv] ab by simp
  moreover have "\<not> stack_store ?c"
    using pc by (auto simp: restored_def placed_def split: if_splits)
  ultimately show "\<exists>c'. cos w' b = Some c' \<and> costack c' = Some sb \<and> has_ctx c' mb \<and>
      running_ok (if is_private sb then commonOccupy mg else b) b c'"
    using b by (intro exI [of _ ?c]) (auto simp: running_ok_def)
  show "cpus w' tid = enter_regs (regs mb)"
    using mv by (simp add: moves_def)
  assume ret: "regs mb RET = swap_ret env" "\<not> is_private sb"
  then have pl: "placed (commonOccupy mg) b cb sb"
    using pc by auto
  show "read_bytes (mem w') (stack_sp sb) (unat (stack_bp sb - stack_sp sb)) =
      stack_image w (commonOccupy mg) b sb"
  proof (cases "b = commonOccupy mg")
    case True
    then have "\<not> restored env mb sb cb"
      using pl by (simp add: placed_def restored_def)
    with True mv show ?thesis
      by (simp add: moves_def stack_image_def)
  next
    case False
    then obtain bs where bs: "stack_store cb" "stack_tmp sb = Some bs"
      "length bs = unat (stack_bp sb - stack_sp sb)"
      using pl ret by (auto simp: placed_def stored_ok_def)
    then have "mem w' = write_bytes (stack_sp sb) bs (mem w)"
      using ret mv by (simp add: moves_def restored_def)
    moreover have "length bs \<le> 2 ^ 64"
      unfolding bs(3) by (rule unat_le_word_size)
    ultimately show ?thesis
      using read_write_same [of bs "stack_sp sb" "mem w"] bs False by (simp add: stack_image_def)
  qed
qed

text \<open>When \<open>b\<close> has a stack of its own, the common stack keeps its occupant.\<close>

lemma moves_occupant:
  assumes mv: "moves env tid sp a b w mg ca sa ma cb sb mb w'"
    and a: "cos w a = Some ca" "costack ca = Some sa"
    and b: "cos w b = Some cb" "costack cb = Some sb" and ab: "a \<noteq> b"
    and oc: "occupant_ok w tid (commonOccupy mg)" and priv: "is_private sb"
  shows "occupant_ok w' tid (commonOccupy mg)"
  unfolding occupant_ok_def
proof
  let ?occ = "commonOccupy mg"
  assume "?occ \<noteq> 0"
  then obtain c st where c: "cos w ?occ = Some c" "stackMgr c = Some tid" "start c \<or> finished c"
    "costack c = Some st" "\<not> is_private st"
    using oc by (auto simp: occupant_ok_def)
  have nb: "?occ \<noteq> b"
    using c b priv by auto
  have nd: "\<not> displaced w ?occ b sb"
    using priv by (simp add: displaced_def)
  show "\<exists>c st. cos w' ?occ = Some c \<and> stackMgr c = Some tid \<and> (start c \<or> finished c) \<and>
      costack c = Some st \<and> \<not> is_private st"
  proof (cases "?occ = a")
    case True
    then show ?thesis
      using moves_cos(1) [OF mv] nd a c by (auto simp: finished_def)
  next
    case False
    then show ?thesis
      using moves_cos(3) [OF mv False nb] nd c by simp
  qed
qed

subsection \<open>A switch keeps the scheduling invariant\<close>

definition stack_bytes :: "world \<Rightarrow> addr \<Rightarrow> addr \<Rightarrow> byte list option" where
  "stack_bytes w r sp = (case cos w r of None \<Rightarrow> None | Some c \<Rightarrow>
     (case costack c of None \<Rightarrow> None | Some st \<Rightarrow> if is_private st then None
        else Some (read_bytes (mem w) sp (unat (stack_bp st - sp)))))"

definition in_place :: "world \<Rightarrow> addr \<Rightarrow> byte list option \<Rightarrow> bool" where
  "in_place w r B \<longleftrightarrow> (case B of None \<Rightarrow> True | Some bs \<Rightarrow>
     (\<exists>c st. cos w r = Some c \<and> costack c = Some st \<and>
        read_bytes (mem w) (stack_sp st) (unat (stack_bp st - stack_sp st)) = bs))"

definition switched ::
  "env \<Rightarrow> int \<Rightarrow> addr \<Rightarrow> addr \<Rightarrow> addr \<Rightarrow> world \<Rightarrow> addr \<Rightarrow> world \<Rightarrow> addr \<Rightarrow> bool" where
  "switched env tid sp a b w occ w' occ' \<longleftrightarrow>
    (\<forall>r. r \<noteq> a \<longrightarrow> r \<noteq> b \<longrightarrow> live w tid r \<longrightarrow> frozen w' occ' r = frozen w occ r) \<and>
    (\<forall>r. live w' tid r = live w tid r) \<and>
    (live w tid a \<longrightarrow> frozen w' occ' a =
       Some (save_regs ((cpus w tid)(RET := swap_ret env)), stack_bytes w a sp)) \<and>
    (\<exists>R B. frozen w occ b = Some (R, B) \<and> cpus w' tid = enter_regs R \<and>
       (R RET = swap_ret env \<longrightarrow> in_place w' b B))"

text \<open>The occupant of the common stack after the switch.\<close>

abbreviation new_occ :: "McoStackManager \<Rightarrow> McoStack \<Rightarrow> addr \<Rightarrow> addr" where
  "new_occ mg sb b \<equiv> (if is_private sb then commonOccupy mg else b)"

lemma switch_others:
  assumes sw: "switching env tid w cs mg a b" and mv: "moves env tid sp a b w mg ca sa ma cb sb mb w'"
    and r: "r \<noteq> a" "r \<noteq> b" "live w tid r"
  shows "\<exists>c'. cos w' r = Some c' \<and> suspended_ok env (new_occ mg sb b) r c' \<and>
    frozen w' (new_occ mg sb b) r = frozen w (commonOccupy mg) r"
proof -
  obtain c where c: "cos w r = Some c" "stackMgr c = Some tid" "start c"
    using r(3) by (auto simp: live_def)
  then have "suspended_ok env (commonOccupy mg) r c" "r \<noteq> 0" "occupant_ok w tid (commonOccupy mg)"
    using sw r by (auto simp: switching_def)
  from moves_bystander [OF mv r(1,2) c(1) this(2,1,3)] show ?thesis .
qed

lemma switch_leaver:
  assumes sw: "switching env tid w cs mg a b" and mv: "moves env tid sp a b w mg ca sa ma cb sb mb w'"
    and a: "cos w a = Some ca" "costack ca = Some sa" "has_ctx ca ma" and live: "live w tid a"
  shows "\<exists>c'. cos w' a = Some c' \<and> suspended_ok env (new_occ mg sb b) a c' \<and>
    frozen w' (new_occ mg sb b) a =
      Some (save_regs ((cpus w tid)(RET := swap_ret env)), stack_bytes w a sp)"
proof -
  have "a \<noteq> b" "a \<noteq> 0" "leaving_ok (commonOccupy mg) a ca" "occupant_ok w tid (commonOccupy mg)"
    using sw a(1) by (auto simp: switching_def)
  moreover have "start ca"
    using live a(1) by (simp add: live_def)
  ultimately show ?thesis
    using moves_leaving [OF mv _ a] a(1,2) by (simp add: stack_bytes_def)
qed

lemma switch_occupant:
  assumes mv: "moves env tid sp a b w mg ca sa ma cb sb mb w'" and ab: "a \<noteq> b"
    and a: "cos w a = Some ca" "costack ca = Some sa"
    and b: "cos w b = Some cb" "costack cb = Some sb" "stackMgr cb = Some tid" "start cb"
    and oc: "occupant_ok w tid (commonOccupy mg)" and core: "\<And>r. rel_option same_core (cos w r) (cos w' r)"
    and ent: "\<exists>c'. cos w' b = Some c' \<and> costack c' = Some sb"
  shows "occupant_ok w' tid (new_occ mg sb b)"
proof (cases "is_private sb")
  case True
  then show ?thesis
    using moves_occupant [OF mv a b(1,2) ab oc] by simp
next
  case False
  obtain d where d: "cos w' b = Some d" "costack d = Some sb"
    using ent by blast
  obtain d' where "cos w' b = Some d'" "same_core cb d'"
    by (rule core_forth [OF core b(1)])
  with d b(3,4) False show ?thesis
    by (simp add: occupant_ok_def same_core_def)
qed

lemma switch_sched:
  assumes sw: "switching env tid w cs mg a b" and core: "\<And>r. rel_option same_core (cos w r) (cos w' r)"
    and ent: "\<exists>d. cos w' b = Some d \<and> running_ok (commonOccupy mg') b d"
    and others: "\<And>r. r \<noteq> b \<Longrightarrow> live w tid r \<Longrightarrow>
      \<exists>d. cos w' r = Some d \<and> suspended_ok env (commonOccupy mg') r d"
    and mgr: "pool_free stackmgrs w'" "mgr_of w' tid = Some mg'" and csw: "callstacks w' = callstacks w"
    and oc: "occupant_ok w' tid (commonOccupy mg')"
  shows "sched_at env tid w' cs mg'"
proof -
  note lives = core_live [OF core]
  have last: "last (active cs) = b"
    using sw by (simp add: switching_def)
  have run: "\<forall>r c. cos w r = Some c \<longrightarrow> stackMgr c = Some tid \<longrightarrow> (running c \<longleftrightarrow> r = b)"
    using sw unfolding switching_def by blast
  have running: "running c \<longleftrightarrow> r = last (active cs)"
    if "cos w' r = Some c" "stackMgr c = Some tid" for r c
    unfolding last by (rule core_running [OF core run that])
  have parts: "if r = last (active cs) then running_ok (commonOccupy mg') r c
      else suspended_ok env (commonOccupy mg') r c"
    if c: "cos w' r = Some c" "stackMgr c = Some tid" "start c" for r c
  proof -
    have "live w tid r"
      using c unfolding lives [symmetric] by (simp add: live_def)
    then show ?thesis
      using others [of r] ent c(1) unfolding last by (metis option.inject)
  qed
  have "chained w' (active cs)"
    using sw by (intro core_chained [OF core]) (simp add: switching_def)
  moreover have "cos w' 0 = None"
    using core [of 0] sw by (simp add: switching_def)
  ultimately show ?thesis
    using sw csw mgr oc running parts unfolding sched_at_def switching_def
    by (simp add: lives pool_free_def inst_mutex_def inst_def lookup_item_def)
qed

lemma switch_keeps:
  assumes env: "sched_env env" and sw: "switching env tid w cs mg a b"
  shows "\<exists>w' mg'. McoSwap env tid sp a b w = (Inr (), w') \<and> sched_at env tid w' cs mg' \<and>
    switched env tid sp a b w (commonOccupy mg) w' (commonOccupy mg') \<and>
    (\<forall>r. rel_option same_core (cos w r) (cos w' r))"
proof -
  let ?occ = "commonOccupy mg"
  obtain w' ca sa ma cb sb mb where run: "McoSwap env tid sp a b w = (Inr (), w')"
    and a: "cos w a = Some ca" "stackMgr ca = Some tid" "costack ca = Some sa" "has_ctx ca ma"
    and b: "cos w b = Some cb" "stackMgr cb = Some tid" "costack cb = Some sb" "has_ctx cb mb"
    and pc: "regs mb RET = swap_ret env \<and> placed ?occ b cb sb \<or>
       regs mb RET = run_entry env \<and> \<not> stack_store cb"
    and mv: "moves env tid sp a b w mg ca sa ma cb sb mb w'"
    by (rule switch_runs [OF env sw])
  let ?mg = "if is_private sb then mg else mg\<lparr>commonOccupy := b\<rparr>"
  have occ': "commonOccupy ?mg = new_occ mg sb b"
    by simp
  have ab: "a \<noteq> b" and oc: "occupant_ok w tid ?occ" and en: "start cb" "\<not> codone cb" "\<not> done_yield cb"
    using sw a b by (auto simp: switching_def entering_ok_def)
  have core: "rel_option same_core (cos w r) (cos w' r)" for r
    by (rule moves_core [OF mv a(1) b(1) oc])
  note others = switch_others [OF sw mv] and la = switch_leaver [OF sw mv a(1,3,4)]
  have pcs: "run_entry env \<noteq> swap_ret env"
    using env by (simp add: sched_env_def)
  note ent = moves_entering [OF mv ab b(3,4) en(2,3) pc pcs]
  have sched: "sched_at env tid w' cs ?mg"
  proof (rule switch_sched [where mg' = ?mg, OF sw core, unfolded occ'])
    show "\<exists>d. cos w' b = Some d \<and> running_ok (new_occ mg sb b) b d"
      using ent(1) by blast
    show "\<exists>d. cos w' r = Some d \<and> suspended_ok env (new_occ mg sb b) r d"
      if "r \<noteq> b" "live w tid r" for r
      using others [OF _ that] la that by (cases "r = a") blast+
    show "occupant_ok w' tid (new_occ mg sb b)"
      using ent(1) by (intro switch_occupant [OF mv ab a(1,3) b(1,3,2) en(1) oc core]) blast
  qed (use mv in \<open>simp_all add: moves_def\<close>)
  have "in_place w' b (if is_private sb then None else Some (stack_image w ?occ b sb))"
    if "regs mb RET = swap_ret env"
    using ent(1,3) that by (auto simp: in_place_def)
  then have "switched env tid sp a b w ?occ w' (commonOccupy ?mg)"
    unfolding switched_def occ'
    using others la core_live [OF core] frozen_eq [OF b(1,4,3), of ?occ] ent(2) by blast
  with run core sched show ?thesis
    by blast
qed

end
