(* ===== verification/McoDispatch.thy ===== *)
theory McoDispatch
  imports McoSwitch
begin

text \<open>
  \<open>McoYield\<close>, \<open>McoResume\<close>, the end of \<open>CoroutineRun\<close> and \<open>McoFree\<close> on a thread whose call
  stack exists: each keeps the scheduling invariant, and each does to the abstract scheduler
  state (the order of the running coroutines and what each sleeping one will continue with)
  exactly what its specification says.
\<close>

subsection \<open>The abstract scheduler\<close>

text \<open>
  \<open>order\<close> lists the coroutines in the call stack from the bottom, the last one runs. \<open>asleep\<close>
  holds, for every other started coroutine, the registers and the part of the common stack it
  will continue with (no stack bytes for a coroutine with a stack of its own).
\<close>

type_synonym snapshot = "regfile \<times> byte list option"

record sched =
  order :: "addr list"
  asleep :: "addr \<rightharpoonup> snapshot"

definition spec_yield :: "snapshot \<Rightarrow> sched \<Rightarrow> sched" where
  "spec_yield now S = \<lparr>order = butlast (order S),
     asleep = (asleep S)(last (order S) \<mapsto> now, last (butlast (order S)) := None)\<rparr>"

definition spec_finish :: "sched \<Rightarrow> sched" where
  "spec_finish S = \<lparr>order = butlast (order S),
     asleep = (asleep S)(last (butlast (order S)) := None)\<rparr>"

definition spec_resume :: "addr \<Rightarrow> snapshot \<Rightarrow> sched \<Rightarrow> sched" where
  "spec_resume r now S = \<lparr>order = order S @ [r],
     asleep = (asleep S)(last (order S) \<mapsto> now, r := None)\<rparr>"

definition sched_of :: "int \<Rightarrow> world \<Rightarrow> sched" where
  "sched_of tid w =
    (let cs = the (cs_of w tid); occ = commonOccupy (the (mgr_of w tid)) in
     \<lparr>order = active cs,
      asleep = (\<lambda>r. if live w tid r \<and> r \<noteq> last (active cs) then frozen w occ r else None)\<rparr>)"

text \<open>What the coroutine running on \<open>tid\<close> leaves behind when it is switched away from.\<close>

definition now_of :: "env \<Rightarrow> int \<Rightarrow> addr \<Rightarrow> addr \<Rightarrow> world \<Rightarrow> snapshot" where
  "now_of env tid sp r w = (save_regs ((cpus w tid)(RET := swap_ret env)), stack_bytes w r sp)"

text \<open>The CPU continues coroutine \<open>r\<close> from a snapshot, the stack bytes back in place.\<close>

definition continues :: "env \<Rightarrow> int \<Rightarrow> addr \<Rightarrow> snapshot \<Rightarrow> world \<Rightarrow> bool" where
  "continues env tid r f w \<longleftrightarrow> cpus w tid = enter_regs (fst f) \<and>
     (fst f RET = swap_ret env \<longrightarrow> in_place w r (snd f))"

lemma sched_of_at:
  "cs_of w tid = Some cs \<Longrightarrow> mgr_of w tid = Some mg \<Longrightarrow> sched_of tid w = \<lparr>order = active cs,
     asleep = (\<lambda>r. if live w tid r \<and> r \<noteq> last (active cs) then frozen w (commonOccupy mg) r
       else None)\<rparr>"
  by (simp add: sched_of_def)

lemma sched_atD:
  assumes "sched_at env tid w cs mg"
  shows "pool_free callstacks w" "pool_free stackmgrs w" "cos w 0 = None"
    "cs_of w tid = Some cs" "mgr_of w tid = Some mg" "cs_filled cs" "0 < cs_index cs"
    "distinct (active cs)" "chained w (active cs)" "occupant_ok w tid (commonOccupy mg)"
    "r \<in> set (active cs) \<Longrightarrow> live w tid r"
    "cos w r = Some c \<Longrightarrow> stackMgr c = Some tid \<Longrightarrow> running c \<longleftrightarrow> r = last (active cs)"
  using assms unfolding sched_at_def by (blast | presburger)+

lemma sched_at_started:
  assumes "sched_at env tid w cs mg" "cos w r = Some c" "stackMgr c = Some tid" "start c"
  shows "r = last (active cs) \<Longrightarrow> running_ok (commonOccupy mg) r c"
    and "r \<noteq> last (active cs) \<Longrightarrow> suspended_ok env (commonOccupy mg) r c"
proof -
  have "if r = last (active cs) then running_ok (commonOccupy mg) r c
      else suspended_ok env (commonOccupy mg) r c"
    using assms unfolding sched_at_def by blast
  then show "r = last (active cs) \<Longrightarrow> running_ok (commonOccupy mg) r c"
    and "r \<noteq> last (active cs) \<Longrightarrow> suspended_ok env (commonOccupy mg) r c"
    by (simp_all split: if_splits)
qed

lemma active_nonnull:
  assumes "sched_at env tid w cs mg"
  shows "0 \<notin> set (active cs)" "active cs \<noteq> []" "last (active cs) \<in> set (active cs)"
proof -
  show "0 \<notin> set (active cs)"
    using sched_atD(3) [OF assms] sched_atD(11) [OF assms, of 0] by (auto simp: live_def)
  show "active cs \<noteq> []"
    using sched_atD(7) [OF assms] length_active [of cs] by (metis list.size(3) less_numeral_extra(3))
  then show "last (active cs) \<in> set (active cs)"
    by simp
qed

lemma frozen_cong:
  assumes "cos w' r = cos w r \<or> (\<exists>c c'. cos w r = Some c \<and> cos w' r = Some c' \<and>
      coctx c' = coctx c \<and> costack c' = costack c)" and m: "mem w' = mem w"
  shows "frozen w' occ r = frozen w occ r"
proof -
  have "stack_image w' occ r = stack_image w occ r"
    by (simp add: stack_image_def fun_eq_iff m)
  with assms(1) show ?thesis
    by (elim disjE exE conjE) (simp_all only: frozen_def option.case)
qed

lemma stack_bytes_cong:
  "(cos w r = Some c \<and> cos w' r = Some c' \<and> costack c' = costack c) \<Longrightarrow> mem w' = mem w \<Longrightarrow>
   stack_bytes w' r sp = stack_bytes w r sp"
  by (auto simp: stack_bytes_def split: option.splits)

lemma chained_frame:
  assumes ch: "chained w (xs @ zs)"
    and fr: "\<And>x c'. x \<in> set xs \<Longrightarrow> cos w' x = Some c' \<Longrightarrow> \<exists>c. cos w x = Some c \<and> sink c' = sink c"
  shows "chained w' xs"
  unfolding chained_def
proof (intro allI impI)
  fix i c'
  assume i: "i < length xs" and c': "cos w' (xs ! i) = Some c'"
  obtain c where c: "cos w (xs ! i) = Some c" "sink c' = sink c"
    using fr [OF _ c'] i by auto
  have "cos w ((xs @ zs) ! i) = Some c" "i < length (xs @ zs)"
    using i c by (simp_all add: nth_append)
  then have "sink c = (if i = 0 then 0 else (xs @ zs) ! (i - 1))"
    using ch unfolding chained_def by blast
  then show "sink c' = (if i = 0 then 0 else xs ! (i - 1))"
    using c i by (auto simp: nth_append)
qed

lemma chained_snoc:
  assumes "chained w xs" and "\<And>c. cos w r = Some c \<Longrightarrow> sink c = (if xs = [] then 0 else last xs)"
  shows "chained w (xs @ [r])"
  using assms unfolding chained_def
  by (auto simp: nth_append less_Suc_eq last_conv_nth split: if_splits)

lemma top_two:
  assumes "distinct (xs @ [s, r])"
  shows "last (xs @ [s, r]) = r" "butlast (xs @ [s, r]) = xs @ [s]" "s \<noteq> r"
    "last (butlast (xs @ [s, r])) = s"
  using assms by (simp_all add: butlast_append)

subsection \<open>McoYield\<close>

text \<open>The state \<open>McoYield\<close> calls \<open>McoSwap\<close> in; \<open>fin\<close> is set if the coroutine has finished.\<close>

definition yield_pre ::
  "int \<Rightarrow> bool \<Rightarrow> addr \<Rightarrow> McoRoutine \<Rightarrow> addr \<Rightarrow> McoRoutine \<Rightarrow> McoCallStack \<Rightarrow> world \<Rightarrow> world"
where
  "yield_pre tid fin r c s k cs w =
    put_co s (k\<lparr>running := True\<rparr>)
      (put_co r (c\<lparr>codone := fin, done_yield := fin, start := \<not> fin, running := False,
          in_callstack := True\<rparr>)
        (put_cs tid (cs\<lparr>cs_index := cs_index cs - 1\<rparr>) w))"

lemma yield_unfold:
  assumes env: "sched_env env" and at: "sched_at env tid w cs mg" and act: "active cs = xs @ [s, r]"
    and c: "cos w r = Some c" and k: "cos w s = Some k"
  shows "McoYield env tid sp r (put_co r (c\<lparr>codone := fin\<rparr>) w) =
    McoSwap env tid sp r s (yield_pre tid fin r c s k cs w)"
proof -
  have n: "cs_index cs = length xs + 2"
    using arg_cong [OF act, of length] by simp
  have r: "r \<noteq> 0" "s \<noteq> 0" "r \<noteq> s"
    using sched_atD(3,8) [OF at] c k act by auto
  have lr: "live w tid r" and ch: "sink c = s"
    using sched_atD(11) [OF at, of r] sched_atD(9) [OF at] act c
    by (auto simp: chained_def nth_append dest: spec [of _ "Suc (length xs)"])
  then have run: "running c" "\<not> codone c" "\<not> done_yield c" "start c"
    using sched_atD(12) [OF at c] sched_at_started(1) [OF at c] c act
    by (auto simp: live_def running_ok_def)
  have dbg: "\<not> dbg env"
    using env by (simp add: sched_env_def)
  have idx: "sz_sub (cs_index cs) (Suc 0) = cs_index cs - Suc 0"
    using n by (simp add: sz_sub_def)
  have same: "c\<lparr>codone := False, running := False, in_callstack := True\<rparr> =
      c\<lparr>codone := False, done_yield := False, start := True, running := False,
        in_callstack := True\<rparr>"
    using run by (cases c) simp
  show ?thesis
    using r c k run ch dbg sched_atD(1,4) [OF at]
    by (cases fin) (simp_all add: McoYield_def comp_defs cassert_def getCurrIndex_def
        setCurrIndex_def idx yield_pre_def same)
qed

lemma yield_pre_cos:
  "s \<noteq> r \<Longrightarrow> cos (yield_pre tid fin r c s k cs w) x = (if x = s then Some (k\<lparr>running := True\<rparr>)
     else if x = r then Some (c\<lparr>codone := fin, done_yield := fin, start := \<not> fin,
       running := False, in_callstack := True\<rparr>) else cos w x)"
  by (simp add: yield_pre_def)

lemma yield_switching:
  assumes env: "sched_env env" and at: "sched_at env tid w cs mg" and act: "active cs = xs @ [s, r]"
    and c: "cos w r = Some c" and k: "cos w s = Some k"
  shows "switching env tid (yield_pre tid fin r c s k cs w) (cs\<lparr>cs_index := cs_index cs - 1\<rparr>)
    mg r s"
proof -
  let ?w = "yield_pre tid fin r c s k cs w"
  let ?cs = "cs\<lparr>cs_index := cs_index cs - 1\<rparr>"
  have n: "cs_index cs = length xs + 2"
    using arg_cong [OF act, of length] by simp
  have d: "distinct (xs @ [s, r])"
    using sched_atD(8) [OF at] act by simp
  then have sr: "s \<noteq> r" by simp
  have act': "active ?cs = xs @ [s]"
    using top_two(2) [OF d] active_pop(1) [of cs] act by simp
  note cosx = yield_pre_cos [OF sr, of tid fin c k cs w]
  have lr: "stackMgr c = Some tid" "start c" and ls: "stackMgr k = Some tid" "start k"
    using sched_atD(11) [OF at, of r] sched_atD(11) [OF at, of s] act c k
    by (auto simp: live_def)
  have rok: "running_ok (commonOccupy mg) r c"
    using sched_at_started(1) [OF at c lr] act by simp
  have sok: "suspended_ok env (commonOccupy mg) s k"
    using sched_at_started(2) [OF at k ls] act sr by simp
  have occ: "occupant_ok ?w tid (commonOccupy mg)"
    using sched_atD(10) [OF at] c k unfolding occupant_ok_def cosx
    by (auto simp: finished_def)
  have ch: "chained ?w (xs @ [s])"
    by (rule chained_frame [of w _ "[r]"])
      (use sched_atD(9) [OF at] c k act in \<open>auto simp: cosx split: if_splits\<close>)
  have lv: "live ?w tid x" if "x \<in> set (xs @ [s])" for x
    using sched_atD(11) [OF at, of x] that ls d unfolding act live_def cosx by auto
  have run: "running c' \<longleftrightarrow> x = s" if "cos ?w x = Some c'" "stackMgr c' = Some tid" for x c'
    using that sched_atD(12) [OF at, of x c'] act unfolding cosx by (auto split: if_splits)
  have sus: "suspended_ok env (commonOccupy mg) x c'"
    if "x \<noteq> r" "x \<noteq> s" "cos ?w x = Some c'" "stackMgr c' = Some tid" "start c'" for x c'
    using sched_at_started(2) [OF at, of x c'] that act unfolding cosx by simp
  have lo: "\<exists>c. cos ?w r = Some c \<and> stackMgr c = Some tid \<and> leaving_ok (commonOccupy mg) r c"
    using sr lr rok unfolding cosx
    by (auto simp: leaving_ok_def running_ok_def finished_def has_ctx_def)
  have en: "\<exists>c. cos ?w s = Some c \<and> stackMgr c = Some tid \<and> start c \<and>
      entering_ok env (commonOccupy mg) s c"
    using ls sok unfolding cosx
    by (auto simp: entering_ok_def suspended_ok_def placed_def has_ctx_def split: if_splits)
  show ?thesis
    unfolding switching_def act'
  proof (intro conjI)
    show "pool_free callstacks ?w" "pool_free stackmgrs ?w" "cos ?w 0 = None"
      "cs_of ?w tid = Some ?cs" "mgr_of ?w tid = Some mg" "cs_filled ?cs"
      using sched_atD(1-7) [OF at] c k active_pop(2) [of cs]
      by (auto simp: yield_pre_def)
    show "0 < cs_index ?cs" "distinct (xs @ [s])" "last (xs @ [s]) = s" "r \<noteq> s"
      using n d by auto
  qed (use lv ch run lo en sus occ in blast)+
qed

lemma yield_pre_same:
  assumes c: "cos w r = Some c" and k: "cos w s = Some k" and sr: "s \<noteq> r"
    and lr: "stackMgr c = Some tid" "start c"
  shows "frozen (yield_pre tid fin r c s k cs w) occ x = frozen w occ x"
    and "stack_bytes (yield_pre tid fin r c s k cs w) r sp = stack_bytes w r sp"
    and "live (yield_pre tid fin r c s k cs w) tid x \<longleftrightarrow> live w tid x \<and> \<not> (fin \<and> x = r)"
    and "cpus (yield_pre tid fin r c s k cs w) = cpus w"
proof -
  note cosx = yield_pre_cos [OF sr, of tid fin c k cs w]
  have m: "mem (yield_pre tid fin r c s k cs w) = mem w"
    by (simp add: yield_pre_def)
  show "frozen (yield_pre tid fin r c s k cs w) occ x = frozen w occ x"
    using c k by (intro frozen_cong [OF _ m]) (auto simp: cosx)
  show "stack_bytes (yield_pre tid fin r c s k cs w) r sp = stack_bytes w r sp"
    using c sr by (intro stack_bytes_cong [OF _ m]) (auto simp: cosx)
  show "live (yield_pre tid fin r c s k cs w) tid x \<longleftrightarrow> live w tid x \<and> \<not> (fin \<and> x = r)"
    using c k sr lr unfolding live_def cosx by auto
  show "cpus (yield_pre tid fin r c s k cs w) = cpus w"
    by (simp add: yield_pre_def)
qed

text \<open>
  The switch back to the coroutine below: \<open>fin\<close> says whether the one on top has finished.
\<close>

lemma yield_keeps:
  assumes env: "sched_env env" and at: "sched_at env tid w cs mg" and act: "active cs = xs @ [s, r]"
    and c: "cos w r = Some c"
  shows "\<exists>w' mg'. McoYield env tid sp r (put_co r (c\<lparr>codone := fin\<rparr>) w) = (Inr (), w') \<and>
    sched_at env tid w' (cs\<lparr>cs_index := cs_index cs - 1\<rparr>) mg' \<and>
    sched_of tid w' = (if fin then spec_finish (sched_of tid w)
      else spec_yield (now_of env tid sp r w) (sched_of tid w)) \<and>
    (\<exists>f. asleep (sched_of tid w) s = Some f \<and> continues env tid s f w') \<and>
    (fin \<longrightarrow> (\<exists>c. cos w' r = Some c \<and> finished c))"
proof -
  let ?cs = "cs\<lparr>cs_index := cs_index cs - 1\<rparr>"
  obtain k where k: "cos w s = Some k"
    using sched_atD(11) [OF at, of s] act by (auto simp: live_def)
  let ?w = "yield_pre tid fin r c s k cs w"
  have d: "distinct (xs @ [s, r])"
    using sched_atD(8) [OF at] act by simp
  then have sr: "s \<noteq> r" by simp
  have lr: "stackMgr c = Some tid" "start c"
    using sched_atD(11) [OF at, of r] act c by (auto simp: live_def)
  note same = yield_pre_same [OF c k sr lr]
  obtain w' mg' where sw: "McoSwap env tid sp r s ?w = (Inr (), w')"
      "sched_at env tid w' ?cs mg'"
      "switched env tid sp r s ?w (commonOccupy mg) w' (commonOccupy mg')"
      "rel_option same_core (cos ?w r) (cos w' r)"
    using switch_keeps [OF env yield_switching [OF env at act c k]] by blast
  note run = yield_unfold [OF env at act c k, of sp fin, folded sw(1)]
  have act': "active ?cs = xs @ [s]"
    using top_two(2) [OF d] active_pop(1) [of cs] act by simp
  have S: "sched_of tid w = \<lparr>order = xs @ [s, r],
     asleep = (\<lambda>x. if live w tid x \<and> x \<noteq> r then frozen w (commonOccupy mg) x else None)\<rparr>"
    using sched_of_at [OF sched_atD(4,5) [OF at]] act by simp
  have S': "sched_of tid w' = \<lparr>order = xs @ [s],
     asleep = (\<lambda>x. if live w' tid x \<and> x \<noteq> s then frozen w' (commonOccupy mg') x else None)\<rparr>"
    using sched_of_at [OF sched_atD(4,5) [OF sw(2)]] act' by simp
  have lives: "live w' tid x \<longleftrightarrow> live w tid x \<and> \<not> (fin \<and> x = r)" for x
    using sw(3) unfolding switched_def same by blast
  have fr: "frozen w' (commonOccupy mg') x = frozen w (commonOccupy mg) x"
    if "x \<noteq> r" "x \<noteq> s" "live w tid x" for x
    using sw(3) that unfolding switched_def same by blast
  have now: "frozen w' (commonOccupy mg') r = Some (now_of env tid sp r w)" if "\<not> fin"
    using sw(3) that c lr unfolding switched_def same now_of_def by (auto simp: live_def)
  have lrs: "live w tid r" "live w tid s"
    using sched_atD(11) [OF at] act by simp_all
  have "sched_of tid w' = (if fin then spec_finish (sched_of tid w)
      else spec_yield (now_of env tid sp r w) (sched_of tid w))"
    unfolding S S' spec_finish_def spec_yield_def
    using top_two(2) [OF d] lives fr now lrs sr by (auto simp: fun_eq_iff)
  moreover have "\<exists>f. asleep (sched_of tid w) s = Some f \<and> continues env tid s f w'"
    using sw(3) lrs sr unfolding S switched_def same continues_def by force
  moreover have "\<exists>c. cos w' r = Some c \<and> finished c" if "fin"
    using sw(4) that sr
    by (auto simp: yield_pre_cos finished_def same_core_def option_rel_Some1)
  ultimately show ?thesis
    using run sw(1,2) by (intro exI [of _ w'] exI [of _ mg']) simp
qed

subsection \<open>McoResume\<close>

text \<open>
  The push of a coroutine onto the call stack, from the state in which it is started
  (object \<open>c\<close>), with \<open>s\<close> (object \<open>k\<close>) on top.
\<close>

definition cs_pushed :: "McoCallStack \<Rightarrow> addr \<Rightarrow> McoCallStack" where
  "cs_pushed cs r = cs\<lparr>cs_index := cs_index cs + 1,
    callStack := AList.update (cs_index cs) r (AList.update (cs_index cs)
      (case map_of (callStack cs) (cs_index cs) of None \<Rightarrow> 0 | Some r' \<Rightarrow> r') (callStack cs))\<rparr>"

definition resume_pre ::
  "int \<Rightarrow> addr \<Rightarrow> McoRoutine \<Rightarrow> addr \<Rightarrow> McoRoutine \<Rightarrow> McoCallStack \<Rightarrow> world \<Rightarrow> world" where
  "resume_pre tid r c s k cs w =
    put_co r (c\<lparr>running := True, sink := s, in_callstack := True\<rparr>)
      (put_co s (k\<lparr>running := False\<rparr>) (put_cs tid (cs_pushed cs r) w))"

lemma cs_pushed_active:
  assumes "cs_filled cs"
  shows "active (cs_pushed cs r) = active cs @ [r]" "cs_filled (cs_pushed cs r)"
  using assms by (auto simp: active_def cs_filled_def cs_pushed_def update_conv less_Suc_eq)

lemma index_room:
  assumes at: "sched_at env tid w cs mg" and r: "r \<noteq> 0" "r \<notin> set (active cs)"
  shows "cs_index cs < 2 ^ 64 - 1"
proof -
  have "length (r # active cs) < 2 ^ 64"
    using sched_atD(8) [OF at] active_nonnull(1) [OF at] r
    by (intro distinct_addresses_bound) auto
  then show ?thesis by simp
qed

text \<open>What \<open>McoResume\<close> does before the switch, once the coroutine is started.\<close>

lemma resume_unfold:
  assumes env: "sched_env env" and at: "sched_at env tid w cs mg"
    and s: "last (active cs) = s" "cos w s = Some k"
    and r: "cos w r = Some c0" "stackMgr c0 = Some tid" "r \<notin> set (active cs)"
      "\<not> (codone c0 \<and> done_yield c0)" "sink k \<noteq> r"
    and st: "start_co env r w = (Inr True, w1)" "cos w1 = (cos w)(r \<mapsto> c)"
      "callstacks w1 = callstacks w" "costack c = Some sc"
  shows "McoResume env tid sp r w = McoSwap env tid sp s r (resume_pre tid r c s k cs w1)"
proof -
  have nz: "r \<noteq> 0" and ne: "active cs \<noteq> []"
    using sched_atD(3) [OF at] active_nonnull(2) [OF at] r by auto
  have sin: "s \<in> set (active cs)"
    using s ne by auto
  then have sr: "s \<noteq> r" "s \<noteq> 0"
    using r sched_atD(3) [OF at] s by auto
  have nrun: "\<not> running c0"
    using sched_atD(12) [OF at r(1,2)] sr s by simp
  have "live w tid s" using sched_atD(11) [OF at sin] .
  then obtain ks where ks: "costack k = Some ks"
    using sched_at_started(1) [OF at s(2)] s by (auto simp: live_def running_ok_def)
  have n: "0 < cs_index cs" "cs_index cs < 2 ^ 64 - 1"
    using sched_atD(7) [OF at] index_room [OF at nz r(3)] by simp_all
  have dbg: "\<not> dbg env"
    using env by (simp add: sched_env_def)
  have top: "map_of (callStack cs) (cs_index cs - Suc 0) = Some s"
  proof -
    have "active cs ! (cs_index cs - 1) = s"
      using ne s by (simp add: last_conv_nth)
    then show ?thesis
      using n sched_atD(6) [OF at] by (auto simp: active_def cs_filled_def)
  qed
  have csw: "cs_of w tid = Some cs" "cs_of w1 tid = Some cs"
    using sched_atD(4) [OF at] st(3) by (simp_all add: lookup_item_def inst_def)
  have s1: "cos w1 s = Some k" "cos w1 r = Some c"
    using st(2) s sr by simp_all
  have put: "put_co s k' (put_co r c' v) = put_co r c' (put_co s k' v)" for k' c' v
    using sr by (simp add: put_co_def fun_upd_twist)
  have al: "map_of (callStack (cs_pushed cs r)) (cs_index cs - Suc 0) = Some s"
    using top n by (auto simp: cs_pushed_def update_conv)
  have nfin: "(if running c0 \<or> codone c0 \<and> done_yield c0 then x else y) = y" for x y :: "(world, unit) comp"
    using r(4) nrun by auto
  show ?thesis
    using nz r(1-3,5) s sr n dbg sched_atD(1) [OF at] csw s1 st ks top al
    by (simp add: McoResume_def nfin comp_defs getCurrIndex_def setCurrIndex_def cs_at_present
        cs_store_apply resume_pre_def put cs_pushed_def update_conv)
qed

text \<open>A coroutine created for this thread and not started yet.\<close>

definition startable :: "int \<Rightarrow> world \<Rightarrow> addr \<Rightarrow> bool" where
  "startable tid w r \<longleftrightarrow> (\<exists>c. cos w r = Some c \<and> stackMgr c = Some tid \<and> \<not> start c \<and>
     \<not> codone c \<and> \<not> done_yield c \<and> \<not> stack_store c \<and> coctx c \<noteq> None)"

text \<open>The stack a coroutine gets: the thread's common stack, or a block of its own.\<close>

definition start_stack :: "env \<Rightarrow> McoStackManager \<Rightarrow> bool \<Rightarrow> nat \<Rightarrow> McoStack" where
  "start_stack env mg private k = McoStack_new\<lparr>stack := if private then the (heap_new env (k + 2))
      else commonStack mg, ssize := if private then privateSize mg else commonSize mg,
    stack_bp := if private then 0 else commonStack mg + commonSize mg, is_private := private\<rparr>"

definition start_ctx :: "env \<Rightarrow> addr \<Rightarrow> McoStack \<Rightarrow> Mcontext" where
  "start_ctx env r st =
    McontextMake \<lparr>regs = \<lambda>_. 0, ss_size = ssize st, ss_sp = stack st\<rparr> (run_entry env) r"

lemma start_fresh:
  assumes env: "sched_env env" and mg: "mgr_of w tid = Some mg"
    and r: "r \<noteq> 0" "cos w r = Some c" "stackMgr c = Some tid" "\<not> start c" "coctx c = Some x"
  defines "st \<equiv> start_stack env mg (use_private c) (news w)"
  shows "start_co env r w = (Inr True, put_co r
      (c\<lparr>costack := Some st, start := True, coctx := Some (x\<lparr>ctx := Ctx (start_ctx env r st)\<rparr>)\<rparr>)
      (w\<lparr>news := news w + (if use_private c then 3 else 2)\<rparr>))"
proof -
  have al: "\<exists>a. heap_new env n = Some a" for n
    using env by (auto simp: sched_env_def)
  obtain a0 a1 a2 where "heap_new env (news w) = Some a0" "heap_new env (Suc (news w)) = Some a1"
    "heap_new env (Suc (Suc (news w))) = Some a2"
    using al by blast
  then show ?thesis
    using r mg
    by (simp add: start_co_def InitMcoContext_def createCommonMcoStack_def
        createPrivateMcoStack_def get_mgr_def comp_defs new_block_apply put_ctx_def McontextInit_def
        start_ctx_def st_def start_stack_def McoStack_new_def)
qed

lemma start_ctx_regs:
  "regs (start_ctx env r st) RET = run_entry env" "regs (start_ctx env r st) RDI = r"
  by (simp_all add: start_ctx_def McontextMake_def Let_def)

lemma sink_of_top:
  assumes at: "sched_at env tid w cs mg" and k: "cos w (last (active cs)) = Some k"
  shows "sink k = 0 \<or> sink k \<in> set (active cs)"
proof -
  let ?i = "cs_index cs - 1"
  have n: "?i < length (active cs)" "0 < cs_index cs"
    using sched_atD(7) [OF at] by simp_all
  have "active cs ! ?i = last (active cs)"
    using active_nonnull(2) [OF at] by (simp add: last_conv_nth)
  then have "sink k = (if ?i = 0 then 0 else active cs ! (?i - 1))"
    using sched_atD(9) [OF at] n k unfolding chained_def by metis
  moreover have "active cs ! (?i - 1) \<in> set (active cs)"
    using n by (intro nth_mem) simp
  ultimately show ?thesis by auto
qed

lemma resume_pre_cos:
  "s \<noteq> r \<Longrightarrow> cos w = (cos w0)(r \<mapsto> c) \<Longrightarrow> cos (resume_pre tid r c s k cs w) x =
    (if x = r then Some (c\<lparr>running := True, sink := s, in_callstack := True\<rparr>)
     else if x = s then Some (k\<lparr>running := False\<rparr>) else cos w0 x)"
  by (simp add: resume_pre_def)

lemma resume_switching:
  assumes at: "sched_at env tid w cs mg"
    and s: "last (active cs) = s" "cos w s = Some k" and new: "r \<notin> set (active cs)"
    and w1: "cos w1 = (cos w)(r \<mapsto> c)" "callstacks w1 = callstacks w" "stackmgrs w1 = stackmgrs w"
    and c: "r \<noteq> 0" "stackMgr c = Some tid" "start c" "entering_ok env (commonOccupy mg) r c"
    and occ: "occupant_ok w1 tid (commonOccupy mg)"
  shows "switching env tid (resume_pre tid r c s k cs w1) (cs_pushed cs r) mg s r"
proof -
  let ?w = "resume_pre tid r c s k cs w1"
  have sr: "s \<noteq> r" "s \<in> set (active cs)"
    using active_nonnull(3) [OF at] s new by auto
  note cosx = resume_pre_cos [OF sr(1) w1(1), of tid k cs]
  have ls: "stackMgr k = Some tid" "start k"
    using sched_atD(11) [OF at sr(2)] s by (auto simp: live_def)
  have sok: "running_ok (commonOccupy mg) s k"
    using sched_at_started(1) [OF at s(2) ls] s by simp
  have act: "active (cs_pushed cs r) = active cs @ [r]" "cs_filled (cs_pushed cs r)"
    using cs_pushed_active [OF sched_atD(6) [OF at]] by simp_all
  have occ': "occupant_ok ?w tid (commonOccupy mg)"
    using occ s sr unfolding occupant_ok_def cosx w1 by (auto simp: finished_def)
  have "chained ?w (active cs)"
    by (rule chained_frame [of w _ "[]"])
      (use sched_atD(9) [OF at] new s in \<open>auto simp: cosx split: if_splits\<close>)
  then have ch: "chained ?w (active cs @ [r])"
    using active_nonnull(2) [OF at] s by (intro chained_snoc) (auto simp: cosx)
  have lv: "live ?w tid x" if "x \<in> set (active cs @ [r])" for x
    using that sched_atD(11) [OF at, of x] c s ls unfolding live_def cosx by auto
  have run: "running c' \<longleftrightarrow> x = r" if "cos ?w x = Some c'" "stackMgr c' = Some tid" for x c'
    using that sched_atD(12) [OF at, of x c'] s unfolding cosx by (auto split: if_splits)
  have sus: "suspended_ok env (commonOccupy mg) x c'"
    if "x \<noteq> s" "x \<noteq> r" "cos ?w x = Some c'" "stackMgr c' = Some tid" "start c'" for x c'
    using sched_at_started(2) [OF at, of x c'] that s unfolding cosx by simp
  have lo: "\<exists>c. cos ?w s = Some c \<and> stackMgr c = Some tid \<and> leaving_ok (commonOccupy mg) s c"
    using sr ls sok unfolding cosx
    by (auto simp: leaving_ok_def running_ok_def finished_def has_ctx_def)
  have en: "\<exists>c. cos ?w r = Some c \<and> stackMgr c = Some tid \<and> start c \<and>
      entering_ok env (commonOccupy mg) r c"
    using c unfolding cosx
    by (auto simp: entering_ok_def placed_def has_ctx_def split: if_splits)
  show ?thesis
    unfolding switching_def act
  proof (intro conjI)
    have free: "pool_free callstacks w1" "pool_free stackmgrs w1" "mgr_of w1 tid = Some mg"
      using sched_atD(1,2,5) [OF at] w1
      by (simp_all add: pool_free_def inst_mutex_def inst_def lookup_item_def)
    then show "pool_free callstacks ?w" "pool_free stackmgrs ?w" "mgr_of ?w tid = Some mg"
      by (simp_all add: resume_pre_def)
    show "cos ?w 0 = None"
      using sched_atD(3) [OF at] c(1) s unfolding cosx by auto
    show "cs_of ?w tid = Some (cs_pushed cs r)"
      by (simp add: resume_pre_def)
    show "0 < cs_index (cs_pushed cs r)"
      by (simp add: cs_pushed_def)
    show "distinct (active cs @ [r])" "last (active cs @ [r]) = r" "s \<noteq> r"
      using sched_atD(8) [OF at] new sr by simp_all
    show "cs_filled (cs_pushed cs r)"
      by (rule act)
  qed (use lv ch run lo en sus occ' in blast)+
qed

lemma resume_pre_same:
  assumes s: "cos w s = Some k" "s \<noteq> r" "stackMgr k = Some tid" "start k"
    and w1: "cos w1 = (cos w)(r \<mapsto> c)" "mem w1 = mem w" "cpus w1 = cpus w"
    and c: "stackMgr c = Some tid" "start c"
  shows "x \<noteq> r \<Longrightarrow> frozen (resume_pre tid r c s k cs w1) occ x = frozen w occ x"
    and "frozen (resume_pre tid r c s k cs w1) occ r = frozen w1 occ r"
    and "stack_bytes (resume_pre tid r c s k cs w1) s sp = stack_bytes w s sp"
    and "live (resume_pre tid r c s k cs w1) tid x \<longleftrightarrow> x = r \<or> live w tid x"
    and "cpus (resume_pre tid r c s k cs w1) = cpus w"
proof -
  note cosx = resume_pre_cos [OF s(2) w1(1), of tid k cs]
  have m: "mem (resume_pre tid r c s k cs w1) = mem w"
    "mem (resume_pre tid r c s k cs w1) = mem w1"
    using w1 by (simp_all add: resume_pre_def)
  show "x \<noteq> r \<Longrightarrow> frozen (resume_pre tid r c s k cs w1) occ x = frozen w occ x"
    using s by (intro frozen_cong [OF _ m(1)]) (auto simp: cosx)
  show "frozen (resume_pre tid r c s k cs w1) occ r = frozen w1 occ r"
    using w1 by (intro frozen_cong [OF _ m(2)]) (auto simp: cosx)
  show "stack_bytes (resume_pre tid r c s k cs w1) s sp = stack_bytes w s sp"
    using s by (intro stack_bytes_cong [OF _ m(1)]) (auto simp: cosx)
  show "live (resume_pre tid r c s k cs w1) tid x \<longleftrightarrow> x = r \<or> live w tid x"
    using s c unfolding live_def cosx by auto
  show "cpus (resume_pre tid r c s k cs w1) = cpus w"
    using w1 by (simp add: resume_pre_def)
qed

lemma resume_keeps:
  assumes env: "sched_env env" and at: "sched_at env tid w cs mg" and s: "last (active cs) = s"
    and r: "cos w r = Some c0" "stackMgr c0 = Some tid" "r \<notin> set (active cs)"
      "\<not> (codone c0 \<and> done_yield c0)"
    and st: "start_co env r w = (Inr True, w1)" "cos w1 = (cos w)(r \<mapsto> c)"
      "callstacks w1 = callstacks w" "stackmgrs w1 = stackmgrs w" "mem w1 = mem w" "cpus w1 = cpus w"
    and c: "stackMgr c = Some tid" "start c" "entering_ok env (commonOccupy mg) r c"
    and occ: "occupant_ok w1 tid (commonOccupy mg)"
  shows "\<exists>w' mg' f. McoResume env tid sp r w = (Inr (), w') \<and>
    sched_at env tid w' (cs_pushed cs r) mg' \<and>
    sched_of tid w' = spec_resume r (now_of env tid sp s w) (sched_of tid w) \<and>
    frozen w1 (commonOccupy mg) r = Some f \<and> continues env tid r f w'"
proof -
  let ?occ = "commonOccupy mg"
  have sin: "s \<in> set (active cs)" and ne: "active cs \<noteq> []"
    using active_nonnull(2,3) [OF at] s by auto
  then have sr: "s \<noteq> r" and rz: "r \<noteq> 0"
    using r sched_atD(3) [OF at] by auto
  have ls: "live w tid s"
    using sched_atD(11) [OF at sin] .
  then obtain k where k: "cos w s = Some k" "stackMgr k = Some tid" "start k"
    by (auto simp: live_def)
  have snk: "sink k \<noteq> r"
    using sink_of_top [OF at] k s r rz by auto
  obtain sc where sc: "costack c = Some sc"
    using c by (auto simp: entering_ok_def)
  let ?w = "resume_pre tid r c s k cs w1"
  note same = resume_pre_same [OF k(1) sr k(2,3) st(2,5,6) c(1,2)]
  have act: "active (cs_pushed cs r) = active cs @ [r]"
    using cs_pushed_active [OF sched_atD(6) [OF at]] by simp
  obtain w' mg' where sw: "McoSwap env tid sp s r ?w = (Inr (), w')"
      "sched_at env tid w' (cs_pushed cs r) mg'"
      "switched env tid sp s r ?w ?occ w' (commonOccupy mg')"
    using switch_keeps [OF env resume_switching [OF at s k(1) r(3) st(2-4) rz c occ]] by blast
  have run: "McoResume env tid sp r w = (Inr (), w')"
    using resume_unfold [OF env at s k(1) r snk st(1-3) sc] sw(1) by simp
  have S: "sched_of tid w = \<lparr>order = active cs,
     asleep = (\<lambda>x. if live w tid x \<and> x \<noteq> s then frozen w ?occ x else None)\<rparr>"
    using sched_of_at [OF sched_atD(4,5) [OF at]] s by simp
  have S': "sched_of tid w' = \<lparr>order = active cs @ [r],
     asleep = (\<lambda>x. if live w' tid x \<and> x \<noteq> r then frozen w' (commonOccupy mg') x else None)\<rparr>"
    using sched_of_at [OF sched_atD(4,5) [OF sw(2)]] act by simp
  have lives: "live w' tid x \<longleftrightarrow> x = r \<or> live w tid x" for x
    using sw(3) unfolding switched_def same by blast
  have fr: "frozen w' (commonOccupy mg') x = frozen w ?occ x"
    if "x \<noteq> r" "x \<noteq> s" "live w tid x" for x
  proof -
    have "frozen w' (commonOccupy mg') x = frozen ?w ?occ x"
      using sw(3) that unfolding switched_def same(4) by blast
    then show ?thesis
      by (simp add: same(1) [OF that(1)])
  qed
  have now: "frozen w' (commonOccupy mg') s = Some (now_of env tid sp s w)"
    using sw(3) ls unfolding switched_def same(3-5) now_of_def by blast
  have "sched_of tid w' = spec_resume r (now_of env tid sp s w) (sched_of tid w)"
    unfolding S S' spec_resume_def
    using lives fr now sr ls s by (auto simp: fun_eq_iff)
  moreover have "\<exists>f. frozen w1 ?occ r = Some f \<and> continues env tid r f w'"
    using sw(3) unfolding switched_def same(2) continues_def by force
  ultimately show ?thesis
    using run sw(2) by blast
qed

end
