(* ===== verification/McoContract.thy ===== *)
theory McoContract
  imports McoDispatch
begin

text \<open>
  What the exported operations of the coroutine layer promise on a thread whose call stack
  exists: each is stated over the abstract scheduler state \<open>sched_of\<close>.
\<close>

lemma sched_invE:
  assumes "sched_inv env tid w"
  obtains cs mg where "sched_at env tid w cs mg" "order (sched_of tid w) = active cs"
proof -
  obtain cs mg where at: "sched_at env tid w cs mg"
    using assms by (auto simp: sched_inv_def)
  then show thesis
    using that [OF at] sched_of_at [OF sched_atD(4,5) [OF at]] by simp
qed

lemma sched_invI: "sched_at env tid w cs mg \<Longrightarrow> sched_inv env tid w"
  by (auto simp: sched_inv_def)

lemma put_co_same: "cos w r = Some c \<Longrightarrow> put_co r c w = w"
  by (cases w) (simp add: put_co_def map_upd_triv)

subsection \<open>Calls that do nothing\<close>

lemma McoResume_nop:
  "r = 0 \<or> (\<exists>c. cos w r = Some c \<and> (running c \<or> finished c)) \<Longrightarrow>
   McoResume env tid sp r w = (Inr (), w)"
  by (cases "r = 0") (auto simp: McoResume_def comp_defs finished_def)

lemma McoYield_nop:
  "r = 0 \<or> (\<exists>c. cos w r = Some c \<and> (\<not> running c \<or> finished c)) \<Longrightarrow>
   McoYield env tid sp r w = (Inr (), w)"
  by (cases "r = 0") (auto simp: McoYield_def comp_defs finished_def)

subsection \<open>Yield and finish\<close>

lemma yield_contract:
  assumes env: "sched_env env" and inv: "sched_inv env tid w"
    and ord: "order (sched_of tid w) = xs @ [s, r]"
  shows "\<exists>w'. McoYield env tid sp r w = (Inr (), w') \<and> sched_inv env tid w' \<and>
    sched_of tid w' = spec_yield (now_of env tid sp r w) (sched_of tid w) \<and>
    (\<exists>f. asleep (sched_of tid w) s = Some f \<and> continues env tid s f w')"
proof -
  obtain cs mg where at: "sched_at env tid w cs mg" "order (sched_of tid w) = active cs"
    using inv by (rule sched_invE)
  then have act: "active cs = xs @ [s, r]"
    using ord by simp
  obtain c where c: "cos w r = Some c" "stackMgr c = Some tid" "start c"
    using sched_atD(11) [OF at(1), of r] act by (auto simp: live_def)
  then have "\<not> codone c"
    using sched_at_started(1) [OF at(1) c] act by (simp add: running_ok_def)
  then have "c\<lparr>codone := False\<rparr> = c"
    by (cases c) simp
  then have same: "put_co r (c\<lparr>codone := False\<rparr>) w = w"
    using c by (simp add: put_co_same)
  show ?thesis
    using yield_keeps [OF env at(1) act c(1), of sp False, unfolded same] sched_invI by auto
qed

lemma finish_contract:
  assumes env: "sched_env env" and inv: "sched_inv env tid w"
    and ord: "order (sched_of tid w) = xs @ [s, r]"
  shows "\<exists>w'. CoroutineRun_end env tid sp r w = (Inr (), w') \<and> sched_inv env tid w' \<and>
    sched_of tid w' = spec_finish (sched_of tid w) \<and>
    (\<exists>f. asleep (sched_of tid w) s = Some f \<and> continues env tid s f w') \<and>
    (\<exists>c. cos w' r = Some c \<and> finished c)"
proof -
  obtain cs mg where at: "sched_at env tid w cs mg" "order (sched_of tid w) = active cs"
    using inv by (rule sched_invE)
  then have act: "active cs = xs @ [s, r]"
    using ord by simp
  obtain c where c: "cos w r = Some c"
    using sched_atD(11) [OF at(1), of r] act by (auto simp: live_def)
  have "r \<noteq> 0"
    using active_nonnull(1) [OF at(1)] act by auto
  then have "CoroutineRun_end env tid sp r w =
      McoYield env tid sp r (put_co r (c\<lparr>codone := True\<rparr>) w)"
    using c by (simp add: CoroutineRun_end_def comp_defs)
  then show ?thesis
    using yield_keeps [OF env at(1) act c, of sp True] sched_invI by auto
qed

subsection \<open>Resume\<close>

lemma resume_asleep_contract:
  assumes env: "sched_env env" and inv: "sched_inv env tid w"
    and r: "asleep (sched_of tid w) r = Some f" "r \<notin> set (order (sched_of tid w))"
  shows "\<exists>w'. McoResume env tid sp r w = (Inr (), w') \<and> sched_inv env tid w' \<and>
    sched_of tid w' =
      spec_resume r (now_of env tid sp (last (order (sched_of tid w))) w) (sched_of tid w) \<and>
    continues env tid r f w'"
proof -
  obtain cs mg where at: "sched_at env tid w cs mg" "order (sched_of tid w) = active cs"
    using inv by (rule sched_invE)
  have lr: "live w tid r" "r \<noteq> last (active cs)" "frozen w (commonOccupy mg) r = Some f"
    using r(1) sched_of_at [OF sched_atD(4,5) [OF at(1)]] by (auto split: if_splits)
  then obtain c where c: "cos w r = Some c" "stackMgr c = Some tid" "start c"
    by (auto simp: live_def)
  have sok: "suspended_ok env (commonOccupy mg) r c"
    using sched_at_started(2) [OF at(1) c lr(2)] .
  have rz: "r \<noteq> 0"
    using c sched_atD(3) [OF at(1)] by auto
  have st: "start_co env r w = (Inr True, w)"
    using rz c by (simp add: start_co_def comp_defs)
  have ent: "entering_ok env (commonOccupy mg) r c"
    using sok by (auto simp: entering_ok_def suspended_ok_def)
  have nf: "\<not> (codone c \<and> done_yield c)" and upd: "cos w = (cos w)(r \<mapsto> c)"
    using sok c by (auto simp: suspended_ok_def)
  show ?thesis
    using resume_keeps [OF env at(1) refl c(1,2) _ nf st upd refl refl refl refl c(2,3) ent
        sched_atD(10) [OF at(1)], of sp] r(2) lr(3) sched_invI unfolding at(2) by auto
qed

lemma resume_fresh_contract:
  assumes env: "sched_env env" and inv: "sched_inv env tid w" and r: "startable tid w r"
  shows "\<exists>w' st. McoResume env tid sp r w = (Inr (), w') \<and> sched_inv env tid w' \<and>
    sched_of tid w' =
      spec_resume r (now_of env tid sp (last (order (sched_of tid w))) w) (sched_of tid w) \<and>
    cpus w' tid = enter_regs (regs (start_ctx env r st)) \<and>
    (\<exists>mg c. mgr_of w tid = Some mg \<and> cos w r = Some c \<and>
       st = start_stack env mg (use_private c) (news w))"
proof -
  obtain cs mg where at: "sched_at env tid w cs mg" "order (sched_of tid w) = active cs"
    using inv by (rule sched_invE)
  let ?occ = "commonOccupy mg"
  obtain c x where c: "cos w r = Some c" "stackMgr c = Some tid" "\<not> start c" "coctx c = Some x"
    and nf: "\<not> codone c" "\<not> done_yield c" "\<not> stack_store c"
    using r by (auto simp: startable_def)
  have rz: "r \<noteq> 0"
    using c sched_atD(3) [OF at(1)] by auto
  have new: "r \<notin> set (active cs)"
    using sched_atD(11) [OF at(1), of r] c by (auto simp: live_def)
  have nocc: "r \<noteq> ?occ"
    using sched_atD(10) [OF at(1)] rz c nf by (auto simp: occupant_ok_def finished_def)
  define st where "st = start_stack env mg (use_private c) (news w)"
  let ?c = "c\<lparr>costack := Some st, start := True, coctx := Some (x\<lparr>ctx := Ctx (start_ctx env r st)\<rparr>)\<rparr>"
  let ?w = "put_co r ?c (w\<lparr>news := news w + (if use_private c then 3 else 2)\<rparr>)"
  have run: "start_co env r w = (Inr True, ?w)"
    unfolding st_def by (rule start_fresh [OF env sched_atD(5) [OF at(1)] rz c])
  have hc: "has_ctx ?c (start_ctx env r st)"
    by (simp add: has_ctx_def)
  have ent: "entering_ok env ?occ r ?c"
    using hc nf start_ctx_regs(1) [of env r st] by (auto simp: entering_ok_def)
  have occ: "occupant_ok ?w tid ?occ"
    using sched_atD(10) [OF at(1)] nocc by (simp add: occupant_ok_def)
  have nd: "\<not> (codone c \<and> done_yield c)"
    using nf by simp
  obtain w' mg' f where res: "McoResume env tid sp r w = (Inr (), w')"
    "sched_at env tid w' (cs_pushed cs r) mg'"
    "sched_of tid w' = spec_resume r (now_of env tid sp (last (active cs)) w) (sched_of tid w)"
    "frozen ?w ?occ r = Some f" "continues env tid r f w'"
    using resume_keeps [OF env at(1) refl c(1,2) new nd run _ _ _ _ _ _ _ ent occ, of sp] c(2)
    by auto
  have "fst f = regs (start_ctx env r st)"
    using res(4) by (auto simp: frozen_def)
  then have "cpus w' tid = enter_regs (regs (start_ctx env r st))"
    using res(5) by (simp add: continues_def)
  then show ?thesis
    using res(1-3) sched_invI [OF res(2)] sched_atD(5) [OF at(1)] c(1) st_def at(2) by auto
qed

text \<open>Resuming the coroutine one was resumed by is a yield.\<close>

lemma resume_below_contract:
  assumes env: "sched_env env" and inv: "sched_inv env tid w"
    and ord: "order (sched_of tid w) = xs @ [s, r]"
  shows "McoResume env tid sp s w = McoYield env tid sp r w"
proof -
  obtain cs mg where at: "sched_at env tid w cs mg" "order (sched_of tid w) = active cs"
    using inv by (rule sched_invE)
  then have act: "active cs = xs @ [s, r]"
    using ord by simp
  have n: "cs_index cs = length xs + 2"
    using arg_cong [OF act, of length] by simp
  have nz: "s \<noteq> 0" "r \<noteq> 0" "s \<noteq> r"
    using active_nonnull(1) [OF at(1)] sched_atD(8) [OF at(1)] act by auto
  obtain c k where c: "cos w r = Some c" and k: "cos w s = Some k" "stackMgr k = Some tid" "start k"
    using sched_atD(11) [OF at(1), of r] sched_atD(11) [OF at(1), of s] act
    by (auto simp: live_def)
  have "sink c = s"
    using sched_atD(9) [OF at(1)] act c
    by (auto simp: chained_def nth_append dest: spec [of _ "Suc (length xs)"])
  moreover have "\<not> running k" "\<not> codone k"
    using sched_atD(12) [OF at(1) k(1,2)] sched_at_started(2) [OF at(1) k] act nz(3)
    by (auto simp: suspended_ok_def)
  moreover have "cs_at env tid (Suc (length xs)) w = (Inr r, w)"
    using cs_at_active [of env w tid cs "Suc (length xs)"] env sched_atD(4,6) [OF at(1)] n act
    by (simp add: sched_env_def nth_append)
  ultimately show ?thesis
    using nz c k sched_atD(1,4) [OF at(1)] n
    by (simp add: McoResume_def comp_defs getCurrIndex_def)
qed

subsection \<open>Create and free\<close>

definition drop_co :: "addr \<Rightarrow> world \<Rightarrow> world" where
  "drop_co r w = w\<lparr>cos := (cos w)(r := None)\<rparr>"

definition spec_free :: "addr \<Rightarrow> sched \<Rightarrow> sched" where
  "spec_free r S = S\<lparr>asleep := (asleep S)(r := None)\<rparr>"

lemma drop_co_fields [simp]:
  "cos (drop_co r w) = (cos w)(r := None)" "callstacks (drop_co r w) = callstacks w"
  "stackmgrs (drop_co r w) = stackmgrs w" "mem (drop_co r w) = mem w" "cpus (drop_co r w) = cpus w"
  by (simp_all add: drop_co_def)

text \<open>
  A change of the world that concerns only coroutines outside the call stack which do not
  occupy the common stack: the invariant holds again if every coroutine left is as before or
  not started.
\<close>

lemma sched_at_frame:
  assumes at: "sched_at env tid w cs mg"
    and cosx: "\<And>x. x \<noteq> r \<Longrightarrow> cos w' x = cos w x" and new: "r \<notin> set (active cs)"
    and r: "\<And>c. cos w' r = Some c \<Longrightarrow> r \<noteq> 0 \<and> \<not> start c \<and> (stackMgr c = Some tid \<longrightarrow> \<not> running c)"
    and cs: "pool_free callstacks w'" "cs_of w' tid = Some cs"
    and mg: "pool_free stackmgrs w'" "mgr_of w' tid = Some mg'"
      "commonOccupy mg' = (if commonOccupy mg = r then 0 else commonOccupy mg)"
  shows "sched_at env tid w' cs mg'"
proof -
  have memb: "x \<noteq> r" if "x \<in> set (active cs)" for x
    using that new by auto
  have top: "last (active cs) \<noteq> r"
    using active_nonnull(3) [OF at] memb by blast
  have sus: "suspended_ok env (commonOccupy mg') x c"
    if "suspended_ok env (commonOccupy mg) x c" "x \<noteq> r" "x \<noteq> 0" for x c
    using that mg(3) by (auto simp: suspended_ok_def placed_def)
  have rok: "running_ok (commonOccupy mg') x c" if "running_ok (commonOccupy mg) x c" "x \<noteq> r" for x c
    using that mg(3) by (auto simp: running_ok_def)
  show ?thesis
    unfolding sched_at_def
  proof (intro conjI allI impI ballI)
    show "cos w' 0 = None"
      using cosx [of 0] r sched_atD(3) [OF at] by (cases "r = 0"; cases "cos w' 0") auto
    show "live w' tid x" if "x \<in> set (active cs)" for x
      using sched_atD(11) [OF at that] cosx [OF memb [OF that]] by (simp add: live_def)
    show "chained w' (active cs)"
      by (rule chained_frame [of w _ "[]"])
        (use sched_atD(9) [OF at] cosx memb in auto)
    show "running c \<longleftrightarrow> x = last (active cs)" if "cos w' x = Some c" "stackMgr c = Some tid" for x c
      using that r [of c] cosx [of x] sched_atD(12) [OF at, of x c] top by (cases "x = r") auto
    show "if x = last (active cs) then running_ok (commonOccupy mg') x c
        else suspended_ok env (commonOccupy mg') x c"
      if c: "cos w' x = Some c" "stackMgr c = Some tid" "start c" for x c
    proof -
      have xr: "x \<noteq> r" using c r by auto
      then have cx: "cos w x = Some c" using c cosx by simp
      then have "x \<noteq> 0" using sched_atD(3) [OF at] by auto
      then show ?thesis
        using sched_at_started [OF at cx c(2,3)] sus [OF _ xr] rok [OF _ xr] by presburger
    qed
    show "occupant_ok w' tid (commonOccupy mg')"
      using sched_atD(10) [OF at] cosx mg(3) by (simp add: occupant_ok_def)
  qed (use cs mg sched_atD(6-8) [OF at] in simp_all)
qed

lemma frozen_occ:
  "mem w' = mem w \<Longrightarrow> cos w' x = cos w x \<Longrightarrow> (x = occ') = (x = occ) \<Longrightarrow>
   frozen w' occ' x = frozen w occ x"
proof -
  assume a: "mem w' = mem w" "cos w' x = cos w x" "(x = occ') = (x = occ)"
  have "stack_image w' occ' x = stack_image w occ x"
    by (simp add: stack_image_def fun_eq_iff a)
  with a(2) show ?thesis
    by (simp only: frozen_def)
qed

lemma sched_of_frame:
  assumes at: "sched_at env tid w cs mg" and at': "sched_at env tid w' cs mg'"
    and cosx: "\<And>x. x \<noteq> r \<Longrightarrow> cos w' x = cos w x" and r: "\<And>c. cos w' r = Some c \<Longrightarrow> \<not> start c"
    and occ: "commonOccupy mg' = (if commonOccupy mg = r then 0 else commonOccupy mg)"
    and m: "mem w' = mem w"
  shows "sched_of tid w' = spec_free r (sched_of tid w)"
proof -
  have lv: "live w' tid x \<longleftrightarrow> live w tid x \<and> x \<noteq> r" for x
    using cosx [of x] r by (cases "x = r") (auto simp: live_def)
  have "frozen w' (commonOccupy mg') x = frozen w (commonOccupy mg) x" if "x \<noteq> r" "live w tid x" for x
    using that sched_atD(3) [OF at]
    by (intro frozen_occ m cosx that) (auto simp: occ live_def)
  then show ?thesis
    using sched_of_at [OF sched_atD(4,5) [OF at]] sched_of_at [OF sched_atD(4,5) [OF at']]
    by (auto simp: spec_free_def lv fun_eq_iff)
qed

lemma free_contract:
  assumes inv: "sched_inv env tid w" and c: "cos w r = Some c" "stackMgr c = Some tid"
    and idle: "r \<notin> set (order (sched_of tid w))"
    and ini: "\<And>x. coctx c = Some x \<Longrightarrow> ctx x \<noteq> CtxIndet"
  shows "\<exists>w'. McoFree env tid r w = (Inr (), w') \<and> sched_inv env tid w' \<and> cos w' r = None \<and>
    sched_of tid w' = spec_free r (sched_of tid w)"
proof -
  obtain cs mg where at: "sched_at env tid w cs mg" "order (sched_of tid w) = active cs"
    using inv by (rule sched_invE)
  have rz: "r \<noteq> 0" and nr: "\<not> running c"
    using c sched_atD(3) [OF at(1)] sched_atD(12) [OF at(1) c] idle at(2)
      active_nonnull(3) [OF at(1)] by auto
  let ?mg = "mg\<lparr>commonOccupy := if commonOccupy mg = r then 0 else commonOccupy mg\<rparr>"
  let ?w = "drop_co r (if commonOccupy mg = r then put_mgr tid ?mg w else w)"
  have mgw: "mgr_of ?w tid = Some ?mg" "pool_free stackmgrs ?w"
    using sched_atD(2,5) [OF at(1)]
    by (auto simp: drop_co_def lookup_item_def pool_free_def inst_mutex_def inst_def put_mgr_def
        set_item_def stackmgrs_put_def split: option.splits)
  have csw: "pool_free callstacks ?w" "cs_of ?w tid = Some cs"
    using sched_atD(1,4) [OF at(1)]
    by (simp_all add: pool_free_def inst_mutex_def inst_def lookup_item_def)
  have run: "McoFree env tid r w = (Inr (), ?w)"
    using rz nr c ini sched_atD(2,5) [OF at(1)]
    by (auto simp: McoFree_def comp_defs GetCommonOccupy_def SetCommonOccupy_def
        RecycleMcoStack_def delete_co_def drop_co_def put_co_def put_mgr_def set_item_def
        stackmgrs_put_def inst_def split: option.splits)
  have at': "sched_at env tid ?w cs ?mg"
    by (rule sched_at_frame [OF at(1), where r = r]) (use idle at(2) csw mgw in simp_all)
  have "sched_of tid ?w = spec_free r (sched_of tid w)"
    by (rule sched_of_frame [OF at(1) at', where r = r]) simp_all
  then show ?thesis
    using run sched_invI [OF at'] by (intro exI [of _ ?w]) simp
qed

end
