(* ===== verification/McoSteps.thy ===== *)
theory McoSteps
  imports McoContract
begin

text \<open>
  The coroutines of one thread as a step relation: the running coroutine computes, or calls one
  of the exported operations, or its callback ends. The invariant of the scheduler holds in
  every reachable state, and a sleeping coroutine continues with what it left.
\<close>

lemma McoCreate_run:
  assumes "heap_new env (news w) = Some r" "heap_new env (Suc (news w)) \<noteq> None" "r \<noteq> 0"
  shows "McoCreate env run private w = (Inr r, put_co r
    (McoRoutine_new\<lparr>coctx := Some \<lparr>ctx = CtxIndet, corun = run\<rparr>, use_private := private\<rparr>)
    (w\<lparr>news := news w + 2\<rparr>))"
  using assms by (auto simp: McoCreate_def comp_defs new_block_apply McoRoutine_new_def)

subsection \<open>What the running code may do\<close>

text \<open>
  The bytes of a sleeping occupant of the common stack: the only ones of a sleeping coroutine
  that are not in its own block or in a saved copy.
\<close>

definition spares_parked :: "int \<Rightarrow> world \<Rightarrow> memory \<Rightarrow> bool" where
  "spares_parked tid w m \<longleftrightarrow> (\<forall>mg c st. mgr_of w tid = Some mg \<longrightarrow> cos w (commonOccupy mg) = Some c \<longrightarrow>
     costack c = Some st \<longrightarrow> \<not> running c \<longrightarrow>
     (let n = unat (stack_bp st - stack_sp st) in
      read_bytes m (stack_sp st) n = read_bytes (mem w) (stack_sp st) n))"

text \<open>Coroutines \<open>McoResume\<close> is meant for; the rule it follows is stated below.\<close>

definition resumable :: "int \<Rightarrow> world \<Rightarrow> addr \<Rightarrow> bool" where
  "resumable tid w r \<longleftrightarrow> (let S = sched_of tid w in
     r = 0 \<or> (\<exists>c. cos w r = Some c \<and> (running c \<or> finished c)) \<or> startable tid w r \<or>
     (asleep S r \<noteq> None \<and> (r \<notin> set (order S) \<or> (\<exists>xs t. order S = xs @ [r, t]))))"

text \<open>
  \<open>step_attach\<close> stands for the assignment of \<open>McoRoutine::stackMgr\<close>, a public member that no
  code of the library assigns. A coroutine is created at an address no coroutine has.
\<close>

inductive step :: "env \<Rightarrow> int \<Rightarrow> world \<Rightarrow> world \<Rightarrow> bool" for env tid where
  step_run: "spares_parked tid w m \<Longrightarrow> news w \<le> n \<Longrightarrow>
    step env tid w (w\<lparr>mem := m, news := n, cpus := (cpus w)(tid := R)\<rparr>)"
| step_create: "McoCreate env run private w = (Inr r, w') \<Longrightarrow> r \<noteq> 0 \<Longrightarrow> cos w r = None \<Longrightarrow>
    step env tid w w'"
| step_attach: "cos w r = Some c \<Longrightarrow> stackMgr c = None \<Longrightarrow> \<not> start c \<Longrightarrow> \<not> running c \<Longrightarrow> r \<noteq> 0 \<Longrightarrow>
    step env tid w (put_co r (c\<lparr>stackMgr := Some tid\<rparr>) w)"
| step_resume: "resumable tid w r \<Longrightarrow> McoResume env tid sp r w = (Inr (), w') \<Longrightarrow> step env tid w w'"
| step_yield: "r = last (order (sched_of tid w)) \<or> r = 0 \<or> (\<exists>c. cos w r = Some c \<and> \<not> running c) \<Longrightarrow>
    McoYield env tid sp r w = (Inr (), w') \<Longrightarrow> step env tid w w'"
| step_finish: "r = last (order (sched_of tid w)) \<Longrightarrow>
    CoroutineRun_end env tid sp r w = (Inr (), w') \<Longrightarrow> step env tid w w'"
| step_free: "cos w r = Some c \<Longrightarrow> stackMgr c = Some tid \<Longrightarrow> r \<notin> set (order (sched_of tid w)) \<Longrightarrow>
    McoFree env tid r w = (Inr (), w') \<Longrightarrow> step env tid w w'"

inductive_cases stepE: "step env tid w w'"

text \<open>
  What one step does to the scheduler state. \<open>Move r f\<close> and \<open>Enter r\<close> carry which coroutine the
  CPU continues in.
\<close>

inductive moved :: "env \<Rightarrow> int \<Rightarrow> sched \<Rightarrow> world \<Rightarrow> sched \<Rightarrow> bool" for env tid S w' where
  moved_same: "moved env tid S w' S"
| moved_yield: "order S = xs @ [s, r] \<Longrightarrow> asleep S s = Some f \<Longrightarrow> continues env tid s f w' \<Longrightarrow>
    moved env tid S w' (spec_yield now S)"
| moved_finish: "order S = xs @ [s, r] \<Longrightarrow> asleep S s = Some f \<Longrightarrow> continues env tid s f w' \<Longrightarrow>
    moved env tid S w' (spec_finish S)"
| moved_resume: "r \<notin> set (order S) \<Longrightarrow> asleep S r = Some f \<Longrightarrow> continues env tid r f w' \<Longrightarrow>
    moved env tid S w' (spec_resume r now S)"
| moved_start: "r \<notin> set (order S) \<Longrightarrow> asleep S r = None \<Longrightarrow> cpus w' tid RET = run_entry env \<Longrightarrow>
    cpus w' tid RDI = r \<Longrightarrow> moved env tid S w' (spec_resume r now S)"
| moved_free: "r \<notin> set (order S) \<Longrightarrow> cos w' r = None \<Longrightarrow> moved env tid S w' (spec_free r S)"

lemma order_singleton_or_two:
  assumes "xs \<noteq> []"
  obtains x where "xs = [x]" | ys s r where "xs = ys @ [s, r]"
  using assms by (metis append_butlast_last_id append_eq_Cons_conv append_assoc append_Cons append_Nil
      butlast.simps(2) list.exhaust)

text \<open>Yielding or ending the main coroutine ends in a fault: it has no \<open>sink\<close>.\<close>

lemma main_sink:
  assumes at: "sched_at env tid w cs mg" and act: "active cs = [r]"
  shows "\<exists>c. cos w r = Some c \<and> sink c = 0 \<and> running c \<and> \<not> codone c \<and> \<not> done_yield c"
proof -
  obtain c where c: "cos w r = Some c" "stackMgr c = Some tid" "start c"
    using sched_atD(11) [OF at, of r] act by (auto simp: live_def)
  then show ?thesis
    using sched_atD(9) [OF at] sched_atD(12) [OF at c(1,2)] sched_at_started(1) [OF at c] act
    by (auto simp: chained_def running_ok_def)
qed

lemma main_yield_faults:
  assumes env: "sched_env env" and at: "sched_at env tid w cs mg" and act: "active cs = [r]"
    and c: "cos w r = Some c"
  shows "fst (McoYield env tid sp r (put_co r (c\<lparr>codone := fin\<rparr>) w)) = Inl NullDeref"
proof -
  have "r \<noteq> 0" using active_nonnull(1) [OF at] act by auto
  moreover have "cs_index cs = 1"
    using arg_cong [OF act, of length] by simp
  moreover have "sink c = 0" "running c" "\<not> done_yield c"
    using main_sink [OF at act] c by auto
  ultimately show ?thesis
    using c env sched_atD(1,4) [OF at]
    by (simp add: McoYield_def comp_defs cassert_def sched_env_def getCurrIndex_def setCurrIndex_def
        upd_co_def)
qed

subsection \<open>Every step is a step of the abstract scheduler\<close>

lemma run_ok:
  fixes n :: nat and R :: regfile
  assumes inv: "sched_inv env tid w" and sp: "spares_parked tid w m"
  defines "w' \<equiv> w\<lparr>mem := m, news := n, cpus := (cpus w)(tid := R)\<rparr>"
  shows "sched_inv env tid w' \<and> sched_of tid w' = sched_of tid w"
proof -
  obtain cs mg where at: "sched_at env tid w cs mg" "order (sched_of tid w) = active cs"
    using inv by (rule sched_invE)
  have fr: "cos w' = cos w" "callstacks w' = callstacks w" "stackmgrs w' = stackmgrs w"
    by (simp_all add: w'_def)
  have lv: "live w' tid x = live w tid x" for x
    by (simp add: live_def fr)
  have at': "sched_at env tid w' cs mg"
    using at(1) unfolding sched_at_def
    by (simp add: fr lv chained_def occupant_ok_def pool_free_def inst_mutex_def inst_def
        lookup_item_def)
  have "frozen w' (commonOccupy mg) x = frozen w (commonOccupy mg) x"
    if lx: "live w tid x" "x \<noteq> last (active cs)" for x
  proof -
    obtain c where c: "cos w x = Some c" "stackMgr c = Some tid" "start c"
      using lx(1) by (auto simp: live_def)
    have nr: "\<not> running c"
      using sched_atD(12) [OF at(1) c(1,2)] lx(2) by simp
    obtain k st where k: "has_ctx c k" "costack c = Some st"
      using sched_at_started(2) [OF at(1) c lx(2)] by (auto simp: suspended_ok_def)
    have "stack_image w' (commonOccupy mg) x st = stack_image w (commonOccupy mg) x st"
      using sp sched_atD(5) [OF at(1)] c nr k
      by (auto simp: stack_image_def w'_def spares_parked_def Let_def)
    then show ?thesis
      using frozen_eq [OF _ k, of w'] frozen_eq [OF c(1) k] c(1) by (simp add: fr)
  qed
  then have "sched_of tid w' = sched_of tid w"
    using sched_of_at [OF sched_atD(4,5) [OF at(1)]] sched_of_at [OF sched_atD(4,5) [OF at']]
    by (auto simp: lv fun_eq_iff)
  then show ?thesis
    using sched_invI [OF at'] by simp
qed

lemma new_co_ok:
  fixes n :: nat
  assumes inv: "sched_inv env tid w" and r: "r \<noteq> 0"
    and old: "\<And>c. cos w r = Some c \<Longrightarrow> \<not> start c \<and> \<not> finished c \<or> stackMgr c \<noteq> Some tid"
    and c: "\<not> start c" "stackMgr c = Some tid \<longrightarrow> \<not> running c"
  defines "w' \<equiv> put_co r c (w\<lparr>news := n\<rparr>)"
  shows "sched_inv env tid w' \<and> sched_of tid w' = sched_of tid w"
proof -
  obtain cs mg where at: "sched_at env tid w cs mg" "order (sched_of tid w) = active cs"
    using inv by (rule sched_invE)
  have nl: "\<not> live w tid r"
    using old by (auto simp: live_def)
  then have new: "r \<notin> set (active cs)"
    using sched_atD(11) [OF at(1)] by blast
  have occ: "commonOccupy mg \<noteq> r"
    using sched_atD(10) [OF at(1)] old r by (auto simp: occupant_ok_def finished_def)
  have at': "sched_at env tid w' cs mg"
    by (rule sched_at_frame [OF at(1), where r = r])
      (use r c new occ sched_atD(1,2,4,5) [OF at(1)] in \<open>simp_all add: w'_def\<close>)
  have "sched_of tid w' = spec_free r (sched_of tid w)"
    by (rule sched_of_frame [OF at(1) at', where r = r]) (use c occ in \<open>simp_all add: w'_def\<close>)
  also have "\<dots> = sched_of tid w"
    using nl sched_of_at [OF sched_atD(4,5) [OF at(1)]] by (auto simp: spec_free_def fun_eq_iff)
  finally show ?thesis
    using sched_invI [OF at'] by simp
qed

lemma asleep_dom:
  assumes at: "sched_at env tid w cs mg" and l: "live w tid r" "r \<noteq> last (active cs)"
  shows "\<exists>f. asleep (sched_of tid w) r = Some f"
proof -
  obtain c where c: "cos w r = Some c" "stackMgr c = Some tid" "start c"
    using l by (auto simp: live_def)
  obtain k st where "has_ctx c k" "costack c = Some st"
    using sched_at_started(2) [OF at c l(2)] by (auto simp: suspended_ok_def)
  from frozen_eq [OF c(1) this] show ?thesis
    using sched_of_at [OF sched_atD(4,5) [OF at]] l by simp
qed

lemma yield_moves:
  assumes env: "sched_env env" and inv: "sched_inv env tid w"
    and top: "r = last (order (sched_of tid w))" and run: "McoYield env tid sp r w = (Inr (), w')"
  shows "sched_inv env tid w' \<and> moved env tid (sched_of tid w) w' (sched_of tid w')"
proof -
  obtain cs mg where at: "sched_at env tid w cs mg" "order (sched_of tid w) = active cs"
    using inv by (rule sched_invE)
  from active_nonnull(2) [OF at(1)] show ?thesis
  proof (cases rule: order_singleton_or_two)
    case (1 x)
    then obtain c where c: "cos w r = Some c" "\<not> codone c"
      using main_sink [OF at(1), of x] top at(2) by auto
    then have "put_co r (c\<lparr>codone := False\<rparr>) w = w"
      using put_co_same [OF c(1)] by (cases c) simp
    then show ?thesis
      using main_yield_faults [OF env at(1) _ c(1), of sp False] 1 top at(2) run by simp
  next
    case (2 ys s x)
    then show ?thesis
      using yield_contract [OF env inv, of ys s x sp] top at(2) run
      by (auto intro: moved_yield [of _ ys s x])
  qed
qed

lemma finish_moves:
  assumes env: "sched_env env" and inv: "sched_inv env tid w"
    and top: "r = last (order (sched_of tid w))"
    and run: "CoroutineRun_end env tid sp r w = (Inr (), w')"
  shows "sched_inv env tid w' \<and> moved env tid (sched_of tid w) w' (sched_of tid w')"
proof -
  obtain cs mg where at: "sched_at env tid w cs mg" "order (sched_of tid w) = active cs"
    using inv by (rule sched_invE)
  from active_nonnull(2) [OF at(1)] show ?thesis
  proof (cases rule: order_singleton_or_two)
    case (1 x)
    then obtain c where c: "cos w r = Some c" "r \<noteq> 0"
      using main_sink [OF at(1), of x] top at(2) active_nonnull(1) [OF at(1)] by auto
    then show ?thesis
      using main_yield_faults [OF env at(1) _ c(1), of sp True] 1 top at(2) run
      by (simp add: CoroutineRun_end_def comp_defs)
  next
    case (2 ys s x)
    then show ?thesis
      using finish_contract [OF env inv, of ys s x sp] top at(2) run
      by (auto intro: moved_finish [of _ ys s x])
  qed
qed

lemma resume_moves:
  assumes env: "sched_env env" and inv: "sched_inv env tid w"
    and r: "resumable tid w r" and run: "McoResume env tid sp r w = (Inr (), w')"
  shows "sched_inv env tid w' \<and> moved env tid (sched_of tid w) w' (sched_of tid w')"
proof -
  let ?S = "sched_of tid w"
  obtain cs mg where at: "sched_at env tid w cs mg" "order ?S = active cs"
    using inv by (rule sched_invE)
  consider (nop) "r = 0 \<or> (\<exists>c. cos w r = Some c \<and> (running c \<or> finished c))"
    | (fresh) "startable tid w r" | (sleeps) f where "asleep ?S r = Some f" "r \<notin> set (order ?S)"
    | (below) xs t where "order ?S = xs @ [r, t]"
    using r unfolding resumable_def Let_def by auto
  then show ?thesis
  proof cases
    case nop
    then show ?thesis
      using McoResume_nop [OF nop] run inv by (simp add: moved_same)
  next
    case fresh
    then obtain c where c: "cos w r = Some c" "\<not> start c"
      by (auto simp: startable_def)
    then have "r \<notin> set (order ?S)" "asleep ?S r = None"
      using sched_atD(11) [OF at(1), of r] at(2) sched_of_at [OF sched_atD(4,5) [OF at(1)]]
      by (auto simp: live_def)
    then show ?thesis
      using resume_fresh_contract [OF env inv fresh, of sp] run
      by (auto intro!: moved_start simp: start_ctx_regs enter_regs_def)
  next
    case sleeps
    then show ?thesis
      using resume_asleep_contract [OF env inv sleeps, of sp] run by (auto intro: moved_resume)
  next
    case below
    then show ?thesis
      using resume_below_contract [OF env inv below, of sp] yield_moves [OF env inv, of t sp w'] run
      by simp
  qed
qed

lemma step_moves:
  assumes env: "sched_env env" and inv: "sched_inv env tid w" and st: "step env tid w w'"
  shows "sched_inv env tid w' \<and> moved env tid (sched_of tid w) w' (sched_of tid w')"
  using st
proof cases
  case (step_run m n R)
  then show ?thesis
    using run_ok [OF inv step_run(2), where n = n and R = R] by (simp add: moved_same)
next
  case (step_create f p r)
  have "\<exists>a. heap_new env k = Some a" for k
    using env by (auto simp: sched_env_def)
  then have "heap_new env (Suc (news w)) \<noteq> None" and "\<exists>a. heap_new env (news w) = Some a"
    by auto
  then obtain a where a: "heap_new env (news w) = Some a" and a2: "heap_new env (Suc (news w)) \<noteq> None"
    by blast
  have "a = r"
    using step_create(1,2) a a2
    by (cases "a = 0") (auto simp: McoCreate_def comp_defs new_block_apply upd_co_def
        split: option.splits)
  then show ?thesis
    using McoCreate_run [OF a a2, of f p] step_create
      new_co_ok [OF inv step_create(2), of "McoRoutine_new\<lparr>coctx := Some \<lparr>ctx = CtxIndet,
        corun = f\<rparr>, use_private := p\<rparr>" "news w + 2"]
    by (auto simp: McoRoutine_new_def intro: moved_same)
next
  case (step_attach r c)
  then show ?thesis
    using new_co_ok [OF inv, of r "c\<lparr>stackMgr := Some tid\<rparr>" "news w"]
    by (auto intro: moved_same)
next
  case (step_resume r sp)
  then show ?thesis by (intro resume_moves [OF env inv])
next
  case (step_yield r sp)
  then show ?thesis
    using yield_moves [OF env inv _ step_yield(2)] McoYield_nop [of r w env tid sp] inv
    by (auto intro: moved_same)
next
  case (step_finish r sp)
  then show ?thesis by (intro finish_moves [OF env inv])
next
  case (step_free r c)
  show ?thesis
  proof (cases "\<exists>x. coctx c = Some x \<and> ctx x = CtxIndet")
    case True
    obtain cs mg where at: "sched_at env tid w cs mg" "order (sched_of tid w) = active cs"
      using inv by (rule sched_invE)
    have "\<not> running c" "r \<noteq> 0"
      using sched_atD(12) [OF at(1) step_free(1,2)] active_nonnull(3) [OF at(1)] step_free(3) at(2)
        sched_atD(3) [OF at(1)] step_free(1) by auto
    then show ?thesis
      using True step_free sched_atD(2,5) [OF at(1)]
      by (auto simp: McoFree_def comp_defs GetCommonOccupy_def SetCommonOccupy_def
          RecycleMcoStack_def delete_co_def split: if_splits)
  next
    case False
    then show ?thesis
      using free_contract [OF inv step_free(1-3)] step_free by (auto intro: moved_free)
  qed
qed

end
