(* ===== verification/McoGuarantees.thy ===== *)
theory McoGuarantees
  imports McoSteps
begin

text \<open>
  The guarantees of the coroutine layer, as a user of \<open>McoCreate\<close>, \<open>McoResume\<close>, \<open>McoYield\<close> and
  \<open>McoFree\<close> on one thread relies on them. Each has a concrete thread with a main coroutine at
  4096 and one on the common stack at 8192 as its witness.
\<close>

subsection \<open>A concrete thread\<close>

definition demo_co :: "bool \<Rightarrow> bool \<Rightarrow> addr \<Rightarrow> McoRoutine" where
  "demo_co private run snk = McoRoutine_new\<lparr>
     coctx := Some \<lparr>ctx = Ctx \<lparr>regs = (\<lambda>r. if r = RET then 2 else 7), ss_size = 0, ss_sp = 0\<rparr>,
       corun = Some 7\<rparr>,
     sink := snk, costack := Some (McoStack_new\<lparr>stack_bp := 1008, stack_sp := 1004,
       is_private := private\<rparr>),
     stackMgr := Some 1, start := True, running := run\<rparr>"

definition demo_fresh :: McoRoutine where
  "demo_fresh = McoRoutine_new\<lparr>coctx := Some \<lparr>ctx = CtxIndet, corun = Some 5\<rparr>, stackMgr := Some 1\<rparr>"

text \<open>
  Thread 1 in two states: with \<open>False\<close> the main coroutine runs and the one at 8192 sleeps in
  place on the common stack, with \<open>True\<close> the latter was resumed and runs. The coroutine at 12288
  was created and not started.
\<close>

definition demo_stack :: "bool \<Rightarrow> McoCallStack" where
  "demo_stack inside = \<lparr>callStack = [(0, 4096), (Suc 0, 8192)], cs_index = if inside then 2 else 1\<rparr>"

definition demo_mgr :: McoStackManager where
  "demo_mgr = \<lparr>commonSize = 4096, privateSize = 4096, commonStack = 500, ready = True,
     commonOccupy = 8192\<rparr>"

definition demo_thread :: "bool \<Rightarrow> world" where
  "demo_thread inside = (world_init (\<lambda>x. ucast x) (\<lambda>_ _. 0))\<lparr>
     cos := [4096 \<mapsto> demo_co True (\<not> inside) 0, 8192 \<mapsto> demo_co False inside 4096,
       12288 \<mapsto> demo_fresh],
     callstacks := Some \<lparr>pools = [1 \<mapsto> demo_stack inside], pool_mutex = Mutex_init\<rparr>,
     stackmgrs := Some \<lparr>pools = [1 \<mapsto> demo_mgr], pool_mutex = Mutex_init\<rparr>\<rparr>"

lemma demo_sched_env: "sched_env demo_env"
  by (simp add: sched_env_def demo_env_def)

lemma demo_active: "active (demo_stack inside) = (if inside then [4096, 8192] else [4096])"
  by (simp add: active_def upt_rec demo_stack_def)

lemma demo_sched_at: "sched_at demo_env 1 (demo_thread inside) (demo_stack inside) demo_mgr"
proof -
  have "cs_filled (demo_stack inside)" "0 < cs_index (demo_stack inside)"
    by (auto simp: cs_filled_def demo_stack_def less_Suc_eq)
  then show ?thesis
    unfolding sched_at_def demo_active
    by (auto simp: demo_thread_def pool_free_def inst_mutex_def inst_def lookup_item_def
        Mutex_init_def world_init_def live_def demo_co_def demo_fresh_def demo_mgr_def
        McoRoutine_new_def McoStack_new_def chained_def running_ok_def suspended_ok_def placed_def
        has_ctx_def demo_env_def occupant_ok_def less_Suc_eq split: if_splits)
qed

lemma demo_inv: "sched_inv demo_env 1 (demo_thread inside)"
  by (rule sched_invI [OF demo_sched_at])

lemma demo_order: "order (sched_of 1 (demo_thread inside)) = (if inside then [4096, 8192] else [4096])"
  using sched_of_at [OF sched_atD(4,5) [OF demo_sched_at [of inside]]] demo_active by simp

lemma demo_asleep:
  "asleep (sched_of 1 (demo_thread False)) 8192 =
     Some (\<lambda>r. if r = RET then 2 else 7, Some [236, 237, 238, 239])"
  using sched_of_at [OF sched_atD(4,5) [OF demo_sched_at [of False]]] demo_active [of False]
  by (simp add: frozen_def demo_thread_def demo_co_def McoRoutine_new_def McoStack_new_def live_def
      stack_image_def world_init_def read_bytes_def upt_rec demo_mgr_def)

subsection \<open>Safety of every execution\<close>



lemma moved_sleeper:
  assumes mv: "moved env tid S w' S'" and f: "asleep S r = Some f" and top: "asleep S (last (order S)) = None"
  shows "asleep S' r = Some f \<or> (last (order S') = r \<and> continues env tid r f w') \<or> cos w' r = None"
  using mv
proof cases
  case (moved_yield xs s q g now)
  then show ?thesis
    using f top by (cases "r = s") (auto simp: spec_yield_def butlast_append)
next
  case (moved_finish xs s q g)
  then show ?thesis
    using f by (cases "r = s") (auto simp: spec_finish_def butlast_append)
next
  case (moved_resume q g now)
  then show ?thesis
    using f top by (cases "r = q") (auto simp: spec_resume_def)
next
  case (moved_start q now)
  then show ?thesis
    using f top by (cases "r = q") (auto simp: spec_resume_def)
next
  case (moved_free q)
  then show ?thesis
    using f by (cases "r = q") (auto simp: spec_free_def)
qed (use f in simp)

lemma top_awake: "asleep (sched_of tid w) (last (order (sched_of tid w))) = None"
  by (simp add: sched_of_def Let_def)

text \<open>
  C2. A sleeping coroutine is not disturbed: along any execution of its thread, whatever the
  other coroutines do with the common stack, its saved registers and stack bytes stay what they
  were, until the CPU continues it with exactly these or it is freed.
\<close>

theorem sleeper_undisturbed:
  assumes env: "sched_env env" and inv: "sched_inv env tid w"
    and run: "(step env tid)\<^sup>*\<^sup>* w w'" and f: "asleep (sched_of tid w) r = Some f"
  shows "asleep (sched_of tid w') r = Some f \<or>
    (\<exists>v. (step env tid)\<^sup>*\<^sup>* w v \<and> (step env tid)\<^sup>*\<^sup>* v w' \<and>
       (last (order (sched_of tid v)) = r \<and> continues env tid r f v \<or> cos v r = None))"
proof -
  have "sched_inv env tid w' \<and> (asleep (sched_of tid w') r = Some f \<or>
    (\<exists>v. (step env tid)\<^sup>*\<^sup>* w v \<and> (step env tid)\<^sup>*\<^sup>* v w' \<and>
       (last (order (sched_of tid v)) = r \<and> continues env tid r f v \<or> cos v r = None)))"
    using run
  proof (induction rule: rtranclp_induct)
    case base
    then show ?case using inv f by simp
  next
    case (step y z)
    from step_moves [OF env _ step(2)] step(3)
    have z: "sched_inv env tid z" "moved env tid (sched_of tid y) z (sched_of tid z)"
      by blast+
    from step(3) consider "asleep (sched_of tid y) r = Some f"
      | v where "(step env tid)\<^sup>*\<^sup>* w v" "(step env tid)\<^sup>*\<^sup>* v y"
        "last (order (sched_of tid v)) = r \<and> continues env tid r f v \<or> cos v r = None"
      by blast
    then show ?case
    proof cases
      case 1
      have "(step env tid)\<^sup>*\<^sup>* w z" "(step env tid)\<^sup>*\<^sup>* z z"
        using step(1,2) by simp_all
      with moved_sleeper [OF z(2) 1 top_awake] show ?thesis
        using z(1) by blast
    next
      case 2
      have "(step env tid)\<^sup>*\<^sup>* v z"
        using 2(2) step(2) by simp
      then show ?thesis
        using 2(1,3) z(1) by blast
    qed
  qed
  then show ?thesis by blast
qed

lemma demo_startable: "startable 1 (demo_thread False) 12288"
  by (simp add: startable_def demo_thread_def demo_fresh_def McoRoutine_new_def)

theorem sleeper_undisturbed_witness:
  "let w = demo_thread False; w' = snd (McoResume demo_env 1 990 12288 w);
       f = (\<lambda>r. if r = RET then 2 else 7, Some [236, 237, 238, 239]) in
   asleep (sched_of 1 w') 8192 = Some f \<or>
   (\<exists>v. (step demo_env 1)\<^sup>*\<^sup>* w v \<and> (step demo_env 1)\<^sup>*\<^sup>* v w' \<and>
      (last (order (sched_of 1 v)) = 8192 \<and> continues demo_env 1 8192 f v \<or> cos v 8192 = None))"
proof -
  let ?r = "McoResume demo_env 1 990 12288 (demo_thread False)"
  have "fst ?r = Inr ()"
    using resume_fresh_contract [OF demo_sched_env demo_inv demo_startable, of 990] by auto
  then have "?r = (Inr (), snd ?r)"
    by (metis prod.collapse)
  moreover have "resumable 1 (demo_thread False) 12288"
    using demo_startable by (simp add: resumable_def)
  ultimately have "step demo_env 1 (demo_thread False) (snd ?r)"
    by (rule step_resume [rotated])
  then have "(step demo_env 1)\<^sup>*\<^sup>* (demo_thread False) (snd ?r)"
    by simp
  from sleeper_undisturbed [OF demo_sched_env demo_inv this demo_asleep] show ?thesis
    unfolding Let_def .
qed

subsection \<open>The operations\<close>

text \<open>
  C5. \<open>McoYield\<close> by the running coroutine \<open>r\<close> with \<open>s\<close> below it returns and does to the scheduler
  state what the specification says: \<open>r\<close> leaves the call stack and sleeps with its registers
  and its stack bytes of this moment, every other sleeper is as before, and the CPU continues
  \<open>s\<close> with the registers it was asleep with, its bytes of the common stack back in place.
\<close>

theorem yield_refines:
  assumes "sched_env env" and "sched_inv env tid w" and "order (sched_of tid w) = xs @ [s, r]"
    and "McoYield env tid sp r w = (q, w')"
  shows "q = Inr () \<and> sched_of tid w' = spec_yield (now_of env tid sp r w) (sched_of tid w) \<and>
    (\<exists>f. asleep (sched_of tid w) s = Some f \<and> continues env tid s f w')"
  using yield_contract [OF assms(1-3), of sp] assms(4) by auto

theorem yield_refines_witness:
  "let w = demo_thread True; p = McoYield demo_env 1 990 8192 w in
   fst p = Inr () \<and> order (sched_of 1 (snd p)) = [4096] \<and>
   asleep (sched_of 1 (snd p)) 8192 = Some (now_of demo_env 1 990 8192 w)"
  using yield_refines [OF demo_sched_env demo_inv [of True], of "[]" 4096 8192 990
      "fst (McoYield demo_env 1 990 8192 (demo_thread True))"
      "snd (McoYield demo_env 1 990 8192 (demo_thread True))"]
  by (simp add: Let_def demo_order spec_yield_def)

text \<open>
  C6. \<open>McoResume\<close> of a sleeping coroutine that is not in the call stack returns and does what
  the specification says: it goes on top of the call stack, the caller sleeps with its
  registers and stack bytes of this moment, every other sleeper is as before, and the CPU
  continues the resumed coroutine with the registers and the bytes it was asleep with, even
  if its part of the common stack was overwritten since.
\<close>

theorem resume_refines:
  assumes "sched_env env" and "sched_inv env tid w" and "asleep (sched_of tid w) r = Some f"
    and "r \<notin> set (order (sched_of tid w))" and "McoResume env tid sp r w = (q, w')"
  shows "q = Inr () \<and> continues env tid r f w' \<and> sched_of tid w' =
    spec_resume r (now_of env tid sp (last (order (sched_of tid w))) w) (sched_of tid w)"
  using resume_asleep_contract [OF assms(1-4), of sp] assms(5) by auto

theorem resume_refines_witness:
  "let p = McoResume demo_env 1 990 8192 (demo_thread False) in
   fst p = Inr () \<and> order (sched_of 1 (snd p)) = [4096, 8192] \<and>
   continues demo_env 1 8192 (\<lambda>r. if r = RET then 2 else 7, Some [236, 237, 238, 239]) (snd p)"
  using resume_refines [OF demo_sched_env demo_inv demo_asleep, of 990
      "fst (McoResume demo_env 1 990 8192 (demo_thread False))"
      "snd (McoResume demo_env 1 990 8192 (demo_thread False))"]
  by (simp add: Let_def demo_order spec_resume_def)



text \<open>
  C13. A call of \<open>McoResume\<close> that the resumed coroutine answers with \<open>McoYield\<close>, after computing
  anything that spares the stacks of sleeping coroutines, looks to the caller like a function
  call: the caller continues with all its registers but \<open>RAX\<close> as they were (and the return
  address inside \<open>McoSwap\<close>), its bytes of the common stack are in place, it is on top of the
  same call stack, and the coroutine sleeps with the registers and bytes of its yield.
\<close>

theorem resume_yield_roundtrip:
  assumes env: "sched_env env" and inv: "sched_inv env tid w"
    and ord: "order (sched_of tid w) = xs @ [s]" and r: "r \<notin> set (xs @ [s])"
    and slp: "asleep (sched_of tid w) r = Some f"
    and res: "McoResume env tid sp r w = (q, w1)"
    and run: "spares_parked tid w1 m" "w2 = w1\<lparr>mem := m, news := n, cpus := (cpus w1)(tid := R)\<rparr>"
    and yld: "McoYield env tid sp' r w2 = (q', w3)"
  shows "q = Inr () \<and> q' = Inr () \<and> cpus w3 tid = (cpus w tid)(RET := swap_ret env, RAX := 0) \<and>
    in_place w3 s (stack_bytes w s sp) \<and> order (sched_of tid w3) = xs @ [s] \<and>
    asleep (sched_of tid w3) r = Some (now_of env tid sp' r w2)"
proof -
  let ?now = "now_of env tid sp s w"
  have w1: "q = Inr ()" "sched_inv env tid w1"
    "sched_of tid w1 = spec_resume r ?now (sched_of tid w)"
    using resume_asleep_contract [OF env inv slp, of sp] ord r res by auto
  from run_ok [OF w1(2) run(1), of R n]
  have w2: "sched_inv env tid w2" "sched_of tid w2 = sched_of tid w1"
    unfolding run(2) by (simp_all)
  have ord2: "order (sched_of tid w2) = xs @ [s, r]"
    using w2 w1(3) ord by (simp add: spec_resume_def)
  have sr: "s \<noteq> r"
    using r by auto
  have s2: "asleep (sched_of tid w2) s = Some ?now"
    using w2(2) w1(3) ord sr by (simp add: spec_resume_def)
  from yield_contract [OF env w2(1) ord2, of sp'] yld
  have w3: "q' = Inr ()" "continues env tid s ?now w3"
    "sched_of tid w3 = spec_yield (now_of env tid sp' r w2) (sched_of tid w2)"
    using s2 by auto
  have "fst ?now RET = swap_ret env"
    by (simp add: now_of_def save_regs_def)
  then have "in_place w3 s (stack_bytes w s sp)"
    using w3(2) by (simp add: continues_def now_of_def)
  moreover have "cpus w3 tid = (cpus w tid)(RET := swap_ret env, RAX := 0)"
    using w3(2) by (simp add: continues_def now_of_def enter_regs_def save_regs_def)
  ultimately show ?thesis
    using w1(1) w3(1,3) ord2 sr by (simp add: spec_yield_def butlast_append)
qed

theorem resume_yield_roundtrip_witness:
  "let w = demo_thread False; w1 = snd (McoResume demo_env 1 990 8192 w);
       w2 = w1\<lparr>cpus := (cpus w1)(1 := \<lambda>_. 99)\<rparr>; w3 = snd (McoYield demo_env 1 980 8192 w2) in
   cpus w3 1 = (cpus w 1)(RET := 2, RAX := 0) \<and> order (sched_of 1 w3) = [4096]"
proof -
  define w where "w = demo_thread False"
  define w1 where "w1 = snd (McoResume demo_env 1 990 8192 w)"
  define w2 where "w2 = w1\<lparr>cpus := (cpus w1)(1 := \<lambda>_. 99)\<rparr>"
  have res: "McoResume demo_env 1 990 8192 w = (fst (McoResume demo_env 1 990 8192 w), w1)"
    by (simp add: w1_def)
  have run: "spares_parked 1 w1 (mem w1)"
    "w2 = w1\<lparr>mem := mem w1, news := news w1, cpus := (cpus w1)(1 := \<lambda>_. 99)\<rparr>"
    by (simp_all add: spares_parked_def Let_def w2_def)
  have yld: "McoYield demo_env 1 980 8192 w2 =
      (fst (McoYield demo_env 1 980 8192 w2), snd (McoYield demo_env 1 980 8192 w2))"
    by simp
  have ord: "order (sched_of 1 w) = [] @ [4096]" "8192 \<notin> set ([] @ [4096 :: addr])"
    by (simp_all add: demo_order w_def)
  have ret: "swap_ret demo_env = 2"
    by (simp add: demo_env_def)
  show ?thesis
    unfolding Let_def w_def [symmetric] w1_def [symmetric] w2_def [symmetric]
    using resume_yield_roundtrip [OF demo_sched_env demo_inv [of False, folded w_def] ord
        demo_asleep [folded w_def] res run yld] unfolding ret by simp
qed

text \<open>
  C26. \<open>McoResume\<close> of the coroutine the caller was resumed by is turned into \<open>McoYield\<close> of the
  caller: the two calls are the same, so no coroutine enters the call stack a second time.
\<close>

theorem resume_below_is_yield:
  assumes "sched_env env" and "sched_inv env tid w" and "order (sched_of tid w) = xs @ [s, r]"
  shows "McoResume env tid sp s w = McoYield env tid sp r w"
  by (rule resume_below_contract [OF assms])

theorem resume_below_is_yield_witness:
  "McoResume demo_env 1 980 4096 (demo_thread True) = McoYield demo_env 1 980 8192 (demo_thread True)"
  by (rule resume_below_is_yield [OF demo_sched_env demo_inv, where xs = "[]"]) (simp add: demo_order)

text \<open>
  C17. When the callback of the running coroutine has ended, it leaves the call stack for good:
  the coroutine below continues with what it was asleep with, the finished one is neither
  running nor asleep, every other sleeper is as before, and any later \<open>McoResume\<close> or \<open>McoYield\<close>
  of it does nothing.
\<close>

theorem finish_is_final:
  assumes "sched_env env" and "sched_inv env tid w" and "order (sched_of tid w) = xs @ [s, r]"
    and "CoroutineRun_end env tid sp r w = (q, w')"
  shows "q = Inr () \<and> sched_of tid w' = spec_finish (sched_of tid w) \<and>
    (\<exists>f. asleep (sched_of tid w) s = Some f \<and> continues env tid s f w') \<and>
    McoResume env tid' sp' r w' = (Inr (), w') \<and> McoYield env tid' sp' r w' = (Inr (), w')"
  using finish_contract [OF assms(1-3), of sp] assms(4) McoResume_nop [of r w' env tid' sp']
    McoYield_nop [of r w' env tid' sp'] by auto

theorem finish_is_final_witness:
  "let p = CoroutineRun_end demo_env 1 990 8192 (demo_thread True) in
   fst p = Inr () \<and> order (sched_of 1 (snd p)) = [4096] \<and>
   asleep (sched_of 1 (snd p)) 8192 = None \<and>
   McoResume demo_env 1 980 8192 (snd p) = (Inr (), snd p)"
  using finish_is_final [OF demo_sched_env demo_inv [of True], of "[]" 4096 8192 990
      "fst (CoroutineRun_end demo_env 1 990 8192 (demo_thread True))"
      "snd (CoroutineRun_end demo_env 1 990 8192 (demo_thread True))" 1 980] top_awake [of 1 "demo_thread True"]
  by (simp add: Let_def demo_order spec_finish_def)

text \<open>
  C25. \<open>McoFree\<close> of a coroutine that was started once and is not in the call stack returns,
  deletes it, gives up its claim on the common stack, and leaves every other coroutine's
  registers and stack bytes alone.
\<close>

theorem free_refines:
  assumes "sched_inv env tid w" and "cos w r = Some c" and "stackMgr c = Some tid"
    and "r \<notin> set (order (sched_of tid w))" and "coctx c = Some x" and "ctx x = Ctx m"
    and "McoFree env tid r w = (q, w')"
  shows "q = Inr () \<and> cos w' r = None \<and> sched_inv env tid w' \<and>
    sched_of tid w' = spec_free r (sched_of tid w) \<and>
    (\<forall>mg. mgr_of w' tid = Some mg \<longrightarrow> commonOccupy mg \<noteq> r)"
proof -
  have w': "q = Inr ()" "cos w' r = None" "sched_inv env tid w'"
    "sched_of tid w' = spec_free r (sched_of tid w)"
    using free_contract [OF assms(1-4)] assms(5-7) by auto
  obtain cs mg where at: "sched_at env tid w' cs mg"
    using w'(3) by (auto simp: sched_inv_def)
  have "r \<noteq> 0"
    using assms(1,2) by (auto simp: sched_inv_def dest: sched_atD(3))
  then have "commonOccupy mg \<noteq> r"
    using sched_atD(10) [OF at] w'(2) by (auto simp: occupant_ok_def)
  then show ?thesis
    using w' sched_atD(5) [OF at] by auto
qed

theorem free_refines_witness:
  "let p = McoFree demo_env 1 8192 (demo_thread False) in
   fst p = Inr () \<and> cos (snd p) 8192 = None \<and> asleep (sched_of 1 (snd p)) 8192 = None"
proof -
  have "cos (demo_thread False) 8192 = Some (demo_co False False 4096)"
    by (simp add: demo_thread_def)
  from free_refines [OF demo_inv this, of _ _ "fst (McoFree demo_env 1 8192 (demo_thread False))"
      "snd (McoFree demo_env 1 8192 (demo_thread False))"]
  show ?thesis
    by (simp add: Let_def demo_order spec_free_def demo_co_def)
qed

end
