(* ===== verification/McoDefects.thy ===== *)
theory McoDefects
  imports McoGuarantees
begin

text \<open>
  Where the coroutine layer does not do what it means to: the states outside the scheduling
  invariant, and why the guarantees need its hypotheses.
\<close>

subsection \<open>No thread gets its main coroutine\<close>

lemma MainMco_faults:
  assumes mem: "\<And>k. heap_new env k \<noteq> None" and cs: "pool_free callstacks w"
    "cs_of w tid = Some cs" "cs_index cs = 0"
  shows "fst (MainMco env tid w) = Inl NullDeref"
proof -
  obtain a a1 a2 a3 where a: "heap_new env (news w) = Some a"
    "heap_new env (Suc (news w)) = Some a1" "heap_new env (Suc (Suc (news w))) = Some a2"
    "heap_new env (Suc (Suc (Suc (news w)))) = Some a3"
    using mem by (metis not_None_eq)
  show ?thesis
  proof (cases "a = 0")
    case True
    then show ?thesis
      using a cs by (simp add: MainMco_def McoCreate_def comp_defs new_block_apply upd_co_def)
  next
    case False
    then show ?thesis
      using a cs McoCreate_run [OF a(1) _ False, of CoEmpty True]
      by (simp add: MainMco_def InitMcoContext_def createPrivateMcoStack_def get_mgr_def comp_defs
          new_block_apply put_ctx_def McoRoutine_new_def)
  qed
qed

text \<open>
  C30. \<open>McoRoutine::stackMgr\<close> is read by \<open>InitMcoContext\<close> and assigned nowhere, so on a thread
  without running coroutines every \<open>McoResume\<close> of a coroutine that could run, and every
  \<open>MainMco\<close>, dereferences the null pointer while it sets up the main coroutine.
\<close>

theorem cold_thread_cannot_start:
  assumes mem: "\<And>k. heap_new env k \<noteq> None" and free: "pool_free callstacks w"
    and cold: "case cs_of w tid of None \<Rightarrow> True | Some cs \<Rightarrow> cs_index cs = 0"
    and c: "r \<noteq> 0" "cos w r = Some c" "\<not> running c" "\<not> finished c"
  shows "fst (McoResume env tid sp r w) = Inl NullDeref \<and> fst (MainMco env tid w) = Inl NullDeref"
proof -
  have mk: "McoCallStack_make env v = (Inr McoCallStack_new, v\<lparr>news := Suc (news v)\<rparr>)" for v
  proof -
    obtain a where "heap_new env (news v) = Some a"
      using mem [of "news v"] by blast
    then show ?thesis by (simp add: McoCallStack_make_def comp_defs new_block_apply)
  qed
  obtain cs w1 where w1: "GetMcoCallStack env tid w = (Inr cs, w1)" "pool_free callstacks w1"
    "cs_of w1 tid = Some cs" "cs_index cs = 0"
  proof (cases "cs_of w tid")
    case None
    from css.item_miss [OF free this mk] obtain w1 where
      "Item callstacks callstacks_put (McoCallStack_make env) tid w = (Inr McoCallStack_new, w1)"
      "pool_free callstacks w1" "cs_of w1 = (cs_of w)(tid \<mapsto> McoCallStack_new)"
      by blast
    then show thesis
      using that [of McoCallStack_new w1] by (simp add: GetMcoCallStack_def McoCallStack_new_def)
  next
    case (Some cs)
    then show thesis
      using that [of cs w] cold free by simp
  qed
  have main: "fst (MainMco env tid w1) = Inl NullDeref"
    by (rule MainMco_faults [OF mem w1(2-4)])
  obtain w2 where w2: "MainMco env tid w1 = (Inl NullDeref, w2)"
    using main by (cases "MainMco env tid w1") simp
  have nf: "\<not> (codone c \<and> done_yield c)"
    using c(4) by (simp add: finished_def)
  have "fst (McoResume env tid sp r w) = Inl NullDeref"
    using c w1 w2 nf by (auto simp: McoResume_def comp_defs)
  moreover have "MainMco env tid w = MainMco env tid w1"
    using w1 by (simp add: MainMco_def comp_defs)
  ultimately show ?thesis
    using main by simp
qed

theorem cold_thread_cannot_start_witness:
  "fst (McoResume demo_env 7 990 12288 (demo_thread False)) = Inl NullDeref"
proof -
  have "heap_new demo_env k \<noteq> None" for k
    by (simp add: demo_env_def)
  moreover have "pool_free callstacks (demo_thread False)"
    "case cs_of (demo_thread False) 7 of None \<Rightarrow> True | Some cs \<Rightarrow> cs_index cs = 0"
    "cos (demo_thread False) 12288 = Some demo_fresh"
    by (simp_all add: demo_thread_def pool_free_def inst_mutex_def inst_def Mutex_init_def
        lookup_item_def)
  ultimately show ?thesis
    using cold_thread_cannot_start [of demo_env "demo_thread False" 7 12288 demo_fresh 990]
    by (simp add: demo_fresh_def McoRoutine_new_def finished_def)
qed

subsection \<open>Builds with assertions\<close>



subsection \<open>Coroutines in the call stack\<close>

text \<open>
  \<open>McoYield\<close> by the main coroutine alone in the call stack dereferences its null \<open>sink\<close>; so
  does its end, since \<open>CoroutineRun\<close> ends in a yield.
\<close>

theorem main_cannot_yield:
  assumes env: "sched_env env" and inv: "sched_inv env tid w" and ord: "order (sched_of tid w) = [r]"
  shows "fst (McoYield env tid sp r w) = Inl NullDeref \<and>
    fst (CoroutineRun_end env tid sp r w) = Inl NullDeref"
proof -
  obtain cs mg where at: "sched_at env tid w cs mg" "active cs = [r]"
    using sched_invE [OF inv] ord by metis
  obtain c where c: "cos w r = Some c" "\<not> codone c"
    using main_sink [OF at] by blast
  have rz: "r \<noteq> 0"
    using active_nonnull(1) [OF at(1)] at(2) by auto
  have "c\<lparr>codone := False\<rparr> = c"
    using c(2) by (cases c) simp
  then have "put_co r (c\<lparr>codone := False\<rparr>) w = w"
    using c(1) by (simp add: put_co_same)
  then show ?thesis
    using main_yield_faults [OF env at c(1), of sp False] main_yield_faults [OF env at c(1), of sp True]
      c(1) rz by (simp add: CoroutineRun_end_def comp_defs)
qed

theorem main_cannot_yield_witness:
  "fst (McoYield demo_env 1 990 4096 (demo_thread False)) = Inl NullDeref"
  using main_cannot_yield [OF demo_sched_env demo_inv, of False 4096 990] by (simp add: demo_order)

text \<open>
  C32. \<open>McoFree\<close> looks at \<open>running\<close> only, which is false for the coroutines below the top of the
  call stack: it deletes the one the running coroutine was resumed by, and the next yield
  goes through a dangling pointer.
\<close>

theorem free_below_dangles:
  assumes env: "sched_env env" and inv: "sched_inv env tid w"
    and ord: "order (sched_of tid w) = xs @ [s, r]"
    and free: "McoFree env tid s w = (q, w1)"
  shows "q = Inr () \<and> cos w1 s = None \<and> fst (McoYield env tid sp r w1) = Inl DanglingPtr"
proof -
  obtain cs mg where at: "sched_at env tid w cs mg" "active cs = xs @ [s, r]"
    using sched_invE [OF inv] ord by metis
  have nz: "s \<noteq> 0" "r \<noteq> 0" "s \<noteq> r"
    using active_nonnull(1) [OF at(1)] sched_atD(8) [OF at(1)] at(2) by auto
  obtain c k where c: "cos w r = Some c" "stackMgr c = Some tid" "start c"
    and k: "cos w s = Some k" "stackMgr k = Some tid" "start k"
    using sched_atD(11) [OF at(1), of r] sched_atD(11) [OF at(1), of s] at(2)
    by (auto simp: live_def)
  have run: "running c" "\<not> running k" "\<not> codone c"
    using sched_atD(12) [OF at(1) c(1,2)] sched_atD(12) [OF at(1) k(1,2)]
      sched_at_started(1) [OF at(1) c] at(2) nz(3) by (auto simp: running_ok_def)
  have ini: "\<not> (case coctx k of None \<Rightarrow> False | Some x \<Rightarrow> ctx x = CtxIndet)"
    using sched_at_started(2) [OF at(1) k] at(2) nz(3)
    by (auto simp: suspended_ok_def has_ctx_def)
  have snk: "sink c = s"
    using sched_atD(9) [OF at(1)] at(2) c
    by (auto simp: chained_def nth_append dest: spec [of _ "Suc (length xs)"])
  have w1: "q = Inr ()" "cos w1 = (cos w)(s := None)" "callstacks w1 = callstacks w"
    using free nz k run ini sched_atD(2,5) [OF at(1)]
    by (auto simp: McoFree_def comp_defs GetCommonOccupy_def SetCommonOccupy_def
        RecycleMcoStack_def delete_co_def split: if_splits option.splits)
  have cs1: "pool_free callstacks w1" "cs_of w1 tid = Some cs"
    using sched_atD(1,4) [OF at(1)] w1(3)
    by (simp_all add: pool_free_def inst_mutex_def inst_def lookup_item_def)
  have "fst (McoYield env tid sp r w1) = Inl DanglingPtr"
    using nz c run snk w1 cs1 env
    by (simp add: McoYield_def comp_defs cassert_def sched_env_def getCurrIndex_def
        setCurrIndex_def upd_co_def [of s] get_co_def)
  then show ?thesis
    using w1 by simp
qed

theorem free_below_dangles_witness:
  "fst (McoYield demo_env 1 990 8192 (snd (McoFree demo_env 1 4096 (demo_thread True))))
   = Inl DanglingPtr"
  using free_below_dangles [OF demo_sched_env demo_inv [of True], of "[]" 4096 8192
      "fst (McoFree demo_env 1 4096 (demo_thread True))"
      "snd (McoFree demo_env 1 4096 (demo_thread True))" 990]
  by (simp add: demo_order)

text \<open>
  \<open>McoContext::ctx\<close> is not initialised by \<open>McoCreate\<close>, so freeing a coroutine that was created
  and never started deletes an indeterminate pointer.
\<close>

theorem free_unstarted_deletes_garbage:
  assumes mem: "heap_new env (news w) = Some r" "heap_new env (Suc (news w)) \<noteq> None" "r \<noteq> 0"
    and mgr: "pool_free stackmgrs w" "mgr_of w tid = Some mg"
    and create: "McoCreate env run priv w = (q, w1)"
  shows "q = Inr r \<and> fst (McoFree env tid r w1) = Inl DanglingPtr"
  using create McoCreate_run [OF mem, of run priv] mem(3) mgr
  by (auto simp: McoFree_def comp_defs GetCommonOccupy_def SetCommonOccupy_def RecycleMcoStack_def
      delete_co_def McoRoutine_new_def)

theorem free_unstarted_deletes_garbage_witness:
  "fst (McoFree demo_env 1 4096 (snd (McoCreate demo_env (Some 5) False
     ((demo_thread False)\<lparr>cos := Map.empty\<rparr>)))) = Inl DanglingPtr"
  using free_unstarted_deletes_garbage [of demo_env "(demo_thread False)\<lparr>cos := Map.empty\<rparr>" 4096 1
      demo_mgr "Some 5" False "fst (McoCreate demo_env (Some 5) False
        ((demo_thread False)\<lparr>cos := Map.empty\<rparr>))" "snd (McoCreate demo_env (Some 5) False
        ((demo_thread False)\<lparr>cos := Map.empty\<rparr>))"]
  by (simp add: demo_env_def demo_thread_def world_init_def lookup_item_def pool_free_def
      inst_mutex_def inst_def Mutex_init_def)

text \<open>
  Three coroutines on private stacks, all in the call stack, the one at 16384 running.
\<close>

definition demo_nested :: world where
  "demo_nested = (world_init (\<lambda>x. ucast x) (\<lambda>_ _. 0))\<lparr>
     cos := [4096 \<mapsto> demo_co True False 0, 8192 \<mapsto> demo_co True False 4096,
       16384 \<mapsto> demo_co True True 8192],
     callstacks := Some \<lparr>pools = [1 \<mapsto> \<lparr>callStack = [(0, 4096), (Suc 0, 8192), (2, 16384)],
       cs_index = 3\<rparr>], pool_mutex = Mutex_init\<rparr>,
     stackmgrs := Some \<lparr>pools = [1 \<mapsto> demo_mgr], pool_mutex = Mutex_init\<rparr>\<rparr>"

text \<open>
  \<open>McoResume\<close> rejects running and finished coroutines but never looks at \<open>in_callstack\<close>. A
  coroutine further down the call stack than the caller's \<open>sink\<close> is resumed: it is then twice
  in the call stack, its \<open>sink\<close> is overwritten by the caller, and the coroutine between them,
  when it yields, will hand the CPU to a coroutine that the call stack has above it.
\<close>

theorem resume_of_ancestor_accepted:
  "let w = demo_nested; p = McoResume demo_env 1 990 4096 w in
   order (sched_of 1 w) = [4096, 8192, 16384] \<and> fst p = Inr () \<and>
   order (sched_of 1 (snd p)) = [4096, 8192, 16384, 4096] \<and>
   map_option sink (cos (snd p) 4096) = Some 16384"
proof -
  let ?cs = "\<lparr>callStack = [(0, 4096), (Suc 0, 8192), (2, 16384)], cs_index = 3\<rparr>"
  let ?c = "demo_co True False 0" and ?k = "demo_co True True 8192"
  let ?m = "\<lparr>regs = (\<lambda>r. if r = RET then 2 else 7), ss_size = 0, ss_sp = 0\<rparr>"
  let ?st = "McoStack_new\<lparr>stack_bp := 1008, stack_sp := 1004, is_private := True\<rparr>"
  let ?w = "resume_pre 1 4096 ?c 16384 ?k ?cs demo_nested"
  have co: "cos demo_nested 4096 = Some ?c" "cos demo_nested 16384 = Some ?k"
    by (simp_all add: demo_nested_def)
  have fl: "\<not> running ?c" "\<not> codone ?c" "start ?c" "costack ?c = Some ?st" "costack ?k = Some ?st"
    "has_ctx ?c ?m" "has_ctx ?k ?m" "sink ?k = 8192"
    by (simp_all add: demo_co_def McoRoutine_new_def has_ctx_def)
  have cs: "cs_of demo_nested 1 = Some ?cs" "pool_free callstacks demo_nested"
    "pool_free stackmgrs demo_nested" "mgr_of demo_nested 1 = Some demo_mgr"
    by (simp_all add: demo_nested_def lookup_item_def pool_free_def inst_mutex_def inst_def
        Mutex_init_def)
  have act: "active ?cs = [4096, 8192, 16384]" "cs_filled ?cs"
    by (auto simp: active_def upt_rec cs_filled_def numeral_3_eq_3 less_Suc_eq)
  have put: "put_co 16384 k' (put_co 4096 c' v) = put_co 4096 c' (put_co 16384 k' v)" for k' c' v
    by (simp add: put_co_def fun_upd_twist)
  have nd: "\<not> dbg demo_env" "swap_ret demo_env = 2" "run_entry demo_env = 1"
    "heap_new demo_env (news ?w) \<noteq> None"
    by (simp_all add: demo_env_def)
  have call: "McoResume demo_env 1 990 4096 demo_nested = McoSwap demo_env 1 990 16384 4096 ?w"
    using co fl cs nd by (simp add: McoResume_def comp_defs getCurrIndex_def setCurrIndex_def
        cs_at_present start_co_def cs_store_apply resume_pre_def cs_pushed_def put)
  have w: "pool_free stackmgrs ?w" "mgr_of ?w 1 = Some demo_mgr" "pool_free callstacks ?w"
    "cs_of ?w 1 = Some (cs_pushed ?cs 4096)" "cos ?w 16384 = Some (?k\<lparr>running := False\<rparr>)"
    "cos ?w 4096 = Some (?c\<lparr>running := True, sink := 16384, in_callstack := True\<rparr>)"
    using cs by (simp_all add: resume_pre_def)
  have act': "active (cs_pushed ?cs 4096) = [4096, 8192, 16384, 4096]" "cs_filled (cs_pushed ?cs 4096)"
    "last (active (cs_pushed ?cs 4096)) = 4096" "0 < cs_index (cs_pushed ?cs 4096)"
    using cs_pushed_active [OF act(2), of 4096] act(1) by (simp_all add: cs_pushed_def)
  have a: "costack (?k\<lparr>running := False\<rparr>) = Some ?st" "has_ctx (?k\<lparr>running := False\<rparr>) ?m"
    and b: "costack (?c\<lparr>running := True, sink := 16384, in_callstack := True\<rparr>) = Some ?st"
      "has_ctx (?c\<lparr>running := True, sink := 16384, in_callstack := True\<rparr>) ?m"
    and pc: "regs ?m RET = run_entry demo_env \<or> regs ?m RET = swap_ret demo_env"
      "run_entry demo_env \<noteq> swap_ret demo_env"
    and ne: "(16384 :: addr) \<noteq> 0" "(4096 :: addr) \<noteq> 0" "(16384 :: addr) \<noteq> 4096"
    and priv: "is_private ?st"
    using fl nd by simp_all
  note run = McoSwap_run [OF w(1,2) nd(1) w(3,4) act'(2,4,3) ne(1) w(5) a ne(2) w(6) b ne(3) refl _
      nd(4) pc, where sp = 990 and oc = ?k and bs = "[]"]
  obtain w' where w': "McoSwap demo_env 1 990 16384 4096 ?w = (Inr (), w')"
    "callstacks w' = callstacks ?w"
    "cos w' 4096 = Some (?c\<lparr>running := True, sink := 16384, in_callstack := True\<rparr>)"
    using run priv by auto
  have "cs_of w' 1 = Some (cs_pushed ?cs 4096)"
    using w(4) w'(2) by (simp add: lookup_item_def)
  then have "order (sched_of 1 w') = [4096, 8192, 16384, 4096]"
    by (simp add: sched_of_def Let_def act')
  moreover have "order (sched_of 1 demo_nested) = [4096, 8192, 16384]"
    by (simp add: sched_of_def Let_def cs act)
  ultimately show ?thesis
    using call w' by (auto simp: Let_def)
qed

end
