(* ===== verification/SysapiHook.thy ===== *)
theory SysapiHook
  imports EventLoopPool
begin

text \<open>
  base/SysapiHook.cpp: the library's own \<open>read\<close>, \<open>accept\<close> and \<open>close\<close>, which wait for a blocking
  descriptor by yielding the current coroutine to the thread's event loop. \<open>tid\<close> is the calling
  thread. \<open>yield\<close> is \<open>Mcosops::Yield()\<close> up to its return: the switch to whoever resumed the
  coroutine, and all that happens until the coroutine is resumed again. The hooks own what their
  local pointers point to: the event to the end of its block, the coroutine to the return.
\<close>

definition O_NONBLOCK :: "32 word" where "O_NONBLOCK = 0x800"

text \<open>
  The lines of \<open>read\<close> and \<open>accept\<close> that register the descriptor for reading, before the call of
  \<open>Yield\<close>; the result is \<open>event\<close> and \<open>mco\<close>, or nothing where the coroutine-less thread calls through.
\<close>

definition hook_wait :: "env \<Rightarrow> 'k sys \<Rightarrow> int \<Rightarrow> int \<Rightarrow> ('k base, (nat \<times> nat) option) comp" where
  "hook_wait env S tid fd = bnd (GetMcoRoutine tid fd) (\<lambda>mco. case mco of
     Some c \<Rightarrow>
       seq (cassert (dbg env) (bnd (GetCurMco tid) (\<lambda>cur.
         seq (mco_drop env S tid cur) (ret (Some c = cur)))))
       (bnd (GetEvents env tid fd) (\<lambda>event.
       bnd (case event of Some e \<Rightarrow> ret e | None \<Rightarrow> new_ev tid fd kReadEvent) (\<lambda>e.
       seq (upd_ev e (updateEvents_of kReadEvent))
       (seq (UpdateLoopEvents env S e) (ret (Some (e, c)))))))
   | None \<Rightarrow> bnd (GetCurMco tid) (\<lambda>cur. case cur of
       None \<Rightarrow> ret None
     | Some c \<Rightarrow>
         seq (SetMcoRoutine env S tid tid fd c)
         (bnd (new_ev tid fd kReadEvent) (\<lambda>e.
         seq (UpdateLoopEvents env S e) (ret (Some (e, c)))))))"

text \<open>The lines after the call of \<open>Yield\<close>, to the end of the block, where the local pointer ends.\<close>

definition hook_done :: "env \<Rightarrow> 'k sys \<Rightarrow> nat \<Rightarrow> ('k base, unit) comp" where
  "hook_done env S e = seq (upd_ev e (deleteEvent kReadEvent))
     (seq (UpdateLoopEvents env S e) (ev_drop S e))"

definition read_hook ::
  "env \<Rightarrow> 'k sys \<Rightarrow> ('k base, unit) comp \<Rightarrow> int \<Rightarrow> int \<Rightarrow> nat \<Rightarrow> ('k base, int) comp" where
  "read_hook env S yield tid fd nbyte =
    bnd (on_kern (syscall (sys_getfl S fd))) (\<lambda>flag.
    bnd (gets hookable) (\<lambda>hookable.
      if O_NONBLOCK AND flag \<noteq> 0 \<or> \<not> hookable then on_kern (syscall (sys_read S fd nbyte))
      else bnd (hook_wait env S tid fd) (\<lambda>event. case event of
          None \<Rightarrow> on_kern (syscall (sys_read S fd nbyte))
        | Some (e, c) \<Rightarrow>
            seq yield (seq (hook_done env S e) (bnd (on_kern (syscall (sys_read S fd nbyte))) (\<lambda>r.
              seq (cont_drop env S tid c) (ret r)))))))"

definition accept_hook ::
  "env \<Rightarrow> 'k sys \<Rightarrow> ('k base, unit) comp \<Rightarrow> int \<Rightarrow> int \<Rightarrow> ('k base, int) comp" where
  "accept_hook env S yield tid fd =
    bnd (on_kern (syscall (sys_getfl S fd))) (\<lambda>flag.
    bnd (gets hookable) (\<lambda>hookable.
      if O_NONBLOCK AND flag \<noteq> 0 \<or> \<not> hookable then on_kern (syscall (sys_accept S fd))
      else bnd (hook_wait env S tid fd) (\<lambda>event. case event of
          None \<Rightarrow> bnd (on_kern (syscall (sys_accept S fd))) (\<lambda>r.
            seq (on_kern (syscall (sys_setfl S fd flag))) (ret r))
        | Some (e, c) \<Rightarrow>
            seq yield (seq (hook_done env S e) (bnd (on_kern (syscall (sys_accept S fd))) (\<lambda>r.
              seq (cont_drop env S tid c) (ret r)))))))"

definition close_hook :: "env \<Rightarrow> 'k sys \<Rightarrow> int \<Rightarrow> int \<Rightarrow> ('k base, int) comp" where
  "close_hook env S tid fd = bnd (gets hookable) (\<lambda>hookable.
     if \<not> hookable then on_kern (syscall (sys_close S fd))
     else bnd (GetCurMco tid) (\<lambda>cur.
       bnd (GetMcoRoutine tid fd) (\<lambda>fdmco.
       seq (if cur = fdmco then SetCurMco env S tid None else ret ())
       (seq (RemoveMcoRoutine env S tid fd)
       (bnd (GetEvents env tid fd) (\<lambda>event.
       bnd (case event of
          Some e \<Rightarrow> seq (RemoveEventFromLoop env S e) (seq (ev_drop S e) (ret 0))
        | None \<Rightarrow> on_kern (syscall (sys_close S fd))) (\<lambda>r.
       seq (mco_drop env S tid fdmco) (seq (mco_drop env S tid cur) (ret r)))))))))"

subsection \<open>What a registration does\<close>

lemma loop_released:
  assumes "\<not> mutex_held (loop_mutex l w)"
  shows "MutexLocker (loop_mutex l) (set_loop_mutex l) body w =
    (case body (set_loop_mutex l \<lparr>mutex_held = True\<rparr> w) of (r, t) \<Rightarrow>
       (r, set_loop_mutex l ((loop_mutex l t)\<lparr>mutex_held := False\<rparr>) t))"
proof -
  have m: "(loop_mutex l w)\<lparr>mutex_held := True\<rparr> = \<lparr>mutex_held = True\<rparr>"
    by (cases "loop_mutex l w") simp
  have "loop_lock.free l w"
    using assms by (simp add: loop_lock.free_def)
  from loop_lock.locker_free [OF this, of body] show ?thesis
    unfolding loop_lock.held_def loop_lock.released_def m .
qed

lemma getEvents_run:
  assumes "\<not> mutex_held (loop_mutex l w)"
  shows "getEvents l fd w = (case el_events (loops w l) fd of None \<Rightarrow> (Inr None, w)
    | Some e \<Rightarrow> (Inr (Some e), ev_share e w))"
proof -
  have m: "\<lparr>mutex_held = False\<rparr> = el_mutex (loops w l)"
    using assms unheld by (simp add: loop_mutex_def)
  show ?thesis
    unfolding getEvents_def loop_released [OF assms]
    by (auto simp: comp_defs set_loop_mutex_def upd_loop_def loop_mutex_def ev_share_def m
        split: option.split)
qed

lemma updateEvents_run:
  fixes w :: "'k base" and S :: "'k sys"
  assumes ev: "evobjs w e = Some x" "\<not> invaild x" and free: "\<not> mutex_held (loop_mutex l w)"
  defines "v \<equiv> set_loop_mutex l \<lparr>mutex_held = True\<rparr> w
    \<lparr>kern := snd (sys_write8 S (wakeFd (loops w l)) (kern w))\<rparr>"
  shows "updateEvents env S l e w = (case pollUpdate env S l e v of (r, t) \<Rightarrow>
    (r, set_loop_mutex l ((loop_mutex l t)\<lparr>mutex_held := False\<rparr>) t))"
proof -
  have body: "seq (wakeupLoop S l) (pollUpdate env S l e) (set_loop_mutex l \<lparr>mutex_held = True\<rparr> w) =
      pollUpdate env S l e v"
    by (simp add: wakeupLoop_def comp_defs v_def set_loop_mutex_def upd_loop_def)
  have "updateEvents env S l e w = MutexLocker (loop_mutex l) (set_loop_mutex l)
      (seq (wakeupLoop S l) (pollUpdate env S l e)) w"
    using ev by (simp add: updateEvents_def comp_defs)
  also have "\<dots> = (case pollUpdate env S l e v of (r, t) \<Rightarrow>
    (r, set_loop_mutex l ((loop_mutex l t)\<lparr>mutex_held := False\<rparr>) t))"
    unfolding loop_released [OF free] body ..
  finally show ?thesis .
qed

text \<open>\<open>ctl_run S l op x w\<close>: the wake-up and the \<open>epoll_ctl\<close> of a registration.\<close>

definition ctl_run :: "'k sys \<Rightarrow> nat \<Rightarrow> ctl \<Rightarrow> Events \<Rightarrow> 'k base \<Rightarrow> int \<times> 'k" where
  "ctl_run S l op x w = (case el_poll (loops w l) of None \<Rightarrow> (- 1, kern w) | Some p \<Rightarrow>
     sys_epoll_ctl S (epoll_fd p) op (epollEvents x)
       (snd (sys_write8 S (wakeFd (loops w l)) (kern w))))"

lemma ctl_run_cong: "loops v = loops w \<Longrightarrow> kern v = kern w \<Longrightarrow> ctl_run S l op x v = ctl_run S l op x w"
  by (simp add: ctl_run_def split: option.split)

text \<open>A loop that can register: it has a poller and nobody holds its lock.\<close>

definition loop_ready :: "nat \<Rightarrow> 'k base \<Rightarrow> bool" where
  "loop_ready l w \<longleftrightarrow> \<not> mutex_held (loop_mutex l w) \<and>
     (\<exists>p. el_poll (loops w l) = Some p \<and> epoll_fd p \<noteq> - 1)"

lemma loop_readyE:
  assumes "loop_ready l w"
  obtains p where "\<not> mutex_held (loop_mutex l w)" "el_poll (loops w l) = Some p" "epoll_fd p \<noteq> - 1"
    "\<lparr>mutex_held = False\<rparr> = el_mutex (loops w l)"
  using assms unheld by (auto simp: loop_ready_def loop_mutex_def)

lemma updateEvents_add:
  assumes "loop_ready l w" and ev: "evobjs w e = Some x" "isnew x \<or> ismod x"
    and none: "el_events (loops w l) (ev_fd x) = None"
  shows "updateEvents env S l e w = (Inr (fst (ctl_run S l CTL_ADD x w) \<noteq> - 1),
    put_entry l (ev_fd x) e (w\<lparr>kern := snd (ctl_run S l CTL_ADD x w)\<rparr>))"
proof -
  obtain p where free: "\<not> mutex_held (loop_mutex l w)"
    and p: "el_poll (loops w l) = Some p" "epoll_fd p \<noteq> - 1"
    and m: "\<lparr>mutex_held = False\<rparr> = el_mutex (loops w l)"
    by (rule loop_readyE [OF assms(1)])
  have "\<not> invaild x"
    using ev(2) by (auto simp: state_defs)
  note run = updateEvents_run [OF ev(1) this free, of env S]
  show ?thesis
    unfolding run using ev p none
    by (auto simp: pollUpdate_def comp_defs set_loop_mutex_def loop_mutex_def upd_loop_def EventsAdd_def
        eventCtl_run ctl_run_def put_entry_def ev_share_def state_defs m)
qed

lemma updateEvents_mod:
  assumes "loop_ready l w" and ev: "evobjs w e = Some x" "ismod x"
    and some: "el_events (loops w l) (ev_fd x) \<noteq> None"
  shows "updateEvents env S l e w = (Inr (fst (ctl_run S l CTL_MOD x w) \<noteq> - 1),
    w\<lparr>kern := snd (ctl_run S l CTL_MOD x w)\<rparr>)"
proof -
  obtain p where free: "\<not> mutex_held (loop_mutex l w)"
    and p: "el_poll (loops w l) = Some p" "epoll_fd p \<noteq> - 1"
    and m: "\<lparr>mutex_held = False\<rparr> = el_mutex (loops w l)"
    by (rule loop_readyE [OF assms(1)])
  have "\<not> invaild x"
    using ev(2) by (auto simp: state_defs)
  note run = updateEvents_run [OF ev(1) this free, of env S]
  show ?thesis
    unfolding run using ev p some
    by (auto simp: pollUpdate_def comp_defs set_loop_mutex_def loop_mutex_def upd_loop_def EventsMod_def
        eventCtl_run ctl_run_def state_defs m)
qed

lemma updateEvents_del:
  assumes "loop_ready l w" and ev: "evobjs w e = Some x" "isdel x"
    and some: "el_events (loops w l) (ev_fd x) = Some e" "1 < evrefs w e"
  shows "updateEvents env S l e w = (Inr True,
    (if dbg env then upd_loop l (\<lambda>y. y\<lparr>el_events := (el_events y)(ev_fd x := None)\<rparr>)
        (w\<lparr>kern := snd (ctl_run S l CTL_DEL x w), evrefs := (evrefs w)(e := evrefs w e - 1)\<rparr>)
     else w\<lparr>kern := snd (ctl_run S l CTL_DEL x w)\<rparr>))"
proof -
  obtain p where free: "\<not> mutex_held (loop_mutex l w)"
    and p: "el_poll (loops w l) = Some p" "epoll_fd p \<noteq> - 1"
    and m: "\<lparr>mutex_held = False\<rparr> = el_mutex (loops w l)"
    by (rule loop_readyE [OF assms(1)])
  have "\<not> invaild x"
    using ev(2) by (auto simp: state_defs)
  note run = updateEvents_run [OF ev(1) this free, of env S]
  show ?thesis
    unfolding run using ev p some
    by (auto simp: pollUpdate_def comp_defs set_loop_mutex_def loop_mutex_def upd_loop_def EventsDel_def
        eventCtl_run ctl_run_def erase_entry_def ev_drop_def state_defs m)
qed

subsection \<open>Waiting for a descriptor\<close>

lemma UpdateLoopEvents_run:
  "pool_ready w \<Longrightarrow> evobjs w e = Some x \<Longrightarrow> lp_loops (lpool w) (ev_tid x) = Some l \<Longrightarrow>
    UpdateLoopEvents env S e w = updateEvents env S l e w"
  by (simp add: UpdateLoopEvents_def comp_defs GetLoop_run)

lemma new_ev_run:
  "new_ev tid fd m w = (Inr (evnext w), put_ev (evnext w) (Events_new tid fd m) (w\<lparr>evnext := Suc (evnext w), evrefs := (evrefs w)(evnext w := 1)\<rparr>))"
  by (simp add: new_ev_def comp_defs)

text \<open>
  A thread in the middle of a coroutine \<open>c\<close>, with its event loop \<open>l\<close>: what the hooks rely on.
\<close>

definition in_coroutine :: "int \<Rightarrow> nat \<Rightarrow> nat \<Rightarrow> 'k base \<Rightarrow> bool" where
  "in_coroutine tid l c w \<longleftrightarrow> pool_free mcopools w \<and> mp_cur (pool_at w tid) = Some c \<and>
     pool_ready w \<and> lp_loops (lpool w) tid = Some l \<and> loop_ready l w"

lemma hook_wait_first:
  assumes cor: "in_coroutine tid l c w" and nowaiter: "fdMcos (pool_at w tid) fd = None"
    and none: "el_events (loops w l) fd = None"
  shows "\<exists>q. hook_wait env S tid fd w = (Inr (Some (evnext w, c)),
     put_entry l fd (evnext w) (put_ev (evnext w) (Events_new tid fd kReadEvent)
       (w\<lparr>mcopools := q, evnext := Suc (evnext w), evrefs := (evrefs w)(evnext w := 1),
          contrefs := (contrefs w)(c := contrefs w c + 2),
          kern := snd (ctl_run S l CTL_ADD (Events_new tid fd kReadEvent) w)\<rparr>))) \<and>
     pool_free mcopools (w\<lparr>mcopools := q\<rparr>) \<and> pool_at (w\<lparr>mcopools := q\<rparr>) = (pool_at w)
       (tid := (pool_at w tid)\<lparr>fdMcos := (fdMcos (pool_at w tid))(fd \<mapsto> c)\<rparr>)"
proof -
  let ?x = "Events_new tid fd kReadEvent" and ?e = "evnext w"
  let ?R = "(contrefs w)(c := contrefs w c + 2)"
  have free: "pool_free mcopools w" and cur: "mp_cur (pool_at w tid) = Some c"
    using cor by (simp_all add: in_coroutine_def)
  obtain q1 where q1: "GetMcoRoutine tid fd w = (Inr None, w\<lparr>mcopools := q1\<rparr>)"
    "pool_free mcopools (w\<lparr>mcopools := q1\<rparr>)" "pool_at (w\<lparr>mcopools := q1\<rparr>) = pool_at w"
    using GetMcoRoutine_at [OF free, of tid fd] nowaiter by (metis own_simps(1))
  obtain q2 where q2: "GetCurMco tid (w\<lparr>mcopools := q1\<rparr>) = (Inr (Some c), co_share c (w\<lparr>mcopools := q2\<rparr>))"
    "pool_free mcopools (w\<lparr>mcopools := q2\<rparr>)" "pool_at (w\<lparr>mcopools := q2\<rparr>) = pool_at w"
    by (rule GetCurMco_at [OF q1(2), of tid]) (simp add: q1(3) cur)
  have "pool_free mcopools (co_share c (w\<lparr>mcopools := q2\<rparr>))"
    using q2(2) by simp
  from pool_writers_at(1) [OF this, of env S tid tid fd c] obtain q where
    q: "SetMcoRoutine env S tid tid fd c (co_share c (w\<lparr>mcopools := q2\<rparr>)) =
      (Inr (), co_share c (co_share c (w\<lparr>mcopools := q2\<rparr>)\<lparr>mcopools := q\<rparr>))"
    "pool_free mcopools (w\<lparr>mcopools := q\<rparr>)" "pool_at (w\<lparr>mcopools := q\<rparr>) = (pool_at w)
       (tid := (pool_at w tid)\<lparr>fdMcos := (fdMcos (pool_at w tid))(fd \<mapsto> c)\<rparr>)"
    using q2(3) nowaiter by auto
  have two: "co_share c (co_share c (w\<lparr>mcopools := q2\<rparr>)\<lparr>mcopools := q\<rparr>) = w\<lparr>mcopools := q, contrefs := ?R\<rparr>"
    by (simp add: co_share_def)
  let ?v = "put_ev ?e ?x (w\<lparr>mcopools := q, contrefs := ?R, evnext := Suc ?e, evrefs := (evrefs w)(?e := 1)\<rparr>)"
  have v: "pool_ready ?v" "loop_ready l ?v" "lp_loops (lpool ?v) (ev_tid ?x) = Some l"
    "evobjs ?v ?e = Some ?x" "el_events (loops ?v l) (ev_fd ?x) = None" "isnew ?x"
    using cor none by (simp_all add: in_coroutine_def pool_ready_def pool_lock_def loop_ready_def
        loop_mutex_def Events_new_def state_defs)
  have same: "ctl_run S l CTL_ADD ?x ?v = ctl_run S l CTL_ADD ?x w"
    by (rule ctl_run_cong) simp_all
  have "UpdateLoopEvents env S ?e ?v = (Inr (fst (ctl_run S l CTL_ADD ?x w) \<noteq> - 1),
      put_entry l fd ?e (?v\<lparr>kern := snd (ctl_run S l CTL_ADD ?x w)\<rparr>))"
    unfolding UpdateLoopEvents_run [OF v(1) v(4) v(3)]
    using updateEvents_add [OF v(2) v(4) disjI1 [OF v(6)] v(5), of env S]
    unfolding same by (simp add: Events_new_def)
  then have "hook_wait env S tid fd w = (Inr (Some (?e, c)),
      put_entry l fd ?e (?v\<lparr>kern := snd (ctl_run S l CTL_ADD ?x w)\<rparr>))"
    using q1(1) q2(1) q(1) two by (simp add: hook_wait_def comp_defs new_ev_run)
  moreover have "?v\<lparr>kern := k\<rparr> = put_ev ?e ?x (w\<lparr>mcopools := q, evnext := Suc ?e,
      evrefs := (evrefs w)(?e := 1), contrefs := ?R, kern := k\<rparr>)" for k
    by (simp add: put_ev_def)
  ultimately show ?thesis
    using q(2,3) by auto
qed

text \<open>
  C8. A blocking read suspends its coroutine and is woken: on a thread that runs coroutine \<open>c\<close>,
  the hooked \<open>read\<close> of a blocking descriptor that nobody waits for yields in a state in which the
  loop's table has a new event for the descriptor that asks for reading, the kernel was told to
  watch it, and \<open>c\<close> is the waiter; and whenever the loop, in that state, is told of an occurrence on
  the descriptor, it resumes \<open>c\<close> and nobody else. The waiter entry and the hook itself own \<open>c\<close>
  while it sleeps. After the yield the request for reading is taken back and the read is made.
\<close>

theorem read_suspends_and_is_woken:
  fixes w :: "'k base" and S :: "'k sys" and fd :: int
  defines "w1 \<equiv> w\<lparr>kern := snd (sys_getfl S fd (kern w))\<rparr>"
  assumes blocking: "fst (sys_getfl S fd (kern w)) AND O_NONBLOCK = 0" "hookable w"
    and cor: "in_coroutine tid l c w" and nowaiter: "fdMcos (pool_at w tid) fd = None"
    and none: "el_events (loops w l) fd = None" "wakeFd (loops w l) \<noteq> fd"
  shows "\<exists>v e. read_hook env S yield tid fd n w =
      seq yield (seq (hook_done env S e) (bnd (on_kern (syscall (sys_read S fd n))) (\<lambda>r.
        seq (cont_drop env S tid c) (ret r)))) v \<and>
    contrefs v c = contrefs w c + 2 \<and> el_events (loops v l) fd = Some e \<and> evobjs v e = Some (Events_new tid fd kReadEvent) \<and>
    kern v = snd (ctl_run S l CTL_ADD (Events_new tid fd kReadEvent) w1) \<and>
    (\<forall>ev resume. ep_fd ev = fd \<longrightarrow> (\<exists>u.
       handle_one env S resume tid l ev v = seq (resume c) (cont_drop env S tid c) (co_share c u) \<and>
       only_pools (put_ev e ((Events_new tid fd kReadEvent)\<lparr>emutable := ep_events ev\<rparr>) v) u))"
proof -
  let ?x = "Events_new tid fd kReadEvent" and ?e = "evnext w"
  have cor1: "in_coroutine tid l c w1" "fdMcos (pool_at w1 tid) fd = None" "el_events (loops w1 l) fd = None"
    using cor nowaiter none pool_at_cong [of w1 w]
    by (simp_all add: w1_def in_coroutine_def pool_ready_def pool_lock_def loop_ready_def loop_mutex_def)
  obtain q v where v: "hook_wait env S tid fd w1 = (Inr (Some (?e, c)), v)"
    "v = put_entry l fd ?e (put_ev ?e ?x (w1\<lparr>mcopools := q, evnext := Suc ?e, evrefs := (evrefs w)(?e := 1),
        contrefs := (contrefs w)(c := contrefs w c + 2), kern := snd (ctl_run S l CTL_ADD ?x w1)\<rparr>))"
    "pool_free mcopools (w1\<lparr>mcopools := q\<rparr>)" "fdMcos (pool_at (w1\<lparr>mcopools := q\<rparr>) tid) fd = Some c"
    using hook_wait_first [OF cor1, of env S] by (auto simp: w1_def)
  have q: "mcopools v = q" "mcopools (w1\<lparr>mcopools := q\<rparr>) = q"
    by (simp_all add: v(2) put_entry_def ev_share_def)
  have pv: "pool_free mcopools v" "fdMcos (pool_at v tid) fd = Some c"
    using v(3,4) pool_at_cong [of v "w1\<lparr>mcopools := q\<rparr>"] q by simp_all
  have lv: "el_events (loops v l) fd = Some ?e" "wakeFd (loops v l) \<noteq> fd" "\<not> mutex_held (loop_mutex l v)"
    "evobjs v ?e = Some ?x"
    using cor none by (simp_all add: v(2) w1_def loop_mutex_def in_coroutine_def loop_ready_def)
  have kv: "kern v = snd (ctl_run S l CTL_ADD ?x w1)" "contrefs v c = contrefs w c + 2"
    by (simp_all add: v(2) put_entry_def ev_share_def)
  have woken: "\<exists>u. handle_one env S resume tid l ev v = seq (resume c) (cont_drop env S tid c) (co_share c u) \<and>
      only_pools (put_ev ?e (?x\<lparr>emutable := ep_events ev\<rparr>) v) u"
    if fd: "ep_fd ev = fd" for ev and resume :: "nat \<Rightarrow> ('k base, unit) comp"
  proof -
    have x: "evobjs v a = Some ?x \<and> ev_fd ?x = fd" if "el_events (loops v l) fd = Some a" for a
      using that lv by (simp add: Events_new_def)
    have taken: "taken_up (ep_events ev) ?x" "after_occurrence (ep_events ev) ?x = ?x\<lparr>emutable := ep_events ev\<rparr>"
      by (simp_all add: taken_up_def after_occurrence_def state_defs Events_new_def setMutable_def)
    from handle_one_run [OF lv(3) pv(1) fd refl x, of env S resume tid] show ?thesis
      using lv taken pv by auto
  qed
  have "read_hook env S yield tid fd n w =
      seq yield (seq (hook_done env S ?e) (bnd (on_kern (syscall (sys_read S fd n))) (\<lambda>r.
        seq (cont_drop env S tid c) (ret r)))) v"
    using v(1) blocking by (simp add: read_hook_def comp_defs w1_def and.commute)
  with lv kv woken show ?thesis
    by blast
qed

theorem read_suspends_and_is_woken_witness:
  "\<exists>v e. read_hook demo_env demo_sys (raise NoFuel) 1 11 64
      ((demo_base [5 \<mapsto> 0] (Events_new 1 9 0) [5 \<mapsto> kReadEvent])\<lparr>mcopools := Some \<lparr>pools = [1 \<mapsto>
        \<lparr>mp_cur = Some 3, fdMcos = Map.empty\<rparr>], pool_mutex = Mutex_init\<rparr>\<rparr>) = (Inl NoFuel, v) \<and>
    el_events (loops v 0) 11 = Some e"
proof -
  let ?w = "(demo_base [5 \<mapsto> 0] (Events_new 1 9 0) [5 \<mapsto> kReadEvent])\<lparr>mcopools := Some \<lparr>pools = [1 \<mapsto>
        \<lparr>mp_cur = Some 3, fdMcos = Map.empty\<rparr>], pool_mutex = Mutex_init\<rparr>\<rparr>"
  note d = demo_base_def demo_loop_def Mutex_init_def
  have b: "fst (sys_getfl demo_sys 11 (kern ?w)) AND O_NONBLOCK = 0" "hookable ?w"
    by (simp_all add: demo_sys_def d demo_kernel0_def)
  have c: "in_coroutine 1 0 3 ?w" "fdMcos (pool_at ?w 1) 11 = None" "el_events (loops ?w 0) 11 = None"
    "wakeFd (loops ?w 0) \<noteq> 11"
    by (simp_all add: in_coroutine_def d pool_ready_def pool_lock_def loop_ready_def loop_mutex_def
        pool_free_def inst_mutex_def inst_def pool_at_def lookup_item_def)
  show ?thesis
    using read_suspends_and_is_woken [OF b c, of demo_env "raise NoFuel" 64] by (auto simp: comp_defs)
qed

subsection \<open>After the wait\<close>

lemma nothing_left:
  assumes "m AND NOT kReadEvent = 0" "ev_state x = MOD" "eorigin x = kNoneEvent"
  shows "\<not> taken_up m x"
proof -
  have bits: "bit m n \<longrightarrow> bit kReadEvent n" for n
    using assms(1) bit_imp_le_length [of m n] by (auto simp: bit_eq_iff bit_simps)
  then have m: "m AND kReadEvent = m"
    by (auto simp: bit_eq_iff bit_simps)
  have "m AND POLLOUT = m AND (kReadEvent AND POLLOUT)"
    using m by (metis and.assoc)
  then have noout: "m AND POLLOUT = 0"
    by (simp add: mask_defs)
  show ?thesis
  proof (cases "m = 0")
    case True
    then show ?thesis
      using assms by (simp add: taken_up_def state_defs Let_def handle_mutable_def isRead_def isWrite_def
          containsAtLeastOneEvents_def kNoneEvent_def after_occurrence_def setMutable_def)
  next
    case False
    then have "m AND (POLLIN OR POLLPRI OR POLLRDHUP) \<noteq> 0"
      using m by (metis kReadEvent_def bit.conj_disj_distrib or_eq_0_iff or.assoc)
    then show ?thesis
      using assms noout by (simp add: taken_up_def state_defs Let_def handle_mutable_def isRead_def isWrite_def
          containsAtLeastOneEvents_def kNoneEvent_def after_occurrence_def setMutable_def originRead_def
          originWrite_def deleteEventMutable_def)
  qed
qed

lemma hook_done_run:
  assumes ready: "pool_ready w" "lp_loops (lpool w) (ev_tid x) = Some l" "loop_ready l w"
    and ev: "evobjs w e = Some x" "el_events (loops w l) (ev_fd x) \<noteq> None" "1 < evrefs w e"
  shows "hook_done env S e w = (Inr (), put_ev e (deleteEvent kReadEvent x) w
    \<lparr>kern := snd (ctl_run S l CTL_MOD (deleteEvent kReadEvent x) w),
     evrefs := (evrefs w)(e := evrefs w e - 1)\<rparr>)"
proof -
  let ?y = "deleteEvent kReadEvent x"
  let ?u = "put_ev e ?y w"
  have y: "ismod ?y" "ev_fd ?y = ev_fd x" "ev_tid ?y = ev_tid x"
    by (simp_all add: deleteEvent_def state_defs)
  have u: "pool_ready ?u" "lp_loops (lpool ?u) (ev_tid ?y) = Some l" "loop_ready l ?u" "evobjs ?u e = Some ?y"
    "el_events (loops ?u l) (ev_fd ?y) \<noteq> None"
    using ready ev y by (simp_all add: pool_ready_def pool_lock_def loop_ready_def loop_mutex_def)
  have "ctl_run S l CTL_MOD ?y ?u = ctl_run S l CTL_MOD ?y w"
    by (rule ctl_run_cong) simp_all
  then show ?thesis
    using ev(1,3) UpdateLoopEvents_run [OF u(1,4,2), of env S] updateEvents_mod [OF u(3,4) y(1) u(5), of env S]
    by (simp add: hook_done_def comp_defs ev_drop_def)
qed

text \<open>
  C24. After the yield the hooks take the request back: the event asks for nothing any more, which is
  what the kernel is told, the registration itself stays, and an occurrence of read events that the
  loop still reports for the descriptor resumes nobody.
\<close>

theorem read_stops_waiting:
  assumes ready: "pool_ready w" "lp_loops (lpool w) (ev_tid x) = Some l" "loop_ready l w"
      "pool_free mcopools w"
    and ev: "evobjs w e = Some x" "eorigin x = kReadEvent" "el_events (loops w l) (ev_fd x) = Some e"
      "1 < evrefs w e"
  shows "\<exists>v y. hook_done env S e w = (Inr (), v) \<and> y = deleteEvent kReadEvent x \<and>
    evobjs v e = Some y \<and> evrefs v e = evrefs w e - 1 \<and> eorigin y = kNoneEvent \<and> kern v = snd (ctl_run S l CTL_MOD y w) \<and>
    el_events (loops v l) (ev_fd x) = Some e \<and>
    (\<forall>ev resume. ep_fd ev = ev_fd x \<longrightarrow> ep_events ev AND NOT kReadEvent = 0 \<longrightarrow>
      handle_one env S resume tid l ev v = (Inr (), put_ev e (after_occurrence (ep_events ev) y) v))"
proof -
  let ?y = "deleteEvent kReadEvent x"
  let ?v = "put_ev e ?y w\<lparr>kern := snd (ctl_run S l CTL_MOD ?y w), evrefs := (evrefs w)(e := evrefs w e - 1)\<rparr>"
  have y: "eorigin ?y = kNoneEvent" "ev_state ?y = MOD" "ev_fd ?y = ev_fd x"
    using ev(2) by (simp_all add: deleteEvent_def kNoneEvent_def)
  have run: "hook_done env S e w = (Inr (), ?v)"
    using hook_done_run [OF ready(1-3) ev(1) _ ev(4)] ev(3) by simp
  have v: "\<not> mutex_held (loop_mutex l ?v)" "pool_free mcopools ?v" "el_events (loops ?v l) (ev_fd x) = Some e"
    "evobjs ?v e = Some ?y"
    using ready ev pool_at_cong(2) [of ?v w] by (simp_all add: loop_mutex_def loop_ready_def)
  have quiet: "handle_one env S resume tid l ev ?v = (Inr (), put_ev e (after_occurrence (ep_events ev) ?y) ?v)"
    if fd: "ep_fd ev = ev_fd x" and m: "ep_events ev AND NOT kReadEvent = 0" for ev and resume :: "nat \<Rightarrow> ('a base, unit) comp"
  proof -
    have x: "evobjs ?v a = Some ?y \<and> ev_fd ?y = ev_fd x" if "el_events (loops ?v l) (ev_fd x) = Some a" for a
      using that v y by simp
    have "\<not> taken_up (ep_events ev) ?y"
      by (rule nothing_left [OF m y(2,1)])
    with handle_one_run [OF v(1,2) fd refl x, of env S resume tid] v show ?thesis
      by auto
  qed
  from run v y quiet show ?thesis
    by (intro exI [of _ ?v] exI [of _ ?y]) auto
qed

theorem read_stops_waiting_witness:
  "let w = demo_base [9 \<mapsto> 1] (Events_new 1 9 kReadEvent) [9 \<mapsto> kReadEvent] in
   \<exists>v. hook_done demo_env demo_sys 1 w = (Inr (), v) \<and>
     fst (handle_one demo_env demo_sys (\<lambda>_. raise NoFuel) 1 0 \<lparr>ep_fd = 9, ep_events = POLLIN\<rparr> v) = Inr ()"
proof -
  let ?w = "demo_base [9 \<mapsto> 1] (Events_new 1 9 kReadEvent) [9 \<mapsto> kReadEvent]"
  note d = demo_base_def demo_loop_def Mutex_init_def
  have r: "pool_ready ?w" "lp_loops (lpool ?w) (ev_tid (Events_new 1 9 kReadEvent)) = Some 0"
    "loop_ready 0 ?w" "pool_free mcopools ?w" "evobjs ?w 1 = Some (Events_new 1 9 kReadEvent)"
    "eorigin (Events_new 1 9 kReadEvent) = kReadEvent"
    "el_events (loops ?w 0) (ev_fd (Events_new 1 9 kReadEvent)) = Some 1" "1 < evrefs ?w 1"
    by (simp_all add: d pool_ready_def pool_lock_def loop_ready_def loop_mutex_def
        pool_free_def inst_mutex_def inst_def Events_new_def)
  have m: "ep_events \<lparr>ep_fd = 9, ep_events = POLLIN\<rparr> AND NOT kReadEvent = 0"
    "ep_fd \<lparr>ep_fd = 9, ep_events = POLLIN\<rparr> = ev_fd (Events_new 1 9 kReadEvent)"
    by (simp_all add: mask_defs Events_new_def)
  obtain v where v: "hook_done demo_env demo_sys 1 ?w = (Inr (), v)"
    "\<And>ev resume. ep_fd ev = ev_fd (Events_new 1 9 kReadEvent) \<Longrightarrow> ep_events ev AND NOT kReadEvent = 0 \<Longrightarrow>
      fst (handle_one demo_env demo_sys resume 1 0 ev v) = Inr ()"
    using read_stops_waiting [OF r, of demo_env demo_sys 1] by (metis fst_conv)
  show ?thesis
    using v(1) v(2) [OF m(2,1)] by (simp add: Let_def)
qed

text \<open>
  The counts after a \<open>close\<close>: the entry of the waiter \<open>m\<close> has gone, and the current coroutine
  with it if it was that.
\<close>

definition closed_refs :: "nat option \<Rightarrow> nat option \<Rightarrow> (nat \<Rightarrow> nat) \<Rightarrow> nat \<Rightarrow> nat" where
  "closed_refs cur m r c = r c - (if m = Some c then if cur = Some c then 2 else 1 else 0)"

text \<open>Somebody else, as the loop does for a coroutine it has resumed, owns what \<open>close\<close> gives up.\<close>

definition owned_elsewhere :: "nat option \<Rightarrow> nat option \<Rightarrow> (nat \<Rightarrow> nat) \<Rightarrow> bool" where
  "owned_elsewhere cur m r \<longleftrightarrow>
     (\<forall>c. cur = Some c \<longrightarrow> 0 < r c) \<and> (\<forall>c. m = Some c \<longrightarrow> (if cur = m then 2 else 1) < r c)"

lemma close_forgets:
  fixes w :: "'k base" and S :: "'k sys" and fd tid :: int
  defines "cur \<equiv> mp_cur (pool_at w tid)" and "m \<equiv> fdMcos (pool_at w tid) fd"
  defines "r \<equiv> (if cur = m then contrefs w else inc cur (contrefs w))"
  assumes free: "pool_free mcopools w" and owned: "owned_elsewhere cur m (contrefs w)"
  shows "\<exists>q. bnd (GetCurMco tid) (\<lambda>cur. bnd (GetMcoRoutine tid fd) (\<lambda>m.
        seq (if cur = m then SetCurMco env S tid None else ret ())
          (seq (RemoveMcoRoutine env S tid fd) (g cur m)))) w =
      g cur m (w\<lparr>mcopools := q, contrefs := r\<rparr>) \<and>
    pool_at (w\<lparr>mcopools := q\<rparr>) = (pool_at w)(tid := \<lparr>mp_cur = (if cur = m then None else cur),
      fdMcos = (fdMcos (pool_at w tid))(fd := None)\<rparr>)"
proof -
  obtain q1 where q1: "GetCurMco tid w = (Inr cur, own cur (w\<lparr>mcopools := q1\<rparr>))"
    "pool_free mcopools (w\<lparr>mcopools := q1\<rparr>)" "pool_at (w\<lparr>mcopools := q1\<rparr>) = pool_at w"
    using GetCurMco_at [OF free, of tid] unfolding cur_def by metis
  let ?w1 = "own cur (w\<lparr>mcopools := q1\<rparr>)"
  have f1: "pool_free mcopools ?w1" "pool_at ?w1 = pool_at w"
    using q1 by simp_all
  obtain q2 where q2: "GetMcoRoutine tid fd ?w1 = (Inr m, own m (?w1\<lparr>mcopools := q2\<rparr>))"
    "pool_free mcopools (?w1\<lparr>mcopools := q2\<rparr>)" "pool_at (?w1\<lparr>mcopools := q2\<rparr>) = pool_at w"
    using GetMcoRoutine_at [OF f1(1), of tid fd] unfolding f1(2) m_def by metis
  let ?w2 = "own m (?w1\<lparr>mcopools := q2\<rparr>)"
  let ?r2 = "if cur = m then dec cur (contrefs ?w2) else contrefs ?w2"
  let ?P = "(pool_at w tid)\<lparr>mp_cur := if cur = m then None else cur\<rparr>"
  have more: "1 < contrefs ?w2 c" if "cur = m" "cur = Some c" for c
    using that(2) unfolding that(1) [symmetric] by (simp add: own_inc inc_def)
  have "\<exists>q3. (if cur = m then SetCurMco env S tid None else ret ()) ?w2 =
      (Inr (), ?w2\<lparr>mcopools := q3, contrefs := ?r2\<rparr>) \<and> pool_free mcopools (?w2\<lparr>mcopools := q3\<rparr>) \<and>
      pool_at (?w2\<lparr>mcopools := q3\<rparr>) = (pool_at w)(tid := ?P)"
  proof (cases "cur = m")
    case False
    then show ?thesis
      using q2 by (intro exI [of _ "mcopools ?w2"]) (auto simp: cur_def fun_eq_iff)
  next
    case True
    have f2: "pool_free mcopools ?w2" "pool_at ?w2 = pool_at w"
      using q2 by simp_all
    have "mco_drop env S tid cur (?w2\<lparr>mcopools := q\<rparr>) = (Inr (), ?w2\<lparr>mcopools := q, contrefs := dec cur (contrefs ?w2)\<rparr>)" for q
      using mco_drop_shared [of cur "?w2\<lparr>mcopools := q\<rparr>" env S tid] more [OF True] by simp
    then show ?thesis
      using pool_writers_at(2) [OF f2(1), of env S tid None] True unfolding f2(2) cur_def [symmetric] by auto
  qed
  then obtain q3 where q3: "(if cur = m then SetCurMco env S tid None else ret ()) ?w2 =
      (Inr (), ?w2\<lparr>mcopools := q3, contrefs := ?r2\<rparr>)" "pool_free mcopools (?w2\<lparr>mcopools := q3\<rparr>)"
    "pool_at (?w2\<lparr>mcopools := q3\<rparr>) = (pool_at w)(tid := ?P)" by blast
  let ?w3 = "?w2\<lparr>mcopools := q3, contrefs := ?r2\<rparr>"
  have f3: "pool_free mcopools ?w3" "pool_at ?w3 = (pool_at w)(tid := ?P)"
    using q3 by simp_all
  have m3: "fdMcos (pool_at ?w3 tid) fd = m"
    unfolding f3(2) by (simp add: m_def)
  obtain q where q: "RemoveMcoRoutine env S tid fd ?w3 =
      seq (mco_drop env S tid m) (ret (m \<noteq> None)) (?w3\<lparr>mcopools := q\<rparr>)"
    "pool_at (?w3\<lparr>mcopools := q\<rparr>) = (pool_at w)(tid := ?P\<lparr>fdMcos := (fdMcos (pool_at w tid))(fd := None)\<rparr>)"
    using pool_writers_at(3) [OF f3(1), of env S tid fd] unfolding m3 unfolding f3(2) by auto
  have more3: "1 < contrefs (?w3\<lparr>mcopools := q\<rparr>) c" if "m = Some c" for c
    using owned that by (auto simp: owned_elsewhere_def own_inc inc_def dec_def)
  have r: "dec m ?r2 = r"
    using owned unfolding r_def by (auto simp: own_inc inc_def dec_def fun_eq_iff)
  have rem: "RemoveMcoRoutine env S tid fd ?w3 = (Inr (m \<noteq> None), w\<lparr>mcopools := q, contrefs := r\<rparr>)"
    unfolding q(1) using mco_drop_shared [of m _ env S tid, OF more3] r by (simp add: comp_defs own_inc)
  have "pool_at (w\<lparr>mcopools := q\<rparr>) = pool_at (?w3\<lparr>mcopools := q\<rparr>)"
    by (auto simp: fun_eq_iff intro!: pool_at_cong)
  moreover have "?P\<lparr>fdMcos := (fdMcos (pool_at w tid))(fd := None)\<rparr> = \<lparr>mp_cur = (if cur = m then None else cur),
      fdMcos = (fdMcos (pool_at w tid))(fd := None)\<rparr>"
    by (cases "pool_at w tid") simp
  moreover have "bnd (GetCurMco tid) (\<lambda>cur. bnd (GetMcoRoutine tid fd) (\<lambda>m.
        seq (if cur = m then SetCurMco env S tid None else ret ())
          (seq (RemoveMcoRoutine env S tid fd) (g cur m)))) w = g cur m (w\<lparr>mcopools := q, contrefs := r\<rparr>)"
    by (simp only: bnd_apply seq_apply q1(1) q2(1) q3(1) rem prod.case sum.case)
  ultimately show ?thesis
    using q(2) by (intro exI [of _ q]) (simp only: simp_thms)
qed

lemma close_end:
  assumes "owned_elsewhere cur m r" "contrefs v = (if cur = m then r else inc cur r)"
  shows "seq (mco_drop env S tid m) (seq (mco_drop env S tid cur) (ret n)) v =
    (Inr n, v\<lparr>contrefs := closed_refs cur m r\<rparr>)"
proof -
  have more: "1 < contrefs (v\<lparr>contrefs := dec m (contrefs v)\<rparr>) c" if "cur = Some c" for c
    using assms that by (cases "cur = m") (auto simp: owned_elsewhere_def inc_def dec_def)
  have "mco_drop env S tid m v = (Inr (), v\<lparr>contrefs := dec m (contrefs v)\<rparr>)"
    by (rule mco_drop_shared) (use assms in \<open>auto simp: owned_elsewhere_def inc_def split: if_splits\<close>)
  moreover have "mco_drop env S tid cur (v\<lparr>contrefs := dec m (contrefs v)\<rparr>) =
      (Inr (), v\<lparr>contrefs := dec cur (dec m (contrefs v))\<rparr>)"
    using mco_drop_shared [of cur "v\<lparr>contrefs := dec m (contrefs v)\<rparr>" env S tid] more by simp
  moreover have "dec cur (dec m (contrefs v)) = closed_refs cur m r"
    using assms by (auto simp: owned_elsewhere_def inc_def dec_def closed_refs_def fun_eq_iff)
  ultimately show ?thesis
    by (simp add: seq_apply)
qed

text \<open>\<open>close\<close> takes a pointer to the event of the descriptor and takes the event out of the loop.\<close>

lemma close_removes:
  fixes w :: "'k base" and S :: "'k sys" and e l :: nat and x :: Events
  defines "u \<equiv> put_ev e (setState DEL x) (ev_share e w)" and "k \<equiv> snd (ctl_run S l CTL_DEL x w)"
  assumes ready: "pool_ready w" "lp_loops (lpool w) tid = Some l" "loop_ready l w"
    and ev: "el_events (loops w l) fd = Some e" "evobjs w e = Some x" "ev_fd x = fd" "ev_tid x = tid"
    and held: "0 < evrefs w e"
  shows "GetEvents env tid fd w = (Inr (Some e), ev_share e w)"
    and "RemoveEventFromLoop env S e (ev_share e w) = (Inr True,
      if dbg env then upd_loop l (\<lambda>z. z\<lparr>el_events := (el_events z)(fd := None)\<rparr>)
        (u\<lparr>kern := k, evrefs := (evrefs u)(e := evrefs u e - 1)\<rparr>) else u\<lparr>kern := k\<rparr>)"
proof -
  let ?s = "ev_share e w" and ?y = "setState DEL x"
  have free: "\<not> mutex_held (loop_mutex l w)"
    using ready(3) by (simp add: loop_ready_def loop_mutex_def)
  show "GetEvents env tid fd w = (Inr (Some e), ?s)"
    using ready ev(1) GetLoop_run [of w env tid] getEvents_run [OF free, of fd]
    by (simp add: GetEvents_def comp_defs)
  have loop: "GetLoop env tid ?s = (Inr (Some l), ?s)"
    using ready GetLoop_run [of ?s env tid] by (simp add: pool_ready_def pool_lock_def ev_share_def)
  have r: "loop_ready l u" "evobjs u e = Some ?y" "isdel ?y" "el_events (loops u l) (ev_fd ?y) = Some e"
    "1 < evrefs u e"
    using ready(3) ev held unfolding u_def
    by (simp_all add: loop_ready_def loop_mutex_def setState_def state_defs ev_share_def)
  have "ctl_run S l CTL_DEL ?y u = ctl_run S l CTL_DEL x w" "ev_fd ?y = fd"
    using ev(3) by (simp_all add: u_def ctl_run_def epollEvents_def setState_def ev_share_def split: option.split)
  note del = updateEvents_del [OF r, of env S, unfolded this, folded k_def]
  have get: "get_ev e ?s = (Inr x, ?s)" "upd_ev e (setState DEL) ?s = (Inr (), u)"
    using ev(2) by (simp_all add: u_def ev_share_def)
  show "RemoveEventFromLoop env S e ?s = (Inr True,
      if dbg env then upd_loop l (\<lambda>z. z\<lparr>el_events := (el_events z)(fd := None)\<rparr>)
        (u\<lparr>kern := k, evrefs := (evrefs u)(e := evrefs u e - 1)\<rparr>) else u\<lparr>kern := k\<rparr>)"
    using get loop ev(4) del by (simp only: RemoveEventFromLoop_def comp_defs prod.case sum.case option.case)
qed

lemma close_run:
  fixes w :: "'k base" and S :: "'k sys" and x :: Events and l :: nat and fd tid :: int
  defines "k \<equiv> snd (ctl_run S l CTL_DEL x w)"
    and "cur \<equiv> mp_cur (pool_at w tid)" and "m \<equiv> fdMcos (pool_at w tid) fd"
  assumes ready: "hookable w" "pool_free mcopools w" "pool_ready w" "lp_loops (lpool w) tid = Some l"
      "loop_ready l w"
    and ev: "el_events (loops w l) fd = Some e" "evobjs w e = Some x" "ev_fd x = fd" "ev_tid x = tid"
    and held: "0 < evrefs w e" "owned_elsewhere cur m (contrefs w)"
  shows "\<exists>v. close_hook env S tid fd w = (Inr 0, v) \<and>
    pool_at v = (pool_at w)(tid := \<lparr>mp_cur = (if cur = m then None else cur),
      fdMcos = (fdMcos (pool_at w tid))(fd := None)\<rparr>) \<and>
    contrefs v = closed_refs cur m (contrefs w) \<and> conts v = conts w \<and> mcow v = mcow w \<and>
    (if \<not> dbg env then kern v = k \<and> el_events (loops v l) fd = Some e \<and> evrefs v e = evrefs w e \<and> evobjs v e = Some (setState DEL x)
     else if evrefs w e = 1
       then kern v = snd (sys_close S fd k) \<and> el_events (loops v l) fd = None \<and> evobjs v e = None
       else kern v = k \<and> el_events (loops v l) fd = None \<and> evrefs v e = evrefs w e - 1)"
proof -
  let ?r = "if cur = m then contrefs w else inc cur (contrefs w)"
  let ?P = "\<lparr>mp_cur = (if cur = m then None else cur), fdMcos = (fdMcos (pool_at w tid))(fd := None)\<rparr>"
  let ?g = "\<lambda>cur m. bnd (GetEvents env tid fd) (\<lambda>event.
       bnd (case event of
          Some e \<Rightarrow> seq (RemoveEventFromLoop env S e) (seq (ev_drop S e) (ret 0))
        | None \<Rightarrow> on_kern (syscall (sys_close S fd))) (\<lambda>r.
       seq (mco_drop env S tid m) (seq (mco_drop env S tid cur) (ret r))))"
  obtain q where q: "close_hook env S tid fd w = ?g cur m (w\<lparr>mcopools := q, contrefs := ?r\<rparr>)"
    "pool_at (w\<lparr>mcopools := q\<rparr>) = (pool_at w)(tid := ?P)"
    using close_forgets [OF ready(2), of tid fd env S ?g] held(2) ready(1) unfolding cur_def m_def
    by (auto simp: close_hook_def bnd_apply)
  let ?w = "w\<lparr>mcopools := q, contrefs := ?r\<rparr>"
  let ?u = "put_ev e (setState DEL x) (ev_share e ?w)"
  have "pool_ready ?w" "lp_loops (lpool ?w) tid = Some l" "loop_ready l ?w" "el_events (loops ?w l) fd = Some e"
    "evobjs ?w e = Some x" "0 < evrefs ?w e"
    using ready ev held by (simp_all add: pool_ready_def pool_lock_def loop_ready_def loop_mutex_def)
  note rm = close_removes [OF this(1-5) ev(3,4) this(6)]
  have "ctl_run S l CTL_DEL x ?w = ctl_run S l CTL_DEL x w"
    by (rule ctl_run_cong) simp_all
  then have kern: "snd (ctl_run S l CTL_DEL x ?w) = k"
    by (simp add: k_def)
  define z where "z = (if dbg env then upd_loop l (\<lambda>z. z\<lparr>el_events := (el_events z)(fd := None)\<rparr>)
        (?u\<lparr>kern := k, evrefs := (evrefs ?u)(e := evrefs ?u e - 1)\<rparr>) else ?u\<lparr>kern := k\<rparr>)"
  note events = rm(1) [of env] and rem = rm(2) [of env S, unfolded kern, folded z_def]
  have run: "close_hook env S tid fd w = (Inr 0, v\<lparr>contrefs := closed_refs cur m (contrefs w)\<rparr>)"
    if "ev_drop S e z = (Inr (), v)" "contrefs v = ?r" for v
    unfolding q(1) using events rem that close_end [OF held(2) that(2), of env S tid 0]
    by (simp add: bnd_apply seq_apply)
  have zs: "contrefs z = ?r" "mcopools z = q"
    by (simp_all add: z_def ev_share_def put_ev_def upd_loop_def)
  have pools: "pool_at z = (pool_at w)(tid := ?P)" if "mcopools z = q" for z
    unfolding q(2) [symmetric] using pool_at_cong(1) [of z "w\<lparr>mcopools := q\<rparr>"] that by (simp add: fun_eq_iff)
  show ?thesis
  proof (cases "dbg env \<and> evrefs w e = 1")
    case True
    then have "ev_drop S e z = (Inr (), z\<lparr>kern := snd (sys_close S fd k),
        evrefs := (evrefs z)(e := 0), evobjs := (evobjs z)(e := None)\<rparr>)"
      unfolding z_def using ev(3)
      by (simp add: ev_drop_def comp_defs upd_loop_def put_ev_def ev_share_def setState_def)
    from run [OF this] show ?thesis
      using True zs by (simp add: pools z_def put_ev_def upd_loop_def ev_share_def)
  next
    case False
    then have "1 < evrefs z e"
      using held by (auto simp: z_def put_ev_def upd_loop_def ev_share_def)
    then have "ev_drop S e z = (Inr (), z\<lparr>evrefs := (evrefs z)(e := evrefs z e - 1)\<rparr>)"
      by (simp add: ev_drop_def comp_defs)
    from run [OF this] show ?thesis
      using False zs ev(1) by (auto simp: pools z_def put_ev_def upd_loop_def ev_share_def)
  qed
qed



subsection \<open>A thread without a loop\<close>

text \<open>
  What the hooks count on of the time between yield and return: the event, the registry and the owners
  stay.
\<close>

definition keeps_event :: "('k base, unit) comp \<Rightarrow> bool" where
  "keeps_event yield \<longleftrightarrow> (\<forall>v. \<exists>u. yield v = (Inr (), u) \<and> evobjs u = evobjs v \<and> evrefs u = evrefs v \<and>
     lpool u = lpool v \<and> lpool_made u = lpool_made v \<and> contrefs u = contrefs v)"

text \<open>
  C40. On a thread that runs a coroutine but has no event loop, the hooked \<open>read\<close> of a blocking
  descriptor registers nothing, ignores that it could not, and after the yield closes the
  descriptor, since its local pointer is the only one to the event, before it reads from it.
\<close>

theorem read_without_loop_closes:
  fixes w :: "'k base" and S :: "'k sys"
  assumes blocking: "fst (sys_getfl S fd (kern w)) AND O_NONBLOCK = 0" "hookable w"
    and cor: "pool_free mcopools w" "mp_cur (pool_at w tid) = Some c" "fdMcos (pool_at w tid) fd = None"
    and noloop: "pool_ready w" "lp_loops (lpool w) tid = None" and yield: "keeps_event yield"
  shows "\<exists>k v. read_hook env S yield tid fd n w = (Inr (fst (sys_read S fd n (snd (sys_close S fd k)))), v)"
proof -
  let ?w = "w\<lparr>kern := snd (sys_getfl S fd (kern w))\<rparr>" and ?e = "evnext w"
  have pools: "pool_free mcopools ?w" "pool_at ?w = pool_at w"
    using cor pool_at_cong [of ?w w] by (auto simp: fun_eq_iff)
  obtain q1 where q1: "GetMcoRoutine tid fd ?w = (Inr None, ?w\<lparr>mcopools := q1\<rparr>)"
    "pool_free mcopools (?w\<lparr>mcopools := q1\<rparr>)" "pool_at (?w\<lparr>mcopools := q1\<rparr>) = pool_at w"
    using GetMcoRoutine_at [OF pools(1), of tid fd] cor(3) pools(2) by (metis own_simps(1))
  obtain q2 where q2: "GetCurMco tid (?w\<lparr>mcopools := q1\<rparr>) = (Inr (Some c), co_share c (?w\<lparr>mcopools := q2\<rparr>))"
    "pool_free mcopools (?w\<lparr>mcopools := q2\<rparr>)" "pool_at (?w\<lparr>mcopools := q2\<rparr>) = pool_at w"
    by (rule GetCurMco_at [OF q1(2), of tid]) (simp add: q1(3) cor(2))
  have "pool_free mcopools (co_share c (?w\<lparr>mcopools := q2\<rparr>))"
    using q2(2) by simp
  from pool_writers_at(1) [OF this, of env S tid tid fd c] obtain q where
    q: "SetMcoRoutine env S tid tid fd c (co_share c (?w\<lparr>mcopools := q2\<rparr>)) =
      (Inr (), co_share c (co_share c (?w\<lparr>mcopools := q2\<rparr>)\<lparr>mcopools := q\<rparr>))"
    using q2(3) cor(3) by auto
  let ?R = "(contrefs w)(c := contrefs w c + 2)"
  have two: "co_share c (co_share c (?w\<lparr>mcopools := q2\<rparr>)\<lparr>mcopools := q\<rparr>) = ?w\<lparr>mcopools := q, contrefs := ?R\<rparr>"
    by (simp add: co_share_def)
  let ?v = "put_ev ?e (Events_new tid fd kReadEvent)
    (?w\<lparr>mcopools := q, contrefs := ?R, evnext := Suc ?e, evrefs := (evrefs w)(?e := 1)\<rparr>)"
  have noreg: "UpdateLoopEvents env S ?e z = (Inr False, z)"
    if "evobjs z ?e = Some y" "ev_tid y = tid" "lpool z = lpool w" "lpool_made z = lpool_made w" for z y
    using that noloop GetLoop_run [of z env tid]
    by (simp add: UpdateLoopEvents_def comp_defs pool_ready_def pool_lock_def)
  have wait: "hook_wait env S tid fd ?w = (Inr (Some (?e, c)), ?v)"
    using q1(1) q2(1) q two noreg [of ?v] by (simp add: hook_wait_def comp_defs new_ev_run Events_new_def)
  obtain u where u: "yield ?v = (Inr (), u)" "evobjs u = evobjs ?v" "evrefs u = evrefs ?v"
    "lpool u = lpool ?v" "lpool_made u = lpool_made ?v" "contrefs u = contrefs ?v"
    using yield unfolding keeps_event_def by blast
  let ?y = "deleteEvent kReadEvent (Events_new tid fd kReadEvent)"
  have y: "evobjs u ?e = Some (Events_new tid fd kReadEvent)" "ev_tid ?y = tid" "ev_fd ?y = fd"
    by (simp_all add: u(2) deleteEvent_def Events_new_def)
  have "UpdateLoopEvents env S ?e (put_ev ?e ?y u) = (Inr False, put_ev ?e ?y u)"
    by (rule noreg [of _ ?y]) (use y u in simp_all)
  then have "hook_done env S ?e u = (Inr (), put_ev ?e ?y u\<lparr>kern := snd (sys_close S fd (kern u)),
      evrefs := (evrefs u)(?e := 0), evobjs := (evobjs (put_ev ?e ?y u))(?e := None)\<rparr>)"
    using y u(3) by (simp add: hook_done_def comp_defs ev_drop_def)
  then show ?thesis
    using blocking wait u(1,6) by (auto simp: read_hook_def comp_defs and.commute)
qed

theorem read_without_loop_closes_witness:
  "\<exists>v k. read_hook demo_env demo_sys (ret ()) 2 9 64
      ((demo_base Map.empty (Events_new 1 9 0) Map.empty)\<lparr>mcopools := Some \<lparr>pools = [2 \<mapsto>
        \<lparr>mp_cur = Some 3, fdMcos = Map.empty\<rparr>], pool_mutex = Mutex_init\<rparr>\<rparr>) =
    (Inr (fst (sys_read demo_sys 9 64 (snd (sys_close demo_sys 9 k)))), v)"
proof -
  let ?w = "(demo_base Map.empty (Events_new 1 9 0) Map.empty)\<lparr>mcopools := Some \<lparr>pools = [2 \<mapsto>
        \<lparr>mp_cur = Some 3, fdMcos = Map.empty\<rparr>], pool_mutex = Mutex_init\<rparr>\<rparr>"
  note d = demo_base_def demo_loop_def Mutex_init_def
  have b: "fst (sys_getfl demo_sys 9 (kern ?w)) AND O_NONBLOCK = 0" "hookable ?w"
    by (simp_all add: demo_sys_def d demo_kernel0_def)
  have c: "pool_free mcopools ?w" "mp_cur (pool_at ?w 2) = Some 3" "fdMcos (pool_at ?w 2) 9 = None"
    "pool_ready ?w" "lp_loops (lpool ?w) 2 = None"
    by (simp_all add: d pool_ready_def pool_lock_def pool_free_def inst_mutex_def inst_def pool_at_def
        lookup_item_def)
  have "keeps_event (ret ())"
    by (simp add: keeps_event_def)
  from read_without_loop_closes [OF b c this] show ?thesis
    by blast
qed

subsection \<open>Destructors that close through the hook\<close>

definition Epoll_delete :: "env \<Rightarrow> 'k sys \<Rightarrow> int \<Rightarrow> Epoll \<Rightarrow> ('k base, unit) comp" where
  "Epoll_delete env S tid p = seq (close_hook env S tid (epoll_fd p)) (ret ())"

text \<open>
  \<open>~EventLoop\<close>: after its body the members go, the wake-up event first and then the table, whose
  entries are destroyed in an order \<open>fds\<close> that the container does not fix.
\<close>

fun drop_entries :: "'k sys \<Rightarrow> nat \<Rightarrow> int list \<Rightarrow> ('k base, unit) comp" where
  "drop_entries S l [] = ret ()"
| "drop_entries S l (fd # fds) = seq (erase_entry S l fd) (drop_entries S l fds)"

definition EventLoop_delete :: "env \<Rightarrow> 'k sys \<Rightarrow> int \<Rightarrow> nat \<Rightarrow> int list \<Rightarrow> ('k base, unit) comp" where
  "EventLoop_delete env S tid l fds = bnd (gets (\<lambda>w. loops w l)) (\<lambda>loop.
     seq (case el_poll loop of None \<Rightarrow> ret () | Some p \<Rightarrow> Epoll_delete env S tid p)
     (seq (ev_drop S (wakeEvent loop)) (drop_entries S l fds)))"

end
