(* ===== verification/LoopScheduling.thy ===== *)
theory LoopScheduling
  imports SysapiHook McoGuarantees
begin

text \<open>
  The two layers together: the yield of a hooked call and the resume of the event loop are
  \<open>Mcosops::Yield\<close> and \<open>Mcosops::Resume\<close>, whose effect on the machine is what the coroutine layer
  guarantees. \<open>mcow\<close> is the coroutine layer's part of the state.
\<close>

text \<open>\<open>Yield\<close> and \<open>Resume\<close> up to the switch of the machine.\<close>

definition yield_switch :: "env \<Rightarrow> int \<Rightarrow> addr \<Rightarrow> ('k base, unit) comp" where
  "yield_switch env tid sp = bnd (GetCurMco tid) (\<lambda>mco. case mco of
     None \<Rightarrow> ret () | Some c \<Rightarrow> Continuation_yield env tid sp c)"

definition resume_switch :: "env \<Rightarrow> 'k sys \<Rightarrow> int \<Rightarrow> addr \<Rightarrow> nat \<Rightarrow> ('k base, unit) comp" where
  "resume_switch env S tid sp c = seq (resume_begin env S tid c) (Continuation_resume env tid sp c)"

lemma yield_switch_run:
  assumes "pool_free mcopools w" "mp_cur (pool_at w tid) = Some c" "conts w c = Some \<lparr>cont_co = r\<rparr>"
    "McoYield env tid sp r (mcow w) = (Inr (), m)"
  obtains q where "yield_switch env tid sp w = (Inr (), co_share c (w\<lparr>mcopools := q, mcow := m\<rparr>))"
    "Mcosops_Yield env S (Continuation_yield env tid sp) tid w =
       cont_drop env S tid c (co_share c (w\<lparr>mcopools := q, mcow := m\<rparr>))"
    "pool_free mcopools (w\<lparr>mcopools := q, mcow := m\<rparr>)" "pool_at (w\<lparr>mcopools := q, mcow := m\<rparr>) = pool_at w"
proof -
  obtain q where q: "GetCurMco tid w = (Inr (Some c), co_share c (w\<lparr>mcopools := q\<rparr>))"
    "pool_free mcopools (w\<lparr>mcopools := q\<rparr>)" "pool_at (w\<lparr>mcopools := q\<rparr>) = pool_at w"
    using GetCurMco_at [OF assms(1), of tid] assms(2) by (metis own_simps(2))
  have y: "Continuation_yield env tid sp c (co_share c (w\<lparr>mcopools := q\<rparr>)) =
      (Inr (), co_share c (w\<lparr>mcopools := q, mcow := m\<rparr>))"
    using assms(3,4) by (simp add: Continuation_yield_def get_cont_def comp_defs co_share_def)
  have "yield_switch env tid sp w = (Inr (), co_share c (w\<lparr>mcopools := q, mcow := m\<rparr>))"
    "Mcosops_Yield env S (Continuation_yield env tid sp) tid w =
       cont_drop env S tid c (co_share c (w\<lparr>mcopools := q, mcow := m\<rparr>))"
    using q(1) y by (simp_all add: yield_switch_def Mcosops_Yield_def comp_defs)
  moreover have "pool_free mcopools (w\<lparr>mcopools := q, mcow := m\<rparr>)"
    "pool_at (w\<lparr>mcopools := q, mcow := m\<rparr>) = pool_at w"
    using q(2,3) pool_at_cong [of "w\<lparr>mcopools := q, mcow := m\<rparr>" "w\<lparr>mcopools := q\<rparr>"]
    by (auto simp: fun_eq_iff)
  ultimately show ?thesis
    by (rule that)
qed

text \<open>Resuming the current coroutine, as long as somebody owns it.\<close>

lemma resume_switch_run:
  assumes "pool_free mcopools w" "conts w c = Some \<lparr>cont_co = r\<rparr>"
    and cur: "mp_cur (pool_at w tid) = Some c" "0 < contrefs w c"
    and "McoResume env tid sp r (mcow w) = (Inr (), m)"
  obtains q where "resume_switch env S tid sp c w = (Inr (), co_share c (w\<lparr>mcopools := q, mcow := m\<rparr>))"
    "mp_cur (pool_at (w\<lparr>mcopools := q, mcow := m\<rparr>) tid) = Some c"
proof -
  let ?w = "co_share c w"
  have free: "pool_free mcopools ?w"
    using assms(1) by simp
  obtain q where q: "SetCurMco env S tid (Some c) ?w = cont_drop env S tid c (co_share c (?w\<lparr>mcopools := q\<rparr>))"
    "pool_at (?w\<lparr>mcopools := q\<rparr>) = (pool_at w)(tid := (pool_at w tid)\<lparr>mp_cur := Some c\<rparr>)"
    using pool_writers_at(2) [OF free, of env S tid "Some c"] cur(1) by auto
  have "SetCurMco env S tid (Some c) ?w = (Inr (), ?w\<lparr>mcopools := q\<rparr>)"
    unfolding q(1) by (rule cont_drop_share) simp
  then have "resume_switch env S tid sp c w = (Inr (), co_share c (w\<lparr>mcopools := q, mcow := m\<rparr>))"
    using assms(2,5)
    by (simp add: resume_switch_def resume_begin_def Continuation_resume_def get_cont_def comp_defs co_share_def)
  moreover have "mp_cur (pool_at (w\<lparr>mcopools := q, mcow := m\<rparr>) tid) = Some c"
    using q(2) pool_at_cong(1) [of "w\<lparr>mcopools := q, mcow := m\<rparr>" "w\<lparr>mcopools := q\<rparr>" tid] by simp
  ultimately show ?thesis
    by (rule that)
qed

text \<open>What the wait of a coroutine leaves: the registered event, the waiter, the current coroutine.\<close>

lemma hook_wait_leaves:
  assumes cor: "in_coroutine tid l c w" and free: "fdMcos (pool_at w tid) fd = None" "el_events (loops w l) fd = None"
  obtains v where "hook_wait env S tid fd w = (Inr (Some (evnext w, c)), v)"
    "mcow v = mcow w" "conts v = conts w" "contrefs v c = contrefs w c + 2"
    "evobjs v (evnext w) = Some (Events_new tid fd kReadEvent)" "evrefs v (evnext w) = 2"
    "lpool v = lpool w" "lpool_made v = lpool_made w" "loop_ready l v"
    "el_events (loops v l) fd = Some (evnext w)" "wakeFd (loops v l) = wakeFd (loops w l)"
    "pool_free mcopools v" "mp_cur (pool_at v tid) = Some c" "fdMcos (pool_at v tid) fd = Some c"
proof -
  let ?x = "Events_new tid fd kReadEvent" and ?e = "evnext w"
  obtain q v where v: "hook_wait env S tid fd w = (Inr (Some (?e, c)), v)"
    "v = put_entry l fd ?e (put_ev ?e ?x (w\<lparr>mcopools := q, evnext := Suc ?e,
        evrefs := (evrefs w)(?e := 1), contrefs := (contrefs w)(c := contrefs w c + 2),
        kern := snd (ctl_run S l CTL_ADD ?x w)\<rparr>))"
    "pool_free mcopools (w\<lparr>mcopools := q\<rparr>)" "pool_at (w\<lparr>mcopools := q\<rparr>) = (pool_at w)
       (tid := (pool_at w tid)\<lparr>fdMcos := (fdMcos (pool_at w tid))(fd \<mapsto> c)\<rparr>)"
    using hook_wait_first [OF cor free, of env S] by auto
  have "mcopools v = q"
    by (simp add: v(2) put_entry_def ev_share_def put_ev_def)
  then have "pool_free mcopools v" "mp_cur (pool_at v tid) = Some c" "fdMcos (pool_at v tid) fd = Some c"
    using v(3,4) cor pool_at_cong [of v "w\<lparr>mcopools := q\<rparr>"] by (simp_all add: in_coroutine_def)
  then show thesis
    using cor by (intro that [OF v(1)]) (simp_all add: v(2) put_entry_def ev_share_def put_ev_def
        upd_loop_def loop_ready_def loop_mutex_def in_coroutine_def)
qed

text \<open>An occurrence on a descriptor continues the coroutine that sleeps as its waiter.\<close>

lemma waiter_woken:
  fixes w :: "'k base" and sp' :: addr
  assumes env: "sched_env env" and inv: "sched_inv env tid (mcow w)"
    and slp: "asleep (sched_of tid (mcow w)) r = Some f" "r \<notin> set (order (sched_of tid (mcow w)))"
    and loop: "\<not> mutex_held (loop_mutex l w)" "el_events (loops w l) (ep_fd ev) = Some e" "wakeFd (loops w l) \<noteq> ep_fd ev"
    and x: "evobjs w e = Some (Events_new tid (ep_fd ev) kReadEvent)"
    and pools: "pool_free mcopools w" "fdMcos (pool_at w tid) (ep_fd ev) = Some c" "mp_cur (pool_at w tid) = Some c"
    and co: "conts w c = Some \<lparr>cont_co = r\<rparr>" "0 < contrefs w c"
  shows "\<exists>y z. handle_begin S tid l ev w = (Inr (Some c), y) \<and> resume_switch env S tid sp' c y = (Inr (), z) \<and>
      continues env tid r f (mcow z) \<and> mp_cur (pool_at z tid) = Some c"
proof -
  let ?x = "Events_new tid (ep_fd ev) kReadEvent"
  from resume_asleep_contract [OF env inv slp, of sp'] obtain m1 where
    m1: "McoResume env tid sp' r (mcow w) = (Inr (), m1)" "continues env tid r f m1" by blast
  have ex: "evobjs w a = Some ?x \<and> ev_fd ?x = ep_fd ev" if "el_events (loops w l) (ep_fd ev) = Some a" for a
    using that loop(2) x by (simp add: Events_new_def)
  have taken: "taken_up (ep_events ev) ?x"
    by (simp add: taken_up_def state_defs Events_new_def)
  obtain t where t: "handle_begin S tid l ev w = (Inr (Some c), co_share c t)"
    "only_pools (put_ev e (after_occurrence (ep_events ev) ?x) w) t" "pool_free mcopools t"
    "pool_at t tid = pool_at w tid"
    using handle_begin_run [OF loop(1) pools(1) refl refl ex, of S tid] loop pools(2) taken by auto
  have c: "conts (co_share c t) c = Some \<lparr>cont_co = r\<rparr>" "mp_cur (pool_at (co_share c t) tid) = Some c"
    "0 < contrefs (co_share c t) c" "McoResume env tid sp' r (mcow (co_share c t)) = (Inr (), m1)"
    "pool_free mcopools (co_share c t)"
    using t(2-4) pools(3) co m1(1) by (auto simp: only_pools_def put_ev_def)
  from resume_switch_run [OF c(5,1-4)] obtain p1 where
    "resume_switch env S tid sp' c (co_share c t) = (Inr (), co_share c (co_share c t\<lparr>mcopools := p1, mcow := m1\<rparr>))"
    "mp_cur (pool_at (co_share c t\<lparr>mcopools := p1, mcow := m1\<rparr>) tid) = Some c" by blast
  with t(1) m1(2) show ?thesis
    by (intro exI [of _ "co_share c t"] exI [of _ "co_share c (co_share c t\<lparr>mcopools := p1, mcow := m1\<rparr>)"]) simp
qed

lemma reachable_keeps: "sched_env env \<Longrightarrow> sched_inv env tid m \<Longrightarrow> (step env tid)\<^sup>*\<^sup>* m m' \<Longrightarrow> sched_inv env tid m'"
  by (rotate_tac 2, induction rule: rtranclp_induct) (use step_moves in blast)+


definition demo_reader :: "demo_kernel base" where
  "demo_reader = (demo_base [5 \<mapsto> 0] (Events_new 1 9 0) [5 \<mapsto> kReadEvent])
     \<lparr>mcopools := Some \<lparr>pools = [1 \<mapsto> \<lparr>mp_cur = Some 3, fdMcos = Map.empty\<rparr>], pool_mutex = Mutex_init\<rparr>,
      mcow := demo_thread True\<rparr>"

lemma demo_reader_state:
  "in_coroutine 1 0 3 demo_reader" "conts demo_reader 3 = Some \<lparr>cont_co = 8192\<rparr>"
  "fdMcos (pool_at demo_reader 1) 11 = None" "el_events (loops demo_reader 0) 11 = None"
  "wakeFd (loops demo_reader 0) \<noteq> 11" "mcow demo_reader = demo_thread True"
  "kern demo_reader = demo_kernel0\<lparr>dk_interest := [5 \<mapsto> kReadEvent]\<rparr>" "hookable demo_reader"
  by (simp_all add: demo_reader_def in_coroutine_def demo_base_def demo_loop_def Mutex_init_def
      pool_ready_def pool_lock_def loop_ready_def loop_mutex_def pool_free_def inst_mutex_def inst_def
      pool_at_def lookup_item_def)




end
