(* ===== verification/Socket.thy ===== *)
theory Socket
  imports SysapiHook
begin

text \<open>
  base/NetAddress.h, NetAddress.cpp: socket addresses; base/Socket.h, Socket.cpp: the wrapper of a
  socket descriptor. \<open>inet_pton\<close> is a parameter: the address bytes of a well-formed text. The
  calls that only sockets make extend the system calls of the event layer; \<open>::accept\<close> and
  \<open>::close\<close> are the hooked ones, which the library defines itself. Log output and the peer address that
  \<open>accept\<close> stores are not modelled.
\<close>

subsection \<open>Addresses\<close>

definition AF_INET :: "16 word" where "AF_INET = 2"
definition AF_INET6 :: "16 word" where "AF_INET6 = 10"

text \<open>\<open>htobe16\<close> on a little-endian machine.\<close>

definition htobe16 :: "16 word \<Rightarrow> 16 word" where
  "htobe16 x = push_bit 8 x OR drop_bit 8 x"

text \<open>The union of \<open>sockaddr_in\<close> and \<open>sockaddr_in6\<close>, with the fields the code writes.\<close>

datatype sockaddr =
    SockaddrIn (sin_family: "16 word") (sin_port: "16 word") (sin_addr: "8 word list")
  | SockaddrIn6 (sin6_family: "16 word") (sin6_port: "16 word") (sin6_addr: "8 word list")

record NetAddress =
  na_family :: "16 word"
  na_sock :: sockaddr
  na_ip :: string
  na_port :: int

definition NetAddress_new ::
  "(16 word \<Rightarrow> string \<Rightarrow> 8 word list option) \<Rightarrow> 16 word \<Rightarrow> int \<Rightarrow> string \<Rightarrow> NetAddress" where
  "NetAddress_new inet_pton sa_family sa_port sa_ip =
    \<lparr>na_family = sa_family,
     na_sock =
       (if sa_family = AF_INET
        then SockaddrIn sa_family (htobe16 (word_of_int sa_port))
          (case inet_pton sa_family sa_ip of Some bs \<Rightarrow> bs | None \<Rightarrow> replicate 4 0)
        else SockaddrIn6 sa_family (htobe16 (word_of_int sa_port))
          (case inet_pton sa_family sa_ip of Some bs \<Rightarrow> bs | None \<Rightarrow> replicate 16 0)),
     na_ip = sa_ip, na_port = sa_port\<rparr>"

definition addrPtr :: "NetAddress \<Rightarrow> sockaddr" where
  "addrPtr a = na_sock a"

definition addrLen :: "NetAddress \<Rightarrow> nat" where
  "addrLen a = (if na_family a = AF_INET then 16 else if na_family a = AF_INET6 then 28 else 28)"

definition getIp :: "NetAddress \<Rightarrow> string" where "getIp a = na_ip a"

definition getPort :: "NetAddress \<Rightarrow> int" where "getPort a = na_port a"

text \<open>The port as the receiver reads it: the two bytes of the field, most significant first.\<close>

definition port_bytes :: "16 word \<Rightarrow> 8 word list" where
  "port_bytes x = [ucast x, ucast (drop_bit 8 x)]"

definition wire_port :: "sockaddr \<Rightarrow> int" where
  "wire_port s = (case port_bytes (case s of SockaddrIn _ p _ \<Rightarrow> p | SockaddrIn6 _ p _ \<Rightarrow> p) of
     [hi, lo] \<Rightarrow> uint hi * 256 + uint lo | _ \<Rightarrow> 0)"

lemma swapped_bytes:
  fixes x :: "16 word"
  shows "uint (ucast (htobe16 x) :: 8 word) * 256 + uint (ucast (drop_bit 8 (htobe16 x)) :: 8 word) = uint x"
proof -
  have "(ucast (htobe16 x) :: 8 word) = ucast (drop_bit 8 x)"
    by (rule bit_word_eqI) (auto simp: htobe16_def bit_simps)
  moreover have "(ucast (drop_bit 8 (htobe16 x)) :: 8 word) = ucast x"
    by (rule bit_word_eqI) (auto simp: htobe16_def bit_simps dest: bit_imp_le_length)
  ultimately have "uint (ucast (htobe16 x) :: 8 word) * 256 + uint (ucast (drop_bit 8 (htobe16 x)) :: 8 word) =
      uint x div 256 mod 256 * 256 + uint x mod 256"
    by (simp add: unsigned_ucast_eq take_bit_eq_mod unsigned_drop_bit_eq drop_bit_eq_div uint_div)
  also have "\<dots> = uint x"
  proof -
    have "uint x < 2 ^ 16" "0 \<le> uint x"
      using uint_range_size [of x] by (simp_all add: word_size)
    then have "uint x div 256 mod 256 = uint x div 256"
      by (intro mod_pos_pos_trivial) (simp_all add: pos_imp_zdiv_nonneg_iff div_less_iff_less_mult)
    then show ?thesis
      using div_mult_mod_eq [of "uint x" 256] by simp
  qed
  finally show ?thesis .
qed

text \<open>
  The port on the wire is the given port modulo \<open>2 ^ 16\<close>, for both address families, and so it is
  the port that \<open>getPort\<close> reports exactly when that lies between 0 and 65535; the length passed
  to the system belongs to the union's member that was filled in.
\<close>

theorem port_on_the_wire:
  "wire_port (addrPtr (NetAddress_new pton family port ip)) = port mod 2 ^ 16 \<and>
   (wire_port (addrPtr (NetAddress_new pton family port ip)) = getPort (NetAddress_new pton family port ip) \<longleftrightarrow>
      port \<in> {0..65535}) \<and>
   addrLen (NetAddress_new pton family port ip) =
     (case addrPtr (NetAddress_new pton family port ip) of SockaddrIn _ _ _ \<Rightarrow> 16 | _ \<Rightarrow> 28)"
proof -
  have "wire_port (addrPtr (NetAddress_new pton family port ip)) = uint (word_of_int port :: 16 word)"
    by (simp add: wire_port_def addrPtr_def NetAddress_new_def port_bytes_def swapped_bytes)
  also have "\<dots> = port mod 2 ^ 16"
    by (simp add: uint_word_of_int)
  finally have wire: "wire_port (addrPtr (NetAddress_new pton family port ip)) = port mod 2 ^ 16" .
  moreover have "port mod 2 ^ 16 = port \<longleftrightarrow> port \<in> {0..65535}"
    using pos_mod_bound [of "2 ^ 16" port] pos_mod_sign [of "2 ^ 16" port]
    by (auto simp: mod_pos_pos_trivial)
  ultimately show ?thesis
    by (simp add: getPort_def addrLen_def NetAddress_new_def addrPtr_def)
qed

subsection \<open>Sockets\<close>

text \<open>\<open>sys_bind\<close> and \<open>sys_connect\<close> also give \<open>errno\<close>.\<close>

record 'k netsys = "'k sys" +
  sys_socket :: "int \<Rightarrow> int \<Rightarrow> int \<Rightarrow> 'k \<Rightarrow> int \<times> 'k"
  sys_bind :: "int \<Rightarrow> sockaddr \<Rightarrow> nat \<Rightarrow> 'k \<Rightarrow> int \<times> 'k"
  sys_listen :: "int \<Rightarrow> int \<Rightarrow> 'k \<Rightarrow> int \<times> 'k"
  sys_connect :: "int \<Rightarrow> sockaddr \<Rightarrow> nat \<Rightarrow> 'k \<Rightarrow> (int \<times> int) \<times> 'k"

definition FD_CLOEXEC :: "32 word" where "FD_CLOEXEC = 1"
definition EINPROGRESS :: int where "EINPROGRESS = 115"

datatype so_state = CLOSED | OPENED

record Socket =
  so_socket :: int
  so_state :: so_state

definition Socket_new :: "'k netsys \<Rightarrow> int \<Rightarrow> int \<Rightarrow> int \<Rightarrow> ('k base, Socket) comp" where
  "Socket_new S domain type protocol = bnd (on_kern (syscall (sys_socket S domain type protocol)))
     (\<lambda>fd. ret \<lparr>so_socket = fd, so_state = OPENED\<rparr>)"

definition Socket_of :: "int \<Rightarrow> Socket" where
  "Socket_of sd = \<lparr>so_socket = sd, so_state = CLOSED\<rparr>"

definition Socket_assign :: "int \<Rightarrow> Socket \<Rightarrow> int \<times> Socket" where
  "Socket_assign sd s = (sd, s\<lparr>so_socket := sd\<rparr>)"

definition getSocket :: "Socket \<Rightarrow> int" where "getSocket s = so_socket s"

definition setNoBlocking :: "('k, 'z) sys_scheme \<Rightarrow> Socket \<Rightarrow> ('k base, bool) comp" where
  "setNoBlocking S s = bnd (on_kern (syscall (sys_getfl S (so_socket s)))) (\<lambda>flag.
     bnd (on_kern (syscall (sys_setfl S (so_socket s) (flag OR O_NONBLOCK)))) (\<lambda>r.
       if r = - 1 then ret False else ret True))"

definition setExecClose :: "('k, 'z) sys_scheme \<Rightarrow> Socket \<Rightarrow> ('k base, bool) comp" where
  "setExecClose S s = bnd (on_kern (syscall (sys_getfd S (so_socket s)))) (\<lambda>flag.
     bnd (on_kern (syscall (sys_setfd S (so_socket s) (flag OR FD_CLOEXEC)))) (\<lambda>r.
       if r = - 1 then ret False else ret True))"

definition Socket_bind :: "'k netsys \<Rightarrow> Socket \<Rightarrow> NetAddress \<Rightarrow> ('k base, bool) comp" where
  "Socket_bind S s addr =
    bnd (on_kern (syscall (sys_bind S (so_socket s) (addrPtr addr) (addrLen addr)))) (\<lambda>r.
      if r = - 1 then ret False else ret True)"

definition Socket_listen :: "'k netsys \<Rightarrow> Socket \<Rightarrow> int \<Rightarrow> ('k base, bool) comp" where
  "Socket_listen S s backlog = bnd (on_kern (syscall (sys_listen S (so_socket s) backlog))) (\<lambda>r.
     if r = - 1 then ret False else ret True)"

definition Socket_connect :: "'k netsys \<Rightarrow> Socket \<Rightarrow> NetAddress \<Rightarrow> ('k base, bool) comp" where
  "Socket_connect S s addr =
    bnd (on_kern (syscall (sys_connect S (so_socket s) (addrPtr addr) (addrLen addr)))) (\<lambda>(r, errno).
      if r = - 1 then if errno = EINPROGRESS then ret True else ret False else ret True)"

text \<open>The local \<open>flag\<close> of the second call is computed and not used, \<open>nflag\<close> is passed again.\<close>

definition SetNoBlockingOrExec :: "('k, 'z) sys_scheme \<Rightarrow> int \<Rightarrow> ('k base, bool) comp" where
  "SetNoBlockingOrExec S sd = bnd (on_kern (syscall (sys_getfl S sd))) (\<lambda>flag.
     let nflag = flag OR O_NONBLOCK in
     bnd (on_kern (syscall (sys_setfl S sd nflag))) (\<lambda>r.
     bnd (on_kern (syscall (sys_getfd S sd))) (\<lambda>flag.
     let nflag = nflag OR FD_CLOEXEC in
     seq (if r = - 1 then ret r else on_kern (syscall (sys_setfd S sd nflag)))
       (if r = - 1 then ret False else ret True))))"

text \<open>The result of \<open>SetNoBlockingOrExec\<close> does not matter: both branches return the descriptor.\<close>

definition Socket_accept ::
  "env \<Rightarrow> 'k sys \<Rightarrow> ('k base, unit) comp \<Rightarrow> int \<Rightarrow> Socket \<Rightarrow> bool \<Rightarrow> ('k base, int) comp" where
  "Socket_accept env S yield tid s noblockingexec =
    bnd (accept_hook env S yield tid (so_socket s)) (\<lambda>r.
      if r = - 1 then ret r
      else if \<not> noblockingexec then ret r
      else bnd (SetNoBlockingOrExec S r) (\<lambda>ok. if ok = False then ret r else ret r))"

definition Socket_close :: "env \<Rightarrow> 'k sys \<Rightarrow> int \<Rightarrow> Socket \<Rightarrow> ('k base, unit) comp" where
  "Socket_close env S tid s = seq (close_hook env S tid (so_socket s)) (ret ())"

text \<open>The destructor does not close the descriptor.\<close>

definition Socket_delete :: "Socket \<Rightarrow> Socket" where
  "Socket_delete s = s\<lparr>so_state := CLOSED\<rparr>"

text \<open>
  fcntl(2): the status flags that a successful \<open>F_SETFL\<close> set are what \<open>F_GETFL\<close> gives, as far as
  \<open>O_NONBLOCK\<close> is concerned.
\<close>

definition setfl_takes :: "('k, 'z) sys_scheme \<Rightarrow> bool" where
  "setfl_takes S \<longleftrightarrow> (\<forall>fd v k. fst (sys_setfl S fd v k) \<noteq> - 1 \<longrightarrow>
     fst (sys_getfl S fd (snd (sys_setfl S fd v k))) AND O_NONBLOCK = v AND O_NONBLOCK)"

text \<open>
  C27. A descriptor that \<open>setNoBlocking\<close> reported to be non-blocking is never waited for: the hooked
  \<open>read\<close> and \<open>accept\<close> of it make the system call at once, whatever coroutine runs, whether or not
  somebody waits for the descriptor, and do not yield.
\<close>

theorem nonblocking_is_not_waited_for:
  assumes spec: "setfl_takes S" and set: "setNoBlocking S s w = (Inr True, v)"
  shows "read_hook env S yield tid (so_socket s) n v =
      seq (on_kern (syscall (sys_getfl S (so_socket s)))) (on_kern (syscall (sys_read S (so_socket s) n))) v \<and>
    accept_hook env S yield tid (so_socket s) v =
      seq (on_kern (syscall (sys_getfl S (so_socket s)))) (on_kern (syscall (sys_accept S (so_socket s)))) v"
proof -
  let ?flag = "fst (sys_getfl S (so_socket s) (kern w)) OR O_NONBLOCK"
  let ?k = "snd (sys_getfl S (so_socket s) (kern w))"
  have v: "fst (sys_setfl S (so_socket s) ?flag ?k) \<noteq> - 1" "kern v = snd (sys_setfl S (so_socket s) ?flag ?k)"
    using set by (auto simp: setNoBlocking_def comp_defs split: if_splits)
  have "O_NONBLOCK AND fst (sys_getfl S (so_socket s) (kern v)) = O_NONBLOCK AND ?flag"
    using spec v unfolding setfl_takes_def v(2) by (metis and.commute)
  also have "\<dots> = O_NONBLOCK"
    by (simp add: bit_eq_iff bit_simps)
  finally have nb: "O_NONBLOCK AND fst (sys_getfl S (so_socket s) (kern v)) \<noteq> 0"
    by (simp add: O_NONBLOCK_def)
  then show ?thesis
    by (simp add: read_hook_def accept_hook_def comp_defs)
qed

theorem nonblocking_is_not_waited_for_witness:
  "\<exists>v. setNoBlocking demo_sys (Socket_of 9) (demo_base Map.empty (Events_new 1 9 0) Map.empty) = (Inr True, v) \<and>
     fst (read_hook demo_env demo_sys (raise NoFuel) 1 9 64 v) = Inr 64"
proof -
  let ?w = "demo_base Map.empty (Events_new 1 9 0) Map.empty"
  have spec: "setfl_takes demo_sys"
    by (simp add: setfl_takes_def demo_sys_def)
  obtain v where v: "setNoBlocking demo_sys (Socket_of 9) ?w = (Inr True, v)"
    by (simp add: setNoBlocking_def comp_defs demo_sys_def)
  then show ?thesis
    using nonblocking_is_not_waited_for [OF spec v, of demo_env "raise NoFuel" 1 64]
    by (simp add: Socket_of_def comp_defs demo_sys_def)
qed

text \<open>
  \<open>SetNoBlockingOrExec\<close> reports the outcome of \<open>F_SETFL\<close> only: it returns true although
  \<open>F_SETFD\<close> failed, and where it calls \<open>F_SETFD\<close> it passes the status flags with \<open>FD_CLOEXEC\<close>,
  whatever descriptor flags \<open>F_GETFD\<close> gave.
\<close>

theorem SetNoBlockingOrExec_ignores_setfd:
  fixes S :: "('k, 'z) sys_scheme" and w :: "'k base" and sd :: int
  defines "fl \<equiv> sys_getfl S sd (kern w)"
  defines "r \<equiv> sys_setfl S sd (fst fl OR O_NONBLOCK) (snd fl)"
  shows "fst (SetNoBlockingOrExec S sd w) = Inr (fst r \<noteq> - 1) \<and>
    (fst r \<noteq> - 1 \<longrightarrow> snd (SetNoBlockingOrExec S sd w) = w\<lparr>kern :=
      snd (sys_setfd S sd (fst fl OR O_NONBLOCK OR FD_CLOEXEC) (snd (sys_getfd S sd (snd r))))\<rparr>)"
  by (simp add: SetNoBlockingOrExec_def comp_defs Let_def fl_def r_def or.assoc)

theorem SetNoBlockingOrExec_ignores_setfd_witness:
  "SetNoBlockingOrExec (demo_sys\<lparr>sys_setfd := \<lambda>_ _ k. (- 1, k)\<rparr>) 9
     (demo_base Map.empty (Events_new 1 9 0) Map.empty) =
   (Inr True, (demo_base Map.empty (Events_new 1 9 0) Map.empty)\<lparr>kern := demo_kernel0\<lparr>dk_interest := Map.empty,
     dk_fl := (\<lambda>_. 0)(9 := O_NONBLOCK)\<rparr>\<rparr>)"
  using SetNoBlockingOrExec_ignores_setfd [of "demo_sys\<lparr>sys_setfd := \<lambda>_ _ k. (- 1, k)\<rparr>" 9
      "demo_base Map.empty (Events_new 1 9 0) Map.empty"]
  by (simp add: demo_sys_def demo_base_def demo_kernel0_def prod_eq_iff)

end
