(* ===== verification/TcpServer.thy ===== *)
theory TcpServer
  imports Socket LoopRegistry
begin

text \<open>
  base/TcpServer.h and TcpServer.cpp: a listening socket whose accept coroutine gives each
  connection to the next event loop, with a coroutine of its own that reads until the end. The
  functions bound into coroutines are parameters (\<open>call\<close>, \<open>client e\<close> for the event \<open>e\<close>); \<open>yield\<close>
  is the yield of the hooked calls. The endless loops are run with fuel. A coroutine that is bound to
  an event holds a pointer to it, and so does the function it calls while it runs.
\<close>

record TcpServer =
  srv_loop :: "nat option"
  srv_server :: Socket
  srv_events :: nat
  srv_addr :: NetAddress
  srv_backlog :: int

definition TcpServer_new :: "env \<Rightarrow> 'k netsys \<Rightarrow> int \<Rightarrow> NetAddress \<Rightarrow> ('k base, TcpServer) comp" where
  "TcpServer_new env S tid addr =
    bnd (Socket_new S 2 1 0) (\<lambda>server.
    bnd (new_ev tid (getSocket server) kReadEvent) (\<lambda>events.
    seq (cassert (dbg env) (Socket_bind S server addr))
    (seq (cassert (dbg env) (Socket_listen S server 50))
    (ret \<lparr>srv_loop = None, srv_server = server, srv_events = events, srv_addr = addr,
       srv_backlog = 50\<rparr>))))"

definition TcpServer_start ::
  "env \<Rightarrow> 'k sys \<Rightarrow> int \<Rightarrow> CoCallback \<Rightarrow> TcpServer \<Rightarrow> ('k base, bool \<times> TcpServer) comp" where
  "TcpServer_start env S tid call srv = bnd (GetMainLoop env) (\<lambda>loop. case loop of
     None \<Rightarrow> ret (False, srv\<lparr>srv_loop := None\<rparr>)
   | Some l \<Rightarrow>
       bnd (Continuation_call env call) (\<lambda>co.
       seq (SetMcoRoutine env S tid tid (getSocket (srv_server srv)) co)
       (seq (updateEvents env S l (srv_events srv))
       (seq (cont_drop env S tid co)
       (ret (True, srv\<lparr>srv_loop := Some l\<rparr>))))))"

text \<open>One turn of the loop of \<open>accept\<close>.\<close>

definition accept_one ::
  "env \<Rightarrow> 'k sys \<Rightarrow> ('k base, unit) comp \<Rightarrow> int \<Rightarrow> (nat \<Rightarrow> CoCallback) \<Rightarrow> TcpServer \<Rightarrow> ('k base, unit) comp" where
  "accept_one env S yield tid client srv =
    bnd (accept_hook env S yield tid (getSocket (srv_server srv))) (\<lambda>fd.
      if fd > 0 then
        bnd (GetNextLoop env) (\<lambda>loop.
        bnd (new_ev tid fd kReadEvent) (\<lambda>event.
        case loop of
          None \<Rightarrow> raise NullDeref
        | Some l \<Rightarrow>
            bnd (gets (\<lambda>w. el_tid (loops w l))) (\<lambda>t.
            seq (modify (ev_share event))
            (bnd (Continuation_call env (client event)) (\<lambda>co.
            seq (SetMcoRoutine env S tid t fd co)
            (seq (upd_ev event (setTid t))
            (seq (updateEvents env S l event)
            (seq (cont_drop env S tid co) (ev_drop S event)))))))))
      else ret ())"

fun accept_turns ::
  "env \<Rightarrow> 'k sys \<Rightarrow> ('k base, unit) comp \<Rightarrow> int \<Rightarrow> (nat \<Rightarrow> CoCallback) \<Rightarrow> TcpServer \<Rightarrow> nat \<Rightarrow> ('k base, unit) comp" where
  "accept_turns env S yield tid client srv 0 = raise NoFuel"
| "accept_turns env S yield tid client srv (Suc n) =
    seq (accept_one env S yield tid client srv) (accept_turns env S yield tid client srv n)"

definition TcpServer_accept ::
  "env \<Rightarrow> 'k sys \<Rightarrow> ('k base, unit) comp \<Rightarrow> int \<Rightarrow> (nat \<Rightarrow> CoCallback) \<Rightarrow> TcpServer \<Rightarrow> nat \<Rightarrow> ('k base, unit) comp" where
  "TcpServer_accept env S yield tid client srv n = (case srv_loop srv of
     None \<Rightarrow> raise NullDeref
   | Some l \<Rightarrow> seq (assertInOwnerThread env tid l) (accept_turns env S yield tid client srv n))"

text \<open>\<open>client_call\<close>: its loop, and the call, whose parameter is one more pointer to the event.\<close>

fun client_loop ::
  "env \<Rightarrow> 'k sys \<Rightarrow> ('k base, unit) comp \<Rightarrow> int \<Rightarrow> nat \<Rightarrow> nat \<Rightarrow> ('k base, unit) comp" where
  "client_loop env S yield tid event 0 = raise NoFuel"
| "client_loop env S yield tid event (Suc n) =
    bnd (get_ev event) (\<lambda>x.
    bnd (read_hook env S yield tid (ev_fd x) 1023) (\<lambda>r.
      if r > 0 then client_loop env S yield tid event n
      else bnd (get_ev event) (\<lambda>x. seq (close_hook env S tid (ev_fd x)) (ret ()))))"

definition client_call ::
  "env \<Rightarrow> 'k sys \<Rightarrow> ('k base, unit) comp \<Rightarrow> int \<Rightarrow> nat \<Rightarrow> nat \<Rightarrow> ('k base, unit) comp" where
  "client_call env S yield tid event n =
    seq (modify (ev_share event)) (seq (client_loop env S yield tid event n) (ev_drop S event))"

definition TcpServer_delete :: "'k sys \<Rightarrow> int \<Rightarrow> TcpServer \<Rightarrow> ('k base, unit) comp" where
  "TcpServer_delete S tid srv = (case srv_loop srv of
     None \<Rightarrow> raise NullDeref
   | Some l \<Rightarrow> seq (quit S tid l) (ev_drop S (srv_events srv)))"

subsection \<open>Handing over a connection\<close>

definition next_of :: "EventLoopPool \<Rightarrow> nat option" where
  "next_of p = (if nextLoops p = [] then mainLoop p else Some (nextLoops p ! next_pos p))"

lemma GetNextLoop_run:
  assumes "pool_ready w"
  obtains n where "GetNextLoop env w = (Inr (next_of (lpool w)), w\<lparr>lpool := (lpool w)\<lparr>lp_next := n\<rparr>\<rparr>)"
proof (cases "nextLoops (lpool w) = []")
  case True
  then have "GetNextLoop env w = (Inr (next_of (lpool w)), w\<lparr>lpool := (lpool w)\<lparr>lp_next := lp_next (lpool w)\<rparr>\<rparr>)"
    using getNextLoop_main [of w] assms
    by (simp add: GetNextLoop_def lpool_Instance_def comp_defs pool_ready_def next_of_def)
  then show ?thesis by (rule that)
next
  case False
  then show ?thesis
    using getNextLoop_run [of w] assms that [of "Suc (next_pos (lpool w))"]
    by (simp add: GetNextLoop_def lpool_Instance_def comp_defs pool_ready_def next_of_def)
qed

lemma next_registered:
  assumes "registry_ok w" "lpool_made w" "next_of (lpool w) = Some l"
  shows "lp_loops (lpool w) (el_tid (loops w l)) = Some l"
proof -
  note given = pool_wf_given [OF registry_free(3) [OF assms(1,2)]]
  have "mainLoop (lpool w) = Some l \<or> l \<in> set (nextLoops (lpool w))"
    using assms(3) next_pos_step(2) [of "lpool w"] by (auto simp: next_of_def split: if_splits)
  then show ?thesis
    using given(1,2) by (auto simp: thread_of_def)
qed

text \<open>The end of a hand-over: the event enters the loop and the two local pointers go.\<close>

lemma handover_registers:
  assumes "loop_ready l d" "evobjs d e = Some x" "isnew x" "el_events (loops d l) (ev_fd x) = None"
    and refs: "evrefs d e = 2" "contrefs d c = 2"
  shows "seq (updateEvents env S l e) (seq (cont_drop env S tid c) (ev_drop S e)) d =
    (Inr (), put_entry l (ev_fd x) e (d\<lparr>kern := snd (ctl_run S l CTL_ADD x d)\<rparr>)
       \<lparr>contrefs := (contrefs d)(c := 1), evrefs := (evrefs d)(e := 2)\<rparr>)"
proof -
  let ?u = "put_entry l (ev_fd x) e (d\<lparr>kern := snd (ctl_run S l CTL_ADD x d)\<rparr>)"
  have up: "updateEvents env S l e d = (Inr (fst (ctl_run S l CTL_ADD x d) \<noteq> - 1), ?u)"
    using updateEvents_add [OF assms(1,2) disjI1 [OF assms(3)] assms(4)] .
  have u: "contrefs ?u = contrefs d" "evrefs ?u = (evrefs d)(e := 3)"
    using refs(1) by (simp_all add: put_entry_def ev_share_def put_ev_def upd_loop_def fun_eq_iff)
  then have "cont_drop env S tid c ?u = (Inr (), ?u\<lparr>contrefs := (contrefs d)(c := 1)\<rparr>)"
    using refs(2) by simp
  moreover have "ev_drop S e (?u\<lparr>contrefs := (contrefs d)(c := 1)\<rparr>) =
      (Inr (), ?u\<lparr>contrefs := (contrefs d)(c := 1), evrefs := (evrefs d)(e := 2)\<rparr>)"
    using u(2) by (simp add: ev_drop_def comp_defs)
  ultimately show ?thesis
    using up by (simp add: comp_defs)
qed



text \<open>
  Built without assertions, the constructor of \<open>TcpServer\<close> neither binds nor listens: the only
  system call it makes is \<open>socket\<close>, whatever the address, and it succeeds. Built with assertions, it
  returns exactly when both calls succeed.
\<close>

theorem server_without_assertions_never_listens:
  fixes S :: "'k netsys" and w :: "'k base"
  defines "p \<equiv> sys_socket S 2 1 0 (kern w)"
  shows "(\<not> dbg env \<longrightarrow> (\<exists>v srv. TcpServer_new env S tid addr w = (Inr srv, v) \<and> kern v = snd p)) \<and>
    (dbg env \<longrightarrow> ((\<exists>v srv. TcpServer_new env S tid addr w = (Inr srv, v)) \<longleftrightarrow>
       fst (sys_bind S (fst p) (addrPtr addr) (addrLen addr) (snd p)) \<noteq> - 1 \<and>
       fst (sys_listen S (fst p) 50 (snd (sys_bind S (fst p) (addrPtr addr) (addrLen addr) (snd p)))) \<noteq> - 1))"
  by (simp add: TcpServer_new_def Socket_new_def comp_defs new_ev_run p_def Socket_bind_def
      Socket_listen_def getSocket_def)

theorem server_without_assertions_never_listens_witness:
  "\<exists>v srv. TcpServer_new (demo_env\<lparr>dbg := False\<rparr>) (sys.extend demo_sys \<lparr>sys_socket = \<lambda>_ _ _ k. (7, k),
       sys_bind = \<lambda>_ _ _ k. (- 1, k), sys_listen = \<lambda>_ _ k. (- 1, k), sys_connect = \<lambda>_ _ _ k. ((0, 0), k)\<rparr>) 1
     (NetAddress_new (\<lambda>_ _. None) 2 8899 ''127.0.0.1'') (demo_base Map.empty (Events_new 1 9 0) Map.empty) =
     (Inr srv, v)"
  using server_without_assertions_never_listens [of "demo_env\<lparr>dbg := False\<rparr>" "sys.extend demo_sys \<lparr>sys_socket = \<lambda>_ _ _ k. (7, k),
       sys_bind = \<lambda>_ _ _ k. (- 1, k), sys_listen = \<lambda>_ _ k. (- 1, k), sys_connect = \<lambda>_ _ _ k. ((0, 0), k)\<rparr>" 1
     "NetAddress_new (\<lambda>_ _. None) 2 8899 ''127.0.0.1''" "demo_base Map.empty (Events_new 1 9 0) Map.empty"]
  by auto

end

