(* ===== verification/Owners.thy ===== *)
theory Owners
  imports LoopScheduling TcpServer
begin

text \<open>
  Who owns a coroutine. The owners of a \<open>Continuation\<close> are the pools, each thread's current pointer
  and its entries, and the local pointers of the functions that run or sleep. \<open>owned M\<close> says that
  the counts are exact, where \<open>M\<close> counts the local pointers; the judgement \<open>owns\<close> says what an
  operation does to them, and has a rule for every operation of the pools and for the ways the
  code composes them.
\<close>

subsection \<open>The invariant\<close>

datatype slot = Current | Waiter int

definition pointer_at :: "'k base \<Rightarrow> int \<times> slot \<Rightarrow> nat option" where
  "pointer_at w p = (case snd p of Current \<Rightarrow> mp_cur (pool_at w (fst p))
     | Waiter fd \<Rightarrow> fdMcos (pool_at w (fst p)) fd)"

definition pointers :: "'k base \<Rightarrow> nat \<Rightarrow> (int \<times> slot) set" where
  "pointers w c = {p. pointer_at w p = Some c}"

definition owned :: "(nat \<Rightarrow> nat) \<Rightarrow> 'k base \<Rightarrow> bool" where
  "owned M w \<longleftrightarrow> pool_free mcopools w \<and>
     (\<forall>c. finite (pointers w c) \<and> contrefs w c = card (pointers w c) + M c \<and>
       (conts w c = None \<longleftrightarrow> contrefs w c = 0)) \<and>
     (\<forall>c. contnext w \<le> c \<longrightarrow> conts w c = None)"

lemma ownedD:
  assumes "owned M w"
  shows "pool_free mcopools w" "finite (pointers w c)" "contrefs w c = card (pointers w c) + M c"
    "conts w c = None \<longleftrightarrow> contrefs w c = 0" "contnext w \<le> c \<Longrightarrow> conts w c = None"
  using assms by (auto simp: owned_def)

lemma owned_alive:
  assumes "owned M w"
  shows "0 < M c \<Longrightarrow> conts w c \<noteq> None" "pointer_at w p = Some c \<Longrightarrow> conts w c \<noteq> None"
proof -
  note d = ownedD(2-4) [OF assms, of c]
  show "0 < M c \<Longrightarrow> conts w c \<noteq> None"
    using d by simp
  assume "pointer_at w p = Some c"
  then have "p \<in> pointers w c"
    by (simp add: pointers_def)
  then show "conts w c \<noteq> None"
    using d by (auto simp: card_gt_0_iff)
qed

lemma pointers_cong: "pool_at v = pool_at w \<Longrightarrow> pointers v c = pointers w c"
  unfolding pointers_def pointer_at_def by (simp only:)

text \<open>What the pools' pointers and their counts live in, and operations that do not touch it.\<close>

definition pool_part :: "'k base \<Rightarrow> McoPool PoolInThreads option \<times> (nat \<Rightarrow> nat) \<times> (nat \<rightharpoonup> Continuation) \<times> nat" where
  "pool_part w = (mcopools w, contrefs w, conts w, contnext w)"

lemma owned_cong: "pool_part v = pool_part w \<Longrightarrow> owned M v = owned M w"
proof -
  assume p: "pool_part v = pool_part w"
  then have "pool_at v = pool_at w" "pool_free mcopools v = pool_free mcopools w"
    using pool_at_cong [of v w] by (auto simp: pool_part_def)
  then show ?thesis
    using p pointers_cong [of v w] by (simp add: owned_def pool_part_def)
qed

definition frame :: "('k base, 'a) comp \<Rightarrow> bool" where
  "frame m \<longleftrightarrow> (\<forall>p. keeps m (\<lambda>w. pool_part w = p))"

lemma frame_iff: "frame m \<longleftrightarrow> (\<forall>w. pool_part (snd (m w)) = pool_part w)"
proof
  assume "frame m"
  then show "\<forall>w. pool_part (snd (m w)) = pool_part w"
    unfolding frame_def keeps_def by (metis surjective_pairing)
next
  assume "\<forall>w. pool_part (snd (m w)) = pool_part w"
  then show "frame m"
    unfolding frame_def keeps_def by (metis snd_conv)
qed

lemma frameD: "frame m \<Longrightarrow> m w = (r, v) \<Longrightarrow> pool_part v = pool_part w"
  unfolding frame_iff by (metis snd_conv)

named_theorems framed

lemma frame_basic [framed]:
  "frame (ret x)" "frame (raise e)" "frame (gets f)" "frame (deref e g)"
  "frame (on_kern m)" "frame (on_mco n)"
  by (auto simp: frame_iff pool_part_def split: option.splits)

lemma frame_modify: "(\<And>w. pool_part (f w) = pool_part w) \<Longrightarrow> frame (modify f)"
  by (simp add: frame_iff)

lemma frame_bnd [framed]: "frame m \<Longrightarrow> (\<And>x. frame (g x)) \<Longrightarrow> frame (bnd m g)"
  by (simp add: frame_def keeps_bnd)

lemma frame_seq [framed]: "frame m \<Longrightarrow> frame n \<Longrightarrow> frame (seq m n)"
  by (simp add: frame_def keeps_seq)

lemma frame_if [framed]: "frame m \<Longrightarrow> frame n \<Longrightarrow> frame (if b then m else n)"
  by simp

lemma frame_option [framed]: "frame m \<Longrightarrow> (\<And>x. frame (g x)) \<Longrightarrow> frame (case z of None \<Rightarrow> m | Some x \<Rightarrow> g x)"
  by (cases z) simp_all

lemma frame_cassert [framed]: "frame c \<Longrightarrow> frame (cassert b c)"
  by (simp add: frame_def keeps_cassert)

lemma frame_locker:
  assumes body: "frame body" and put: "\<And>m w. pool_part (put m w) = pool_part w"
  shows "frame (MutexLocker get put body)"
proof -
  have "frame (Mutex_lock get put)"
    unfolding Mutex_lock_def by (intro framed frame_modify put)
  moreover have "frame (\<lambda>s. case body s of (r, s') \<Rightarrow> (r, snd (Mutex_unlock get put s')))"
    using body put by (simp add: frame_iff Mutex_unlock_def bnd_def split: prod.splits) (metis snd_conv)
  ultimately show ?thesis
    unfolding MutexLocker_def by (rule frame_seq)
qed

lemma pool_part_updates [simp]:
  "pool_part (put_ev e x w) = pool_part w" "pool_part (ev_share e w) = pool_part w"
  "pool_part (upd_loop l f w) = pool_part w" "pool_part (put_entry l fd e w) = pool_part w"
  "pool_part (set_loop_mutex l m w) = pool_part w" "pool_part (set_pool_lock m w) = pool_part w"
  by (simp_all add: pool_part_def put_ev_def ev_share_def upd_loop_def put_entry_def set_loop_mutex_def
      set_pool_lock_def)

lemma frame_events [framed]:
  "frame (get_ev e)" "frame (upd_ev e f)" "frame (new_ev tid fd m)" "frame (ev_drop S e)"
  "frame (modify (ev_share e))"
  unfolding get_ev_def upd_ev_def new_ev_def ev_drop_def
  by (intro framed frame_modify; simp add: pool_part_def put_ev_def ev_share_def)+

lemma frame_drop_events [framed]: "frame (drop_events S es)"
proof (induction es)
  case Nil
  then show ?case by (simp only: drop_events.simps frame_basic)
next
  case (Cons e es)
  then show ?case unfolding drop_events.simps by (intro framed)
qed

lemma frame_registry [framed]:
  "frame (GetLoop env tid)" "frame (GetNextLoop env)" "frame (GetMainLoop env)"
  unfolding GetLoop_def GetNextLoop_def GetMainLoop_def lpool_Instance_def getLoop_def getNextLoop_def
    getMainLoop_def nothrow_new_def Let_def
  by (intro framed frame_locker frame_modify; simp add: pool_part_def set_pool_lock_def)+

lemma frame_updateEvents [framed]: "frame (updateEvents env S l e)"
  unfolding updateEvents_def wakeupLoop_def pollUpdate_def set_entry_def erase_entry_def get_poll_def
  by (intro framed frame_locker frame_modify; simp)

lemma frame_eventops [framed]:
  "frame (UpdateLoopEvents env S e)" "frame (RemoveEventFromLoop env S e)" "frame (GetEvents env tid fd)"
  unfolding UpdateLoopEvents_def RemoveEventFromLoop_def GetEvents_def getEvents_def
  by (intro framed frame_locker frame_modify; simp)+

lemma frame_hook_done [framed]: "frame (hook_done env S e)"
  unfolding hook_done_def by (intro framed)

subsection \<open>The pools' operations\<close>

lemma inc_commute: "inc m (\<lambda>c. M c + others c) = (\<lambda>c. inc m M c + others c)"
  by (simp add: inc_def fun_eq_iff)

lemma inc_None [simp]: "inc None M = M"
  by (simp add: inc_def fun_eq_iff)

lemma inc_pos [simp]: "0 < inc (Some c) M c"
  by (simp add: inc_def)

text \<open>A copy made of an owned pointer.\<close>

lemma owned_copy:
  assumes own: "owned M w" and alive: "\<And>c. m = Some c \<Longrightarrow> conts w c \<noteq> None"
    and v: "mcopools v = q" "pool_free mcopools (w\<lparr>mcopools := q\<rparr>)" "pool_at (w\<lparr>mcopools := q\<rparr>) = pool_at w"
      "contrefs v = inc m (contrefs w)" "conts v = conts w" "contnext v = contnext w"
  shows "owned (inc m M) v"
proof -
  have "pool_at v = pool_at w" "pool_free mcopools v"
    using v(1-3) pool_at_cong [of v "w\<lparr>mcopools := q\<rparr>"] by (auto simp: fun_eq_iff)
  moreover have "contrefs v c = card (pointers w c) + inc m M c \<and> (conts v c = None \<longleftrightarrow> contrefs v c = 0)" for c
    using ownedD(3,4) [OF own, of c] alive [of c] v(4,5) by (auto simp: inc_def)
  moreover have "finite (pointers w c)" "contnext w \<le> c \<Longrightarrow> conts w c = None" for c
    using ownedD(2,5) [OF own] by blast+
  ultimately show ?thesis
    using pointers_cong [of v w] v(5,6) by (simp add: owned_def)
qed

lemma owned_share:
  assumes "owned M w" "0 < M c"
  shows "owned (inc (Some c) M) (co_share c w)"
proof -
  have "contrefs (co_share c w) = inc (Some c) (contrefs w)"
    by (simp add: inc_def fun_eq_iff)
  then show ?thesis
    using owned_copy [OF assms(1), of "Some c" "co_share c w" "mcopools w"] owned_alive(1) [OF assms]
      ownedD(1) [OF assms(1)] by (simp del: co_share_fields(13))
qed

lemma owned_GetCurMco:
  assumes own: "owned M w" and run: "GetCurMco tid w = (Inr m, v)"
  shows "owned (inc m M) v"
proof -
  obtain q where q: "GetCurMco tid w = (Inr (mp_cur (pool_at w tid)), own (mp_cur (pool_at w tid)) (w\<lparr>mcopools := q\<rparr>))"
    "pool_free mcopools (w\<lparr>mcopools := q\<rparr>)" "pool_at (w\<lparr>mcopools := q\<rparr>) = pool_at w"
    by (rule GetCurMco_at [OF ownedD(1) [OF own]])
  then have m: "m = mp_cur (pool_at w tid)" "v = own m (w\<lparr>mcopools := q\<rparr>)"
    using run by auto
  have "pointer_at w (tid, Current) = m"
    by (simp add: pointer_at_def m(1))
  then show ?thesis
    using owned_copy [OF own, of m v q] owned_alive(2) [OF own] q(2,3) by (auto simp: m(2) own_inc)
qed

lemma owned_GetMcoRoutine:
  assumes own: "owned M w" and run: "GetMcoRoutine tid fd w = (Inr m, v)"
  shows "owned (inc m M) v"
proof -
  obtain q where q: "GetMcoRoutine tid fd w = (Inr (fdMcos (pool_at w tid) fd), own (fdMcos (pool_at w tid) fd) (w\<lparr>mcopools := q\<rparr>))"
    "pool_free mcopools (w\<lparr>mcopools := q\<rparr>)" "pool_at (w\<lparr>mcopools := q\<rparr>) = pool_at w"
    by (rule GetMcoRoutine_at [OF ownedD(1) [OF own]])
  then have m: "m = fdMcos (pool_at w tid) fd" "v = own m (w\<lparr>mcopools := q\<rparr>)"
    using run by auto
  have "pointer_at w (tid, Waiter fd) = m"
    by (simp add: pointer_at_def m(1))
  then show ?thesis
    using owned_copy [OF own, of m v q] owned_alive(2) [OF own] q(2,3) by (auto simp: m(2) own_inc)
qed

text \<open>A pool's pointer is replaced: the old one is left in the hands of the operation.\<close>

lemma owned_replace:
  assumes own: "owned M w" and new: "\<And>c. new = Some c \<Longrightarrow> 0 < M c"
    and v: "pool_free mcopools v" "pointer_at v = (pointer_at w)(p := new)"
      "contrefs v = inc new (contrefs w)" "conts v = conts w" "contnext v = contnext w"
  shows "owned (inc (pointer_at w p) M) v"
proof -
  let ?old = "pointer_at w p"
  have "finite (pointers v c) \<and> contrefs v c = card (pointers v c) + inc ?old M c \<and>
      (conts v c = None \<longleftrightarrow> contrefs v c = 0)" for c
  proof -
    note d = ownedD(2-4) [OF own, of c]
    have P: "pointers v c = (if new = Some c then insert p (pointers w c - {p}) else pointers w c - {p})"
      by (auto simp: pointers_def v(2))
    have p: "p \<in> pointers w c \<longleftrightarrow> ?old = Some c"
      by (simp add: pointers_def)
    have "?old = Some c \<Longrightarrow> 0 < card (pointers w c)"
      using d(1) p by (auto simp: card_gt_0_iff)
    then have "card (pointers v c) + (if ?old = Some c then 1 else 0) = card (pointers w c) + (if new = Some c then 1 else 0)"
      unfolding P using d(1) p by (auto simp: card_insert_if card_Diff_singleton_if)
    then show ?thesis
      using d P new [of c] v(3,4) by (auto simp: inc_def split: if_splits)
  qed
  then show ?thesis
    using v(1,4,5) ownedD(5) [OF own] by (simp add: owned_def)
qed

lemma owned_delete:
  assumes "Continuation_delete env S tid c w = (Inr x, v)"
  shows "mcopools v = mcopools w" "contrefs v = contrefs w" "conts v = (conts w)(c := None)" "contnext v = contnext w"
proof -
  obtain k where k: "conts w c = Some k"
    using assms by (auto simp: Continuation_delete_def get_cont_def comp_defs split: option.splits)
  let ?m = "seq (on_mco (McoFree env tid (cont_co k))) (bnd (gets (\<lambda>w. cos (mcow w) (cont_co k) = None)) (\<lambda>gone.
     if gone then drop_events S (closure_of env (cont_co k) w) else ret ()))"
  have "frame ?m"
    by (intro framed)
  moreover obtain u where "?m w = (Inr (), u)" "v = u\<lparr>conts := (conts u)(c := None)\<rparr>"
    using assms k by (auto simp: Continuation_delete_def get_cont_def comp_defs split: prod.splits sum.splits if_splits)
  ultimately show "mcopools v = mcopools w" "contrefs v = contrefs w" "conts v = (conts w)(c := None)"
    "contnext v = contnext w"
    using frameD by (fastforce simp: pool_part_def)+
qed

lemma owned_cont_drop:
  assumes own: "owned (inc (Some c) M) w" and run: "cont_drop env S tid c w = (Inr x, v)"
  shows "owned M v"
proof -
  note d = ownedD [OF own]
  have c: "contrefs w c = card (pointers w c) + Suc (M c)"
    using d(3) [of c] by (simp add: inc_def)
  let ?u = "w\<lparr>contrefs := (contrefs w)(c := contrefs w c - 1)\<rparr>"
  have v: "mcopools v = mcopools w" "contrefs v = contrefs ?u" "contnext v = contnext w"
    "conts v = (if 1 < contrefs w c then conts w else (conts w)(c := None))"
    using run owned_delete [of env S tid c ?u x v] by (auto simp: cont_drop_def comp_defs split: if_splits)
  have "finite (pointers w a) \<and> contrefs v a = card (pointers w a) + M a \<and> (conts v a = None \<longleftrightarrow> contrefs v a = 0)" for a
    using d(2-4) [of a] c v by (auto simp: inc_def split: if_splits)
  moreover have "pool_at v = pool_at w" "pool_free mcopools v"
    using pool_at_cong [OF v(1)] d(1) by (auto simp: fun_eq_iff)
  moreover have "contnext v \<le> a \<Longrightarrow> conts v a = None" for a
    using d(5) [of a] v(3,4) by simp
  ultimately show ?thesis
    using pointers_cong [of v w] by (simp add: owned_def)
qed

lemma owned_mco_drop:
  assumes "owned (inc m M) w" "mco_drop env S tid m w = (Inr x, v)"
  shows "owned M v"
  using assms owned_cont_drop [of _ M w env S tid x v] by (cases m) auto

lemma owned_SetCurMco:
  assumes own: "owned M w" and new: "\<And>c. new = Some c \<Longrightarrow> 0 < M c"
    and run: "SetCurMco env S tid new w = (Inr x, v)"
  shows "owned M v"
proof -
  obtain q where q: "SetCurMco env S tid new w = mco_drop env S tid (mp_cur (pool_at w tid)) (own new (w\<lparr>mcopools := q\<rparr>))"
    "pool_free mcopools (w\<lparr>mcopools := q\<rparr>)" "pool_at (w\<lparr>mcopools := q\<rparr>) = (pool_at w)(tid := (pool_at w tid)\<lparr>mp_cur := new\<rparr>)"
    using pool_writers_at(2) [OF ownedD(1) [OF own], of env S tid new] by blast
  let ?v = "own new (w\<lparr>mcopools := q\<rparr>)"
  have "pointer_at ?v = (pointer_at w)((tid, Current) := new)"
    using q(3) by (auto simp: pointer_at_def fun_eq_iff split: slot.splits)
  from owned_replace [OF own new _ this] have "owned (inc (mp_cur (pool_at w tid)) M) ?v"
    using q(2) by (simp add: own_inc pointer_at_def)
  then show ?thesis
    using run unfolding q(1) by (rule owned_mco_drop)
qed

lemma owned_SetMcoRoutine:
  assumes own: "owned M w" and new: "0 < M c" and run: "SetMcoRoutine env S tid t fd c w = (Inr x, v)"
  shows "owned M v"
proof -
  obtain q where q: "SetMcoRoutine env S tid t fd c w = mco_drop env S tid (fdMcos (pool_at w t) fd) (co_share c (w\<lparr>mcopools := q\<rparr>))"
    "pool_free mcopools (w\<lparr>mcopools := q\<rparr>)" "pool_at (w\<lparr>mcopools := q\<rparr>) =
      (pool_at w)(t := (pool_at w t)\<lparr>fdMcos := (fdMcos (pool_at w t))(fd \<mapsto> c)\<rparr>)"
    using pool_writers_at(1) [OF ownedD(1) [OF own], of env S tid t fd c] by blast
  let ?v = "own (Some c) (w\<lparr>mcopools := q\<rparr>)"
  have "pointer_at ?v = (pointer_at w)((t, Waiter fd) := Some c)"
    using q(3) by (auto simp: pointer_at_def fun_eq_iff split: slot.splits)
  from owned_replace [OF own _ _ this] have "owned (inc (fdMcos (pool_at w t) fd) M) ?v"
    using q(2) new by (simp add: own_inc pointer_at_def)
  then show ?thesis
    using run unfolding q(1) own_simps by (rule owned_mco_drop)
qed

lemma owned_RemoveMcoRoutine:
  assumes own: "owned M w" and run: "RemoveMcoRoutine env S tid fd w = (Inr x, v)"
  shows "owned M v"
proof -
  obtain q where q: "RemoveMcoRoutine env S tid fd w = seq (mco_drop env S tid (fdMcos (pool_at w tid) fd))
      (ret (fdMcos (pool_at w tid) fd \<noteq> None)) (w\<lparr>mcopools := q\<rparr>)"
    "pool_free mcopools (w\<lparr>mcopools := q\<rparr>)" "pool_at (w\<lparr>mcopools := q\<rparr>) =
      (pool_at w)(tid := (pool_at w tid)\<lparr>fdMcos := (fdMcos (pool_at w tid))(fd := None)\<rparr>)"
    using pool_writers_at(3) [OF ownedD(1) [OF own], of env S tid fd] by blast
  let ?v = "w\<lparr>mcopools := q\<rparr>"
  have "pointer_at ?v = (pointer_at w)((tid, Waiter fd) := None)"
    using q(3) by (auto simp: pointer_at_def fun_eq_iff split: slot.splits)
  from owned_replace [OF own _ _ this] have "owned (inc (fdMcos (pool_at w tid) fd) M) ?v"
    using q(2) by (simp add: pointer_at_def)
  moreover obtain u where "mco_drop env S tid (fdMcos (pool_at w tid) fd) ?v = (Inr (), u)" "v = u"
    using run unfolding q(1) by (auto elim!: seq_InrE)
  ultimately show ?thesis
    using owned_mco_drop by blast
qed

lemma owned_new:
  assumes own: "owned M w" and run: "new_cont co w = (Inr c, v)"
  shows "owned (inc (Some c) M) v"
proof -
  note d = ownedD [OF own]
  have c: "c = contnext w" "v = w\<lparr>conts := (conts w)(c \<mapsto> \<lparr>cont_co = co\<rparr>), contrefs := (contrefs w)(c := 1), contnext := Suc c\<rparr>"
    using run by (auto simp: new_cont_def comp_defs)
  have "card (pointers w c) = 0" "M c = 0"
    using d(3,4) [of c] d(5) [of c] c(1) by simp_all
  then have "contrefs v a = card (pointers w a) + inc (Some c) M a \<and> (conts v a = None \<longleftrightarrow> contrefs v a = 0)" for a
    using d(3,4) [of a] by (simp add: c(2) inc_def)
  moreover have "pool_at v = pool_at w" "pool_free mcopools v"
    using pool_at_cong [of v w] d(1) by (auto simp: c(2) fun_eq_iff)
  moreover have "contnext v \<le> a \<Longrightarrow> conts v a = None" for a
    using d(5) [of a] c(1) by (simp add: c(2))
  ultimately show ?thesis
    using d(2) pointers_cong [of v w] by (simp add: owned_def)
qed

subsection \<open>What an operation does to the owners\<close>

text \<open>
  \<open>owns K M m Q\<close>: run where the caller has the local pointers \<open>M\<close> and all others \<open>others\<close>, the
  operation leaves, if it returns \<open>x\<close>, the caller with \<open>Q x\<close>, and the others changed by \<open>K\<close> at
  most. \<open>K\<close> is equality for what runs without a switch; while a switch is on its way, other
  code changes its own pointers.
\<close>

definition owns ::
  "((nat \<Rightarrow> nat) \<Rightarrow> (nat \<Rightarrow> nat) \<Rightarrow> bool) \<Rightarrow> (nat \<Rightarrow> nat) \<Rightarrow> ('k base, 'a) comp \<Rightarrow> ('a \<Rightarrow> nat \<Rightarrow> nat) \<Rightarrow> bool" where
  "owns K M m Q \<longleftrightarrow> (\<forall>others w x v. owned (\<lambda>c. M c + others c) w \<longrightarrow> m w = (Inr x, v) \<longrightarrow>
     (\<exists>others'. K others others' \<and> owned (\<lambda>c. Q x c + others' c) v))"

lemma ownsI:
  "(\<And>others w x v. owned (\<lambda>c. M c + others c) w \<Longrightarrow> m w = (Inr x, v) \<Longrightarrow>
     \<exists>others'. K others others' \<and> owned (\<lambda>c. Q x c + others' c) v) \<Longrightarrow> owns K M m Q"
  by (simp add: owns_def)

lemma ownsD:
  assumes "owns K M m Q" "owned (\<lambda>c. M c + others c) w" "m w = (Inr x, v)"
  obtains others' where "K others others'" "owned (\<lambda>c. Q x c + others' c) v"
  using assms unfolding owns_def by blast

text \<open>The interface of the two switches, and the rules of the judgement.\<close>

locale switches =
  fixes K :: "(nat \<Rightarrow> nat) \<Rightarrow> (nat \<Rightarrow> nat) \<Rightarrow> bool"
    and yield :: "('k base, unit) comp" and resume :: "nat \<Rightarrow> ('k base, unit) comp"
  assumes K_refl: "reflp K" and K_trans: "transp K"
    and yield: "owns K M yield (\<lambda>_. M)"
    and resume: "0 < M c \<Longrightarrow> owns K M (resume c) (\<lambda>_. M)"
begin

lemma same:
  fixes m :: "('j base, 'a) comp"
  assumes "\<And>M w x v. owned (\<lambda>c. L c + M c) w \<Longrightarrow> m w = (Inr x, v) \<Longrightarrow> owned (\<lambda>c. Q x c + M c) v"
  shows "owns K L m Q"
  using assms K_refl unfolding owns_def reflp_def by blast

lemma ret: "owns K (Q x) (ret x) Q"
  by (rule same) simp

lemma raise: "owns K M (raise e) Q"
  by (rule same) simp

lemma frames: "frame m \<Longrightarrow> owns K M m (\<lambda>_. M)"
  by (rule same) (use frameD owned_cong in blast)

lemma then_bnd:
  assumes m: "owns K M m Q" and g: "\<And>x. owns K (Q x) (g x) R"
  shows "owns K M (bnd m g) R"
proof (rule ownsI)
  fix others w y v
  assume own: "owned (\<lambda>c. M c + others c) w" and run: "bnd m g w = (Inr y, v)"
  obtain x u where x: "m w = (Inr x, u)" "g x u = (Inr y, v)"
    using run by (rule bnd_InrE)
  from ownsD [OF m own x(1)] obtain others1 where o1: "K others others1" "owned (\<lambda>c. Q x c + others1 c) u" .
  from ownsD [OF g o1(2) x(2)] obtain others2 where "K others1 others2" "owned (\<lambda>c. R y c + others2 c) v" .
  then show "\<exists>others'. K others others' \<and> owned (\<lambda>c. R y c + others' c) v"
    using o1(1) transpD [OF K_trans] by blast
qed

lemma then_seq: "owns K M m Q \<Longrightarrow> (\<And>x. owns K (Q x) n R) \<Longrightarrow> owns K M (seq m n) R"
  unfolding seq_def by (rule then_bnd)

lemma quiet_bnd: "frame m \<Longrightarrow> (\<And>x. owns K M (g x) R) \<Longrightarrow> owns K M (bnd m g) R"
  by (rule then_bnd [OF frames])

lemma quiet_seq: "frame m \<Longrightarrow> owns K M n R \<Longrightarrow> owns K M (seq m n) R"
  by (rule then_seq [OF frames])

lemma case_mco:
  assumes "owns K M m R" "\<And>c. owns K (inc (Some c) M) (g c) R"
  shows "owns K (inc x M) (case x of None \<Rightarrow> m | Some c \<Rightarrow> g c) R"
  using assms by (cases x) simp_all

lemma case_option_owns:
  "owns K M m R \<Longrightarrow> (\<And>x. owns K M (g x) R) \<Longrightarrow> owns K M (case z of None \<Rightarrow> m | Some x \<Rightarrow> g x) R"
  by (cases z) simp_all

lemma branch: "owns K M m R \<Longrightarrow> owns K M n R \<Longrightarrow> owns K M (if b then m else n) R"
  by simp

lemma cur: "owns K M (GetCurMco tid) (\<lambda>m. inc m M)"
  by (rule same) (use owned_GetCurMco in \<open>fastforce simp: inc_commute\<close>)

lemma waiter: "owns K M (GetMcoRoutine tid fd) (\<lambda>m. inc m M)"
  by (rule same) (use owned_GetMcoRoutine in \<open>fastforce simp: inc_commute\<close>)

lemma drop: "owns K (inc (Some c) M) (cont_drop env S tid c) (\<lambda>_. M)"
  by (rule same) (use owned_cont_drop in \<open>fastforce simp: inc_commute [symmetric]\<close>)

lemma mco_drop: "owns K (inc m M) (mco_drop env S tid m) (\<lambda>_. M)"
  by (rule same) (use owned_mco_drop in \<open>fastforce simp: inc_commute [symmetric]\<close>)

lemma share: "0 < M c \<Longrightarrow> owns K M (modify (co_share c)) (\<lambda>_. inc (Some c) M)"
  by (rule same) (use owned_share [of "\<lambda>d. M d + others d" for others] in \<open>fastforce simp: inc_commute\<close>)

lemma set_cur: "(\<And>c. m = Some c \<Longrightarrow> 0 < M c) \<Longrightarrow> owns K M (SetCurMco env S tid m) (\<lambda>_. M)"
  by (rule same) (erule owned_SetCurMco [rotated 2]; fastforce)

lemma set_waiter: "0 < M c \<Longrightarrow> owns K M (SetMcoRoutine env S tid t fd c) (\<lambda>_. M)"
  by (rule same) (erule owned_SetMcoRoutine [rotated 2]; fastforce)

lemma set_own: "owns K (inc (Some c) M) (SetMcoRoutine env S tid t fd c) (\<lambda>_. inc (Some c) M)"
  by (rule set_waiter) simp

lemma remove: "owns K M (RemoveMcoRoutine env S tid fd) (\<lambda>_. M)"
  by (rule same) (erule owned_RemoveMcoRoutine)

lemma make: "owns K M (Continuation_call env call) (\<lambda>c. inc (Some c) M)"
  unfolding Continuation_call_def
  by (rule quiet_bnd [OF frame_basic(6)], rule same) (use owned_new in \<open>fastforce simp: inc_commute\<close>)

end

lemma frame_loop [framed]:
  "frame (HandleWake S fd)" "frame (poll_loop S fw l)" "frame (eventHandleAble e)"
  "frame (assertInOwnerThread env tid l)" "frame (quit S tid l)" "frame (erase_entry S l fd)"
  unfolding HandleWake_def poll_loop_def eventHandleAble_def assertInOwnerThread_def quit_def
    wakeupLoop_def get_poll_def erase_entry_def case_prod_unfold
  by (intro framed frame_locker frame_modify; simp)+

lemma frame_drop_entries [framed]: "frame (drop_entries S l fds)"
proof (induction fds)
  case Nil
  then show ?case by (simp only: drop_entries.simps frame_basic)
next
  case (Cons fd fds)
  then show ?case unfolding drop_entries.simps by (intro framed)
qed

context switches
begin

lemma hook_wait: "owns K M (hook_wait env S tid fd) (\<lambda>r. case r of None \<Rightarrow> M | Some (e, c) \<Rightarrow> inc (Some c) M)"
proof -
  let ?R = "\<lambda>r. case r of None \<Rightarrow> M | Some (e, c) \<Rightarrow> inc (Some c) M"
  have "owns K (inc (Some c) M) (cassert (dbg env) (bnd (GetCurMco tid) (\<lambda>cur.
      seq (mco_drop env S tid cur) (ret (Some c = cur))))) (\<lambda>_. inc (Some c) M)" for c
    unfolding cassert_def
    by (intro branch then_bnd [OF then_bnd [OF cur then_seq [OF mco_drop ret]]] ret raise)
  then have "owns K (inc (Some c) M) (seq (cassert (dbg env) (bnd (GetCurMco tid) (\<lambda>cur.
      seq (mco_drop env S tid cur) (ret (Some c = cur)))))
      (bnd (GetEvents env tid fd) (\<lambda>event.
       bnd (case event of Some e \<Rightarrow> ret e | None \<Rightarrow> new_ev tid fd kReadEvent) (\<lambda>e.
       seq (upd_ev e (updateEvents_of kReadEvent)) (seq (UpdateLoopEvents env S e) (ret (Some (e, c)))))))) ?R" for c
    by (intro then_seq [of _ _ "\<lambda>_. inc (Some c) M"] quiet_bnd quiet_seq framed)
      (use ret [of ?R "Some (e, c)" for e] in simp_all)
  moreover have "owns K (inc (Some c) M) (seq (SetMcoRoutine env S tid tid fd c)
      (bnd (new_ev tid fd kReadEvent) (\<lambda>e. seq (UpdateLoopEvents env S e) (ret (Some (e, c)))))) ?R" for c
    by (intro then_seq [OF set_own] quiet_bnd quiet_seq framed)
      (use ret [of ?R "Some (e, c)" for e] in simp_all)
  moreover have "owns K M (ret None) ?R"
    using ret [of ?R None] by simp
  ultimately show ?thesis
    unfolding hook_wait_def by (intro then_bnd [OF waiter] then_bnd [OF cur] case_mco)
qed

lemma hooked_call:
  assumes "frame call" "frame after"
  shows "owns K M (bnd (hook_wait env S tid fd) (\<lambda>event. case event of None \<Rightarrow> after
      | Some (e, c) \<Rightarrow> seq yield (seq (hook_done env S e) (bnd call (\<lambda>r. seq (cont_drop env S tid c) (ret r))))))
    (\<lambda>_. M)"
proof (rule then_bnd [OF hook_wait])
  fix r
  show "owns K (case r of None \<Rightarrow> M | Some (e, c) \<Rightarrow> inc (Some c) M) (case r of None \<Rightarrow> after
      | Some (e, c) \<Rightarrow> seq yield (seq (hook_done env S e) (bnd call (\<lambda>r. seq (cont_drop env S tid c) (ret r))))) (\<lambda>_. M)"
  proof (cases r)
    case None
    then show ?thesis using frames [OF assms(2)] by simp
  next
    case (Some ec)
    have "owns K (inc (Some c) M) (seq yield (seq (hook_done env S e) (bnd call (\<lambda>r. seq (cont_drop env S tid c) (ret r)))))
        (\<lambda>_. M)" for e c
      by (intro then_seq [OF yield] quiet_seq [OF frame_hook_done] quiet_bnd [OF assms(1)] then_seq [OF drop] ret)
    then show ?thesis using Some by (cases ec) simp
  qed
qed

lemma read: "owns K M (read_hook env S yield tid fd n) (\<lambda>_. M)"
  unfolding read_hook_def
  by (intro quiet_bnd [OF frame_basic(5)] quiet_bnd [OF frame_basic(3)] branch frames [OF frame_basic(5)]
      hooked_call frame_basic)

lemma accept: "owns K M (accept_hook env S yield tid fd) (\<lambda>_. M)"
  unfolding accept_hook_def
  by (intro quiet_bnd [OF frame_basic(5)] quiet_bnd [OF frame_basic(3)] branch frames [OF frame_basic(5)]
      hooked_call framed)

lemma close: "owns K M (close_hook env S tid fd) (\<lambda>_. M)"
proof -
  have clear: "owns K M (if b then SetCurMco env S tid None else ret ()) (\<lambda>_. M)" for b and M :: "nat \<Rightarrow> nat"
    by (intro branch set_cur ret) simp
  show ?thesis
    unfolding close_hook_def
    by (intro quiet_bnd [OF frame_basic(3)] branch frames [OF frame_basic(5)] then_bnd [OF cur]
        then_bnd [OF waiter] then_seq [OF clear] then_seq [OF remove] quiet_bnd then_seq [OF mco_drop] ret framed)
qed

lemma handle_begin: "owns K M (handle_begin S tid l ev) (\<lambda>m. inc m M)"
proof -
  have none: "owns K M (ret None) (\<lambda>m. inc m M)"
    using ret [of "\<lambda>m. inc m M" None] by simp
  have lock: "frame (MutexLocker (loop_mutex l) (set_loop_mutex l) (gets (\<lambda>w. el_events (loops w l) (ep_fd ev))))"
    by (intro framed frame_locker) simp
  show ?thesis
    unfolding handle_begin_def
    by (intro quiet_bnd [OF lock] case_option_owns none quiet_seq quiet_bnd branch waiter framed)
qed

lemma handle_one: "owns K M (handle_one env S resume tid l ev) (\<lambda>_. M)"
  unfolding handle_one_def
  by (intro then_bnd [OF handle_begin] case_mco ret then_seq [OF _ drop] resume) simp

lemma handle_all: "owns K M (handle_all env S resume tid l evs) (\<lambda>_. M)"
proof (induction evs)
  case Nil
  then show ?case unfolding handle_all.simps by (rule ret)
next
  case (Cons ev evs)
  then show ?case unfolding handle_all.simps by (intro then_seq [OF handle_one])
qed

lemma loop_rounds: "owns K M (loop_rounds env S resume tid l fw n) (\<lambda>_. M)"
proof (induction n)
  case 0
  then show ?case unfolding loop_rounds.simps by (rule raise)
next
  case (Suc n)
  then show ?case unfolding loop_rounds.simps
    by (intro quiet_bnd [OF frame_basic(3)] branch ret quiet_bnd [OF frame_loop(2)] then_seq [OF handle_all])
qed

lemma event_loop: "owns K M (EventLoop_loop env S resume tid l fw n) (\<lambda>_. M)"
  unfolding EventLoop_loop_def by (intro quiet_seq [OF frame_loop(4)] loop_rounds)

lemma mcosops_resume: "0 < M c \<Longrightarrow> owns K M (Mcosops_Resume env S resume tid c) (\<lambda>_. M)"
proof -
  assume c: "0 < M c"
  have pos: "0 < inc (Some c) M d" if "Some c = Some d" for d
    using that by simp
  show ?thesis
    unfolding Mcosops_Resume_def resume_begin_def
    by (intro then_seq [OF then_seq [OF share [of M c, OF c] set_cur]] then_seq [OF resume drop] pos inc_pos)
qed

lemma mcosops_yield:
  "(\<And>M c. owns K M (switch c) (\<lambda>_. M)) \<Longrightarrow> owns K M (Mcosops_Yield env S switch tid) (\<lambda>_. M)"
  unfolding Mcosops_Yield_def by (intro then_bnd [OF cur] case_mco ret then_seq [OF _ drop])

lemma accept_one: "owns K M (accept_one env S yield tid client srv) (\<lambda>_. M)"
  unfolding accept_one_def
  by (intro then_bnd [OF accept] branch ret quiet_bnd [OF frame_registry(2)] quiet_bnd [OF frame_events(3)]
      case_option_owns raise quiet_bnd [OF frame_basic(3)] quiet_seq [OF frame_events(5)] then_bnd [OF make]
      then_seq [OF set_own] quiet_seq [OF frame_events(2)] quiet_seq [OF frame_updateEvents]
      then_seq [OF drop] frames [OF frame_events(4)])

lemma accept_turns: "owns K M (accept_turns env S yield tid client srv n) (\<lambda>_. M)"
proof (induction n)
  case 0
  then show ?case unfolding accept_turns.simps by (rule raise)
next
  case (Suc n)
  then show ?case unfolding accept_turns.simps by (intro then_seq [OF accept_one])
qed

lemma server: "owns K M (TcpServer_accept env S yield tid client srv n) (\<lambda>_. M)"
  unfolding TcpServer_accept_def
  by (intro case_option_owns raise quiet_seq [OF frame_loop(4)] accept_turns)

lemma server_start: "owns K M (TcpServer_start env S tid call srv) (\<lambda>_. M)"
  unfolding TcpServer_start_def
  by (intro quiet_bnd [OF frame_registry(3)] case_option_owns ret then_bnd [OF make] then_seq [OF set_own]
      quiet_seq [OF frame_updateEvents] then_seq [OF drop])

lemma client_loop: "owns K M (client_loop env S yield tid e n) (\<lambda>_. M)"
proof (induction n)
  case 0
  then show ?case unfolding client_loop.simps by (rule raise)
next
  case (Suc n)
  then show ?case unfolding client_loop.simps
    by (intro quiet_bnd [OF frame_events(1)] then_bnd [OF read] branch then_seq [OF close] ret)
qed

lemma client: "owns K M (client_call env S yield tid e n) (\<lambda>_. M)"
  unfolding client_call_def
  by (intro quiet_seq [OF frame_events(5)] then_seq [OF client_loop] frames [OF frame_events(4)])

lemma closing: "owns K M (seq (close_hook env S tid fd) (ret ())) (\<lambda>_. M)"
  by (intro then_seq [OF close] ret)

lemma loop_delete: "owns K M (EventLoop_delete env S tid l fds) (\<lambda>_. M)"
proof -
  have poll: "owns K M (case p of None \<Rightarrow> ret () | Some p \<Rightarrow> Epoll_delete env S tid p) (\<lambda>_. M)" for p
    unfolding Epoll_delete_def by (intro case_option_owns closing ret)
  show ?thesis
    unfolding EventLoop_delete_def
    by (intro quiet_bnd [OF frame_basic(3)] then_seq [OF poll] quiet_seq frames framed)
qed

end

subsection \<open>The switches of the machine\<close>

text \<open>
  The switches themselves do not touch the pools, so \<open>Yield\<close> and \<open>Resume\<close> are switches in the sense of
  the interface, and leave the other pointers alone.
\<close>

lemma frame_switch [framed]:
  "frame (Continuation_yield env tid sp c)" "frame (Continuation_resume env tid sp c)"
  unfolding Continuation_yield_def Continuation_resume_def get_cont_def by (intro framed)+

lemma owns_frame: "frame m \<Longrightarrow> owns (=) M m (\<lambda>_. M)"
  unfolding owns_def using frameD owned_cong by blast

interpretation machine: switches "(=)" "Mcosops_Yield env S (Continuation_yield env tid sp) tid"
    "Mcosops_Resume env S (Continuation_resume env tid sp) tid" for env S tid sp
proof -
  have bare: "switches (=) (ret ()) (Continuation_resume env tid sp)"
    by (rule switches.intro) (simp_all add: reflp_def transp_def owns_frame frame_switch frame_basic)
  show "switches (=) (Mcosops_Yield env S (Continuation_yield env tid sp) tid)
      (Mcosops_Resume env S (Continuation_resume env tid sp) tid)"
    by (rule switches.intro) (simp_all add: reflp_def transp_def switches.mcosops_resume [OF bare]
        switches.mcosops_yield [OF bare] owns_frame frame_switch)
qed

end
