(* ===== verification/McoBody.thy ===== *)
theory McoBody
  imports McoRoutine
begin

text \<open>
  What no switch changes about a coroutine: that it exists, its stack manager, its function object,
  and that it has a context. \<open>kin w0\<close> holds of the states in which every coroutine of \<open>w0\<close> still
  has these.
\<close>

definition same_body :: "McoRoutine \<Rightarrow> McoRoutine \<Rightarrow> bool" where
  "same_body c c' \<longleftrightarrow> stackMgr c' = stackMgr c \<and>
     (\<forall>x. coctx c = Some x \<longrightarrow> (\<exists>x'. coctx c' = Some x' \<and> corun x' = corun x \<and>
       (\<forall>m. ctx x = Ctx m \<longrightarrow> (\<exists>m'. ctx x' = Ctx m'))))"

definition kin :: "world \<Rightarrow> world \<Rightarrow> bool" where
  "kin w0 w \<longleftrightarrow> (\<forall>a c. cos w0 a = Some c \<longrightarrow> (\<exists>c'. cos w a = Some c' \<and> same_body c c'))"

lemma same_body_refl [simp]: "same_body c c"
  by (auto simp: same_body_def)

lemma same_body_trans: "same_body a b \<Longrightarrow> same_body b c \<Longrightarrow> same_body a c"
  unfolding same_body_def by metis

lemma kin_refl: "kin w w"
  by (simp add: kin_def)

lemma kin_cong: "cos v = cos w \<Longrightarrow> kin w0 v = kin w0 w"
  by (simp add: kin_def)

lemma keeps_upd_co:
  assumes "\<And>c. same_body c (f c)"
  shows "keeps (upd_co r f) (kin w0)"
proof (rule keepsI)
  fix w q v
  assume k: "kin w0 w" and run: "upd_co r f w = (q, v)"
  show "kin w0 v"
  proof (cases "r \<noteq> 0 \<and> cos w r \<noteq> None")
    case True
    then obtain c where "cos w r = Some c" by blast
    then have v: "v = put_co r (f c) w"
      using True run by simp
    show ?thesis
      using k \<open>cos w r = Some c\<close> assms [of c] same_body_trans unfolding kin_def v by (fastforce)
  next
    case False
    then have "v = w"
      using run by (auto simp: upd_co_def get_co_def comp_defs split: option.splits if_splits)
    then show ?thesis using k by simp
  qed
qed

lemma same_body_put_ctx [simp]: "same_body c (put_ctx m c)"
  by (auto simp: same_body_def put_ctx_def)

lemma keeps_get [simp, intro]:
  "keeps (get_co r) (kin w0)" "keeps (get_stack r) (kin w0)" "keeps (get_ctx r) (kin w0)"
  "keeps (read_cs tid) (kin w0)"
  unfolding get_co_def get_stack_def get_ctx_def read_cs_def
  by (auto intro!: keeps_intros split: option.split ctx_ptr.split)

lemma keeps_cos: "(\<And>w. cos (f w) = cos w) \<Longrightarrow> keeps (modify f) (kin w0)"
  by (rule keeps_modify) (simp add: kin_def)

lemma keeps_locker:
  assumes body: "keeps body I" and put: "\<And>m s. I s \<Longrightarrow> I (put m s)"
  shows "keeps (MutexLocker get put body) I"
proof -
  have "keeps (Mutex_lock get put) I"
    unfolding Mutex_lock_def by (auto intro!: keeps_intros keeps_modify put)
  moreover have "keeps (\<lambda>s. case body s of (r, s') \<Rightarrow> (r, snd (Mutex_unlock get put s'))) I"
    using body put by (auto simp: keeps_def Mutex_unlock_def bnd_def split: prod.splits)
  ultimately show ?thesis
    unfolding MutexLocker_def by (rule keeps_seq)
qed

lemma keeps_Item:
  assumes mk: "keeps mk I" and put: "\<And>p s. I s \<Longrightarrow> I (pput p s)"
  shows "keeps (Item pget pput mk tid) I"
  unfolding Item_def Instance_def getT_def
  by (auto intro!: keeps_intros keeps_locker keeps_modify mk put
      simp: set_inst_mutex_def set_item_def split: option.split)

lemma keeps_new_block: "keeps (new_block env) (kin w0)"
  unfolding new_block_def by (auto intro!: keeps_intros keeps_cos split: option.split)

lemma keeps_pools [simp, intro]:
  "keeps (GetMcoCallStack env tid) (kin w0)" "keeps (GetMcoStackMgr env tid) (kin w0)"
proof -
  have "keeps (McoStackManager_new env) (kin w0)"
    unfolding McoStackManager_new_def McoStackManager_make_def
    by (rule keeps_seq [OF keeps_new_block], rule keepsI)
      (use keeps_new_block keepsD in \<open>fastforce split: sum.splits prod.splits\<close>)
  moreover have "keeps (McoCallStack_make env) (kin w0)"
    unfolding McoCallStack_make_def by (auto intro!: keeps_seq keeps_new_block)
  ultimately show "keeps (GetMcoCallStack env tid) (kin w0)" "keeps (GetMcoStackMgr env tid) (kin w0)"
    unfolding GetMcoCallStack_def GetMcoStackMgr_def
    by (auto intro!: keeps_Item simp: callstacks_put_def stackmgrs_put_def kin_def)
qed

lemma keeps_upd_stack: "keeps (upd_stack r f) (kin w0)"
  unfolding upd_stack_def by (auto intro!: keeps_intros keeps_upd_co simp: same_body_def)

lemma keeps_callstack [simp, intro]:
  "keeps (getCurrIndex tid) (kin w0)" "keeps (setCurrIndex tid n) (kin w0)"
  "keeps (cs_at env tid i) (kin w0)" "keeps (getCurMco env tid) (kin w0)"
  unfolding getCurrIndex_def setCurrIndex_def cs_at_def getCurMco_def map_at_def assert_size_def
  by (auto intro!: keeps_intros keeps_cos split: option.split)

lemma keeps_common [simp, intro]:
  "keeps (GetCommonOccupy env tid) (kin w0)" "keeps (SetCommonOccupy env tid r) (kin w0)"
  "keeps (StoreUsedCommonStack env r) (kin w0)" "keeps (RecoverUsedCommonStack r) (kin w0)"
  unfolding GetCommonOccupy_def SetCommonOccupy_def StoreUsedCommonStack_def RecoverUsedCommonStack_def
  by (auto intro!: keeps_intros keeps_cos keeps_upd_stack keeps_new_block split: option.split)

lemma keeps_McoSwap: "keeps (McoSwap env tid sp a b) (kin w0)"
  unfolding McoSwap_def McoSwap_out_def McoSwap_in_def switch_to_def
  by (auto intro!: keeps_intros keeps_upd_stack keeps_upd_co keeps_cos simp: same_body_def put_ctx_def)

lemma keeps_McoYield: "keeps (McoYield env tid sp r) (kin w0)"
  unfolding McoYield_def
  by (auto intro!: keeps_intros keeps_upd_co keeps_McoSwap simp: same_body_def)

lemma finish_keeps_body:
  assumes "CoroutineRun_end env tid sp r w = (q, v)" "cos w a = Some c"
  obtains c' where "cos v a = Some c'" "same_body c c'"
proof -
  have "keeps (CoroutineRun_end env tid sp r) (kin w)"
    unfolding CoroutineRun_end_def by (auto intro!: keeps_seq keeps_upd_co keeps_McoYield simp: same_body_def)
  from keepsD [OF this kin_refl assms(1)] show ?thesis
    using assms(2) that by (auto simp: kin_def)
qed

end
