(* ===== verification/Connection.thy ===== *)
theory Connection
  imports Owners McoBody
begin

text \<open>
  The life of a coroutine over all layers: its owners are counted right by everything the library
  runs, the last step of a connection releases its coroutine, and what \<open>close\<close> leaves behind.
\<close>

subsection \<open>Owners are counted\<close>


text \<open>
  A state with exact counts: the coroutine 3 waits for descriptor 9 on thread 1 and has one more
  owner, a local pointer.
\<close>

definition demo_waiting :: "demo_kernel base" where
  "demo_waiting = (demo_base [9 \<mapsto> 1] (Events_new 1 9 kReadEvent) [9 \<mapsto> kReadEvent])
     \<lparr>contrefs := (\<lambda>c. if c = 3 then 2 else 0)\<rparr>"

lemma demo_waiting_state:
  "hookable demo_waiting" "pool_free mcopools demo_waiting" "pool_ready demo_waiting"
  "lp_loops (lpool demo_waiting) 1 = Some 0" "loop_ready 0 demo_waiting"
  "el_events (loops demo_waiting 0) 9 = Some 1" "evobjs demo_waiting 1 = Some (Events_new 1 9 kReadEvent)"
  "ev_fd (Events_new 1 9 kReadEvent) = 9" "ev_tid (Events_new 1 9 kReadEvent) = 1" "0 < evrefs demo_waiting 1"
  "owned_elsewhere (mp_cur (pool_at demo_waiting 1)) (fdMcos (pool_at demo_waiting 1) 9) (contrefs demo_waiting)"
  by (simp_all add: demo_waiting_def demo_base_def demo_loop_def Mutex_init_def pool_ready_def pool_lock_def
      loop_ready_def loop_mutex_def pool_free_def inst_mutex_def inst_def Events_new_def owned_elsewhere_def
      pool_at_def lookup_item_def)

lemma demo_waiting_pointers: "pointers demo_waiting c = (if c = 3 then {(1, Waiter 9)} else {})"
proof -
  have "pool_at demo_waiting t = \<lparr>mp_cur = None, fdMcos = (if t = 1 then [9 \<mapsto> 3] else Map.empty)\<rparr>" for t
    by (simp add: pool_at_def lookup_item_def demo_waiting_def demo_base_def McoPool_new_def)
  then have "pointer_at demo_waiting (t, s) = (if t = 1 \<and> s = Waiter 9 then Some 3 else None)" for t s
    by (cases s) (simp_all add: pointer_at_def)
  then show ?thesis
    by (auto simp: pointers_def split: if_splits)
qed

lemma demo_waiting_owned: "owned (\<lambda>c. if c = 3 then 1 else 0) demo_waiting"
  unfolding owned_def demo_waiting_pointers using demo_waiting_state(2)
  by (simp add: demo_waiting_def demo_base_def)


subsection \<open>The end of a connection\<close>

lemma client_closes:
  fixes w :: "'k base" and S :: "'k sys" and fd tid :: int
  assumes dbg: "\<not> dbg env"
    and ready: "hookable w" "pool_free mcopools w" "pool_ready w" "lp_loops (lpool w) tid = Some l" "loop_ready l w"
    and ev: "el_events (loops w l) fd = Some e" "evobjs w e = Some x" "ev_fd x = fd" "ev_tid x = tid"
      "evrefs w e = 3"
    and cont: "contrefs w c = 4" "mp_cur (pool_at w tid) = Some c" "fdMcos (pool_at w tid) fd = Some c"
  shows "\<exists>u. seq (close_hook env S tid fd) (ev_drop S e) w = (Inr (), u) \<and>
    pool_at u tid = \<lparr>mp_cur = None, fdMcos = (fdMcos (pool_at w tid))(fd := None)\<rparr> \<and>
    contrefs u c = 2 \<and> conts u = conts w \<and> mcow u = mcow w \<and> kern u = snd (ctl_run S l CTL_DEL x w) \<and>
    el_events (loops u l) fd = Some e \<and> evrefs u e = 2"
proof -
  have owned: "owned_elsewhere (mp_cur (pool_at w tid)) (fdMcos (pool_at w tid) fd) (contrefs w)"
    using cont by (simp add: owned_elsewhere_def)
  have closed: "closed_refs (Some c) (Some c) (contrefs w) c = 2"
    using cont(1) by (simp add: closed_refs_def)
  obtain v where v: "close_hook env S tid fd w = (Inr 0, v)"
    "pool_at v tid = \<lparr>mp_cur = None, fdMcos = (fdMcos (pool_at w tid))(fd := None)\<rparr>"
    "contrefs v c = 2" "conts v = conts w" "mcow v = mcow w" "kern v = snd (ctl_run S l CTL_DEL x w)"
    "el_events (loops v l) fd = Some e" "evrefs v e = 3"
    using close_run [OF ready ev(1-4) _ owned, of env S] closed dbg cont ev(5) by auto
  let ?u = "v\<lparr>evrefs := (evrefs v)(e := 2)\<rparr>"
  have "seq (close_hook env S tid fd) (ev_drop S e) w = (Inr (), ?u)"
    using v(1,8) by (simp add: comp_defs ev_drop_def)
  moreover have "pool_at ?u tid = pool_at v tid"
    by (rule pool_at_cong) simp
  ultimately show ?thesis
    using v by (intro exI [of _ ?u]) simp
qed

lemma destroy_finished:
  fixes w :: "'k base"
  assumes inv: "sched_inv env tid (mcow w)" and c: "conts w c = Some \<lparr>cont_co = r\<rparr>" "contrefs w c = 1"
    and co: "cos (mcow w) r = Some x" "stackMgr x = Some tid" "r \<notin> set (order (sched_of tid (mcow w)))"
      "coctx x = Some y" "ctx y = Ctx m" "corun y = Some f" "bound env f = [e]"
    and ev: "1 < evrefs w e"
  shows "\<exists>v. cont_drop env S tid c w = (Inr (), w\<lparr>contrefs := (contrefs w)(c := 0), mcow := v,
      evrefs := (evrefs w)(e := evrefs w e - 1), conts := (conts w)(c := None)\<rparr>) \<and>
    cos v r = None \<and> sched_inv env tid v \<and> sched_of tid v = spec_free r (sched_of tid (mcow w))"
proof -
  obtain v where v: "McoFree env tid r (mcow w) = (Inr (), v)" "sched_inv env tid v" "cos v r = None"
    "sched_of tid v = spec_free r (sched_of tid (mcow w))"
    using free_contract [OF inv co(1-3)] co(4,5) by auto
  have "r \<noteq> 0"
    using co(1) inv by (auto simp: sched_inv_def sched_at_def)
  then have "closure_of env r (w\<lparr>contrefs := (contrefs w)(c := 0)\<rparr>) = [e]"
    using co by (simp add: closure_of_def CoroutineRun_call_def)
  then have "cont_drop env S tid c w = (Inr (), w\<lparr>contrefs := (contrefs w)(c := 0), mcow := v,
      evrefs := (evrefs w)(e := evrefs w e - 1), conts := (conts w)(c := None)\<rparr>)"
    using c v(1,3) ev
    by (simp add: cont_drop_def Continuation_delete_def get_cont_def comp_defs ev_drop_def)
  with v(2-4) show ?thesis
    by blast
qed

text \<open>
  C4. How a connection ends, over all layers: the coroutine \<open>r\<close> of \<open>client_call\<close>, resumed by the loop,
  closes its descriptor, its function returns, and it ends. The loop's own coroutine \<open>s\<close> continues with
  what it was asleep with, and gives up its two pointers (the parameter of \<open>Resume\<close> and the local one);
  with the last of them the continuation, the coroutine and its part of the scheduler's
  state are gone, the scheduler invariant holds, and no pool refers to any of it. But the loop's table,
  from which only a build with assertions erases, keeps the event, so the descriptor is
  never closed.
\<close>

theorem connection_ends:
  fixes w :: "'k base" and S :: "'k sys" and x :: Events and l :: nat and fd tid :: int
  defines "k \<equiv> snd (ctl_run S l CTL_DEL x w)"
  assumes env: "sched_env env" and inv: "sched_inv env tid (mcow w)"
    and ord: "order (sched_of tid (mcow w)) = xs @ [s, r]" "r \<notin> set (xs @ [s])"
    and co: "cos (mcow w) r = Some a" "stackMgr a = Some tid" "coctx a = Some y" "ctx y = Ctx m"
      "corun y = Some f" "bound env f = [e]"
    and cont: "conts w c = Some \<lparr>cont_co = r\<rparr>" "contrefs w c = 4"
      "mp_cur (pool_at w tid) = Some c" "fdMcos (pool_at w tid) fd = Some c"
    and ready: "hookable w" "pool_free mcopools w" "pool_ready w" "lp_loops (lpool w) tid = Some l" "loop_ready l w"
    and ev: "el_events (loops w l) fd = Some e" "evobjs w e = Some x" "ev_fd x = fd" "ev_tid x = tid"
      "evrefs w e = 3"
  shows "\<exists>u v z g. seq (close_hook env S tid fd) (ev_drop S e) w = (Inr (), u) \<and>
    on_mco (CoroutineRun_end env tid sp r) u = (Inr (), v) \<and>
    asleep (sched_of tid (mcow w)) s = Some g \<and> continues env tid s g (mcow v) \<and>
    seq (cont_drop env S tid c) (cont_drop env S tid c) v = (Inr (), z) \<and>
    conts z c = None \<and> cos (mcow z) r = None \<and> sched_inv env tid (mcow z) \<and>
    sched_of tid (mcow z) = spec_free r (spec_finish (sched_of tid (mcow w))) \<and>
    pool_at z tid = \<lparr>mp_cur = None, fdMcos = (fdMcos (pool_at w tid))(fd := None)\<rparr> \<and>
    kern z = k \<and> el_events (loops z l) fd = Some e \<and> evrefs z e = 1"
proof -
  have dbg: "\<not> dbg env"
    using env by (simp add: sched_env_def)
  obtain u where u: "seq (close_hook env S tid fd) (ev_drop S e) w = (Inr (), u)"
    "pool_at u tid = \<lparr>mp_cur = None, fdMcos = (fdMcos (pool_at w tid))(fd := None)\<rparr>"
    "contrefs u c = 2" "conts u = conts w" "mcow u = mcow w" "kern u = k"
    "el_events (loops u l) fd = Some e" "evrefs u e = 2"
    using client_closes [OF dbg ready ev cont(2-4)] unfolding k_def by blast
  obtain m1 g where m1: "CoroutineRun_end env tid sp r (mcow w) = (Inr (), m1)" "sched_inv env tid m1"
    "sched_of tid m1 = spec_finish (sched_of tid (mcow w))"
    "asleep (sched_of tid (mcow w)) s = Some g" "continues env tid s g m1"
    using finish_contract [OF env inv ord(1), of sp] by auto
  obtain a1 y1 n where a1: "cos m1 r = Some a1" "stackMgr a1 = Some tid" "coctx a1 = Some y1" "ctx y1 = Ctx n"
    "corun y1 = Some f"
    using finish_keeps_body [OF m1(1) co(1)] co(2-5) unfolding same_body_def by metis
  let ?v = "u\<lparr>mcow := m1\<rparr>" and ?v1 = "u\<lparr>mcow := m1, contrefs := (contrefs u)(c := 1)\<rparr>"
  have v: "on_mco (CoroutineRun_end env tid sp r) u = (Inr (), ?v)" "cont_drop env S tid c ?v = (Inr (), ?v1)"
    using m1(1) u(3,5) by simp_all
  have v1: "conts ?v1 c = Some \<lparr>cont_co = r\<rparr>" "r \<notin> set (order (sched_of tid m1))"
    using u(4) cont(1) ord m1(3) by (simp_all add: spec_finish_def butlast_append)
  obtain m2 where d: "cont_drop env S tid c ?v1 = (Inr (), ?v1\<lparr>contrefs := (contrefs ?v1)(c := 0), mcow := m2,
      evrefs := (evrefs ?v1)(e := evrefs ?v1 e - 1), conts := (conts ?v1)(c := None)\<rparr>)"
    "cos m2 r = None" "sched_inv env tid m2" "sched_of tid m2 = spec_free r (sched_of tid m1)"
    using destroy_finished [of env tid ?v1 c r a1 y1 n f e S] v1 a1 m1(2) co(6) u(8) by auto
  let ?z = "?v1\<lparr>contrefs := (contrefs ?v1)(c := 0), mcow := m2,
      evrefs := (evrefs ?v1)(e := evrefs ?v1 e - 1), conts := (conts ?v1)(c := None)\<rparr>"
  have "seq (cont_drop env S tid c) (cont_drop env S tid c) ?v = (Inr (), ?z)"
    using v(2) d(1) by (simp only: seq_apply prod.case sum.case)
  moreover have "pool_at ?z tid = \<lparr>mp_cur = None, fdMcos = (fdMcos (pool_at w tid))(fd := None)\<rparr>"
    using u(2) pool_at_cong(1) [of ?z u tid] by simp
  ultimately show ?thesis
    using u(1,6-8) v(1) m1(3-5) d(2-4)
    by (intro exI [of _ u] exI [of _ ?v] exI [of _ ?z] exI [of _ g]) simp
qed

theorem connection_ends_witness:
  "let w = (demo_base [9 \<mapsto> 1] (Events_new 1 9 kReadEvent) [9 \<mapsto> kReadEvent])
       \<lparr>mcopools := Some \<lparr>pools = [1 \<mapsto> \<lparr>mp_cur = Some 3, fdMcos = [9 \<mapsto> 3]\<rparr>], pool_mutex = Mutex_init\<rparr>,
        contrefs := (\<lambda>_. 4), evrefs := (\<lambda>_. 3), mcow := demo_thread True\<rparr> in
   \<exists>u v z. seq (close_hook demo_env demo_sys 1 9) (ev_drop demo_sys 1) w = (Inr (), u) \<and>
     on_mco (CoroutineRun_end demo_env 1 990 8192) u = (Inr (), v) \<and>
     seq (cont_drop demo_env demo_sys 1 3) (cont_drop demo_env demo_sys 1 3) v = (Inr (), z) \<and>
     cos (mcow z) 8192 = None \<and> order (sched_of 1 (mcow z)) = [4096] \<and> dk_closed (kern z) = []"
proof -
  let ?w = "(demo_base [9 \<mapsto> 1] (Events_new 1 9 kReadEvent) [9 \<mapsto> kReadEvent])
       \<lparr>mcopools := Some \<lparr>pools = [1 \<mapsto> \<lparr>mp_cur = Some 3, fdMcos = [9 \<mapsto> 3]\<rparr>], pool_mutex = Mutex_init\<rparr>,
        contrefs := (\<lambda>_. 4), evrefs := (\<lambda>_. 3), mcow := demo_thread True\<rparr>"
  let ?x = "Events_new 1 9 kReadEvent"
  note d = demo_base_def demo_loop_def Mutex_init_def
  have inv: "sched_inv demo_env 1 (mcow ?w)" "order (sched_of 1 (mcow ?w)) = [] @ [4096, 8192]"
    "8192 \<notin> set ([] @ [4096 :: addr])"
    using demo_inv [of True] demo_order [of True] by simp_all
  have co: "cos (mcow ?w) 8192 = Some (demo_co False True 4096)" "stackMgr (demo_co False True 4096) = Some 1"
    "coctx (demo_co False True 4096) = Some \<lparr>ctx = Ctx \<lparr>regs = (\<lambda>r. if r = RET then 2 else 7), ss_size = 0,
       ss_sp = 0\<rparr>, corun = Some 7\<rparr>"
    by (simp_all add: demo_thread_def demo_co_def)
  have cont: "conts ?w 3 = Some \<lparr>cont_co = 8192\<rparr>" "contrefs ?w 3 = 4" "mp_cur (pool_at ?w 1) = Some 3"
    "fdMcos (pool_at ?w 1) 9 = Some 3"
    by (simp_all add: d pool_at_def lookup_item_def)
  have r: "hookable ?w" "pool_free mcopools ?w" "pool_ready ?w" "lp_loops (lpool ?w) 1 = Some 0" "loop_ready 0 ?w"
    by (simp_all add: d pool_ready_def pool_lock_def loop_ready_def loop_mutex_def pool_free_def
        inst_mutex_def inst_def)
  have ev: "el_events (loops ?w 0) 9 = Some 1" "evobjs ?w 1 = Some ?x" "ev_fd ?x = 9" "ev_tid ?x = 1"
    "evrefs ?w 1 = 3"
    by (simp_all add: d Events_new_def)
  have ctl: "dk_closed (snd (ctl_run demo_sys 0 CTL_DEL ?x ?w)) = []"
    by (simp add: ctl_run_def d demo_sys_def demo_ctl_def demo_kernel0_def Let_def epollEvents_def
        Events_new_def)
  have b: "bound demo_env 7 = [1]"
    by (simp add: demo_env_def)
  from connection_ends [OF demo_sched_env inv co _ _ b cont r ev, where sp = 990 and S = demo_sys] ctl inv(2) show ?thesis
    by (auto simp: Let_def spec_free_def spec_finish_def)
qed

subsection \<open>Closing under a reader\<close>

lemma handle_begin_waiter:
  assumes free: "pool_free mcopools w" and run: "handle_begin S tid l occ w = (Inr (Some c), y)"
  shows "\<exists>fd. fdMcos (pool_at w tid) fd = Some c"
proof -
  have lock: "frame (MutexLocker (loop_mutex l) (set_loop_mutex l) (gets (\<lambda>w. el_events (loops w l) (ep_fd occ))))"
    by (intro framed frame_locker) simp
  obtain fd v where v: "GetMcoRoutine tid fd v = (Inr (Some c), y)" "pool_part v = pool_part w"
    using run unfolding handle_begin_def
    by (auto elim!: bnd_InrE seq_InrE simp: HandleWake_def split: option.splits if_splits
        dest!: frameD [OF lock] frameD [OF frame_events(2)] frameD [OF frame_loop(3)] frameD [OF frame_events(1)])
  have "pool_free mcopools v" "pool_at v tid = pool_at w tid"
    using v(2) free pool_at_cong [of v w] by (auto simp: pool_part_def)
  then show ?thesis
    using v(1) GetMcoRoutine_at [of v tid fd] by (metis Pair_inject sum.inject(2))
qed

text \<open>
  C38. \<open>close\<close> of a descriptor that another coroutine of the thread waits for, in a hooked call:
  the waiter is forgotten and not woken. No pool refers to the sleeping coroutine any more, so no
  occurrence on any descriptor, in any loop, makes the loop resume it; and it is never destroyed, since its
  owners are the local pointers on its own stack.
\<close>

theorem closing_strands_reader:
  fixes w :: "'k base" and S :: "'k sys" and fd tid :: int
  assumes ready: "hookable w" "pool_ready w" "lp_loops (lpool w) tid = Some l" "loop_ready l w"
    and ev: "el_events (loops w l) fd = Some e" "evobjs w e = Some x" "ev_fd x = fd" "ev_tid x = tid" "0 < evrefs w e"
    and own: "owned M w" and sleeps: "pointers w c = {(tid, Waiter fd)}" "0 < M c"
  shows "\<exists>v. close_hook env S tid fd w = (Inr 0, v) \<and> conts v c = conts w c \<and> conts v c \<noteq> None \<and>
    contrefs v c = M c \<and> mcow v = mcow w \<and> (\<forall>p. pointer_at v p \<noteq> Some c) \<and>
    (\<forall>S' t l' occ q y. handle_begin S' t l' occ v = (Inr q, y) \<longrightarrow> q \<noteq> Some c)"
proof -
  have p: "pointer_at w (tid, Waiter fd) = Some c" "pointer_at w (tid, Current) \<noteq> Some c"
    using sleeps(1) by (auto simp: pointers_def)
  then have m: "fdMcos (pool_at w tid) fd = Some c" "mp_cur (pool_at w tid) \<noteq> Some c"
    by (simp_all add: pointer_at_def)
  have n: "contrefs w c = Suc (M c)"
    using ownedD(3) [OF own, of c] sleeps(1) by simp
  have "0 < contrefs w d" if "mp_cur (pool_at w tid) = Some d" for d
    using owned_alive(2) [OF own, of "(tid, Current)" d] ownedD(4) [OF own, of d] that
    by (auto simp: pointer_at_def)
  then have other: "owned_elsewhere (mp_cur (pool_at w tid)) (fdMcos (pool_at w tid) fd) (contrefs w)"
    using m n sleeps(2) by (auto simp: owned_elsewhere_def)
  let ?P = "\<lparr>mp_cur = (if mp_cur (pool_at w tid) = fdMcos (pool_at w tid) fd then None else mp_cur (pool_at w tid)),
      fdMcos = (fdMcos (pool_at w tid))(fd := None)\<rparr>"
  obtain v where v: "close_hook env S tid fd w = (Inr 0, v)" "pool_at v = (pool_at w)(tid := ?P)"
    "contrefs v = closed_refs (mp_cur (pool_at w tid)) (fdMcos (pool_at w tid) fd) (contrefs w)"
    "conts v = conts w" "mcow v = mcow w"
    using close_run [OF ready(1) ownedD(1) [OF own] ready(2-4) ev other, of env S] by blast
  have none: "pointer_at v q \<noteq> Some c" for q
  proof
    assume q: "pointer_at v q = Some c"
    then have "pointer_at w q = Some c"
      using v(2) by (auto simp: pointer_at_def split: slot.splits if_splits)
    then have "q = (tid, Waiter fd)"
      using sleeps(1) by (auto simp: pointers_def)
    then show False
      using q v(2) by (simp add: pointer_at_def)
  qed
  have "owned (\<lambda>c. M c + 0) w"
    using own by simp
  from ownsD [OF machine.close this v(1)] have free: "pool_free mcopools v"
    using ownedD(1) by blast
  have "q \<noteq> Some c" if "handle_begin S' t l' occ v = (Inr q, y)" for S' :: "'k sys" and t l' occ q y
    using handle_begin_waiter [OF free, of S' t l' occ c y] that none [of "(t, Waiter a)" for a]
    by (auto simp: pointer_at_def)
  moreover have "contrefs v c = M c"
    using v(3) m n by (simp add: closed_refs_def)
  moreover have "conts w c \<noteq> None"
    using owned_alive(1) [OF own sleeps(2)] .
  ultimately show ?thesis
    using v(1,4,5) none by (intro exI [of _ v]) auto
qed

theorem closing_strands_reader_witness:
  "\<exists>v. close_hook demo_env demo_sys 1 9 demo_waiting = (Inr 0, v) \<and> conts v 3 \<noteq> None \<and> contrefs v 3 = 1 \<and>
     (\<forall>p. pointer_at v p \<noteq> Some 3)"
proof -
  have "pointers demo_waiting 3 = {(1, Waiter 9)}"
    by (simp add: demo_waiting_pointers)
  from closing_strands_reader [OF demo_waiting_state(1,3-10) demo_waiting_owned this, of demo_env demo_sys]
  show ?thesis
    by auto
qed

end
