(* ===== verification/ThreadPool.thy ===== *)
theory ThreadPool
  imports Epoll
begin

text \<open>
  base/Thread.h, Thread.cpp: a wrapper of one POSIX thread; base/ThreadPool.h, ThreadPool.cpp: a
  fixed number of threads that run the same function. \<open>'f\<close> is the type of function objects, \<open>None\<close>
  the empty one. \<open>pthread_create\<close> gives an error number and what it stored in \<open>threadId_\<close>.
\<close>

record 'k pthreads =
  pt_create :: "'k \<Rightarrow> (int \<times> nat) \<times> 'k"
  pt_join :: "nat option \<Rightarrow> 'k \<Rightarrow> int \<times> 'k"

text \<open>\<open>th_id\<close> is \<open>None\<close> where the constructor leaves \<open>threadId_\<close> indeterminate.\<close>

record 'f Thread =
  th_id :: "nat option"
  th_name :: string
  th_func :: "'f option"

definition Thread_new :: "'f Thread" where
  "Thread_new = \<lparr>th_id = None, th_name = [], th_func = None\<rparr>"

definition Thread_named :: "string \<Rightarrow> 'f Thread" where
  "Thread_named name = \<lparr>th_id = None, th_name = name, th_func = None\<rparr>"

definition Thread_func_named :: "'f option \<Rightarrow> string \<Rightarrow> 'f Thread" where
  "Thread_func_named f name = \<lparr>th_id = Some 0, th_name = name, th_func = f\<rparr>"

definition Thread_func :: "'f option \<Rightarrow> 'f Thread" where
  "Thread_func f = Thread_func_named f []"

definition setThreadFunc :: "'f option \<Rightarrow> 'f Thread \<Rightarrow> bool \<times> 'f Thread" where
  "setThreadFunc f t = (if th_func t \<noteq> None then (False, t) else (True, t\<lparr>th_func := f\<rparr>))"

definition Thread_join :: "'k pthreads \<Rightarrow> 'f Thread \<Rightarrow> ('k, bool) comp" where
  "Thread_join P t = bnd (syscall (pt_join P (th_id t))) (\<lambda>errno.
     if errno \<noteq> 0 then ret False else ret True)"

definition MainThread :: "int \<Rightarrow> int \<Rightarrow> bool" where
  "MainThread tid pid \<longleftrightarrow> tid = pid"

definition Thread_start :: "'k pthreads \<Rightarrow> 'f Thread \<Rightarrow> ('k, bool \<times> 'f Thread) comp" where
  "Thread_start P t = bnd (syscall (pt_create P)) (\<lambda>(errno, tid).
     if errno \<noteq> 0 then ret (False, t\<lparr>th_id := Some tid\<rparr>) else ret (True, t\<lparr>th_id := Some tid\<rparr>))"

text \<open>The new thread's function: how the user's function ends is an \<open>outcome\<close>.\<close>

datatype outcome = Finished | StdException | OtherException

definition ThreadFunc :: "('f \<Rightarrow> 's \<Rightarrow> outcome \<times> 's) \<Rightarrow> 'f Thread \<Rightarrow> 's \<Rightarrow> outcome \<times> 's" where
  "ThreadFunc call t s = (case th_func t of
     None \<Rightarrow> (Finished, s)
   | Some f \<Rightarrow> (case call f s of (r, s') \<Rightarrow>
       (case r of StdException \<Rightarrow> (Finished, s') | _ \<Rightarrow> (r, s'))))"

definition run_thread :: "('f \<Rightarrow> 's \<Rightarrow> outcome \<times> 's) \<Rightarrow> 'f Thread \<Rightarrow> 's \<Rightarrow> outcome \<times> 's" where
  "run_thread call t s = ThreadFunc call t s"

definition getName :: "'f Thread \<Rightarrow> string" where "getName t = th_name t"

definition setName :: "string \<Rightarrow> 'f Thread \<Rightarrow> 'f Thread" where "setName n t = t\<lparr>th_name := n\<rparr>"

text \<open>\<open>PthreadSpecificData::Data\<close>: a lazily created object per thread; \<open>new_T\<close> constructs one.\<close>

definition psd_Data :: "'a \<Rightarrow> int \<Rightarrow> (int \<rightharpoonup> 'a) \<Rightarrow> 'a \<times> (int \<rightharpoonup> 'a)" where
  "psd_Data new_T tid d = (case d tid of None \<Rightarrow> (new_T, d(tid \<mapsto> new_T)) | Some x \<Rightarrow> (x, d))"

definition KeyDataDestroy :: "int \<Rightarrow> (int \<rightharpoonup> 'a) \<Rightarrow> (int \<rightharpoonup> 'a)" where
  "KeyDataDestroy tid d = d(tid := None)"

subsection \<open>Pools\<close>

record 'f ThreadPool =
  curThreadNum :: int
  threadNum :: int
  tp_threads :: "'f Thread list"
  tp_name :: string
  tp_func :: "'f option"
  tp_tid :: int
  tp_started :: bool

definition ThreadPool_new ::
  "env \<Rightarrow> int \<Rightarrow> int \<Rightarrow> 'f option \<Rightarrow> string \<Rightarrow> ('k, 'f ThreadPool) comp" where
  "ThreadPool_new env tid n func name = seq (cassert (dbg env) (ret (n \<ge> 0)))
     (ret \<lparr>curThreadNum = 0, threadNum = n, tp_threads = [], tp_name = name, tp_func = func,
       tp_tid = tid, tp_started = False\<rparr>)"

definition tp_assertInOwnerThread :: "env \<Rightarrow> int \<Rightarrow> 'f ThreadPool \<Rightarrow> ('k, unit) comp" where
  "tp_assertInOwnerThread env tid p = cassert (dbg env) (ret (tid = tp_tid p))"

definition updateThreadFunc ::
  "env \<Rightarrow> int \<Rightarrow> 'f option \<Rightarrow> 'f ThreadPool \<Rightarrow> ('k, 'f ThreadPool) comp" where
  "updateThreadFunc env tid func p = seq (tp_assertInOwnerThread env tid p)
     (seq (cassert (dbg env) (ret (\<not> tp_started p))) (ret (p\<lparr>tp_func := func\<rparr>)))"

definition updateThreadNum :: "env \<Rightarrow> int \<Rightarrow> int \<Rightarrow> 'f ThreadPool \<Rightarrow> ('k, 'f ThreadPool) comp" where
  "updateThreadNum env tid n p = seq (tp_assertInOwnerThread env tid p)
     (seq (cassert (dbg env) (ret (\<not> tp_started p)))
     (seq (cassert (dbg env) (ret (n \<ge> 0))) (ret (p\<lparr>threadNum := n\<rparr>))))"

text \<open>The second loop of \<open>start\<close>: how many threads started, and the threads afterwards.\<close>

fun start_all :: "'k pthreads \<Rightarrow> 'f Thread list \<Rightarrow> ('k, nat \<times> 'f Thread list) comp" where
  "start_all P [] = ret (0, [])"
| "start_all P (t # ts) = bnd (Thread_start P t) (\<lambda>(ok, t').
     if ok then bnd (start_all P ts) (\<lambda>(count, ts'). ret (Suc count, t' # ts'))
     else ret (0, t' # ts))"

definition ThreadPool_start ::
  "env \<Rightarrow> 'k pthreads \<Rightarrow> int \<Rightarrow> 'f ThreadPool \<Rightarrow> ('k, bool \<times> 'f ThreadPool) comp" where
  "ThreadPool_start env P tid p = seq (tp_assertInOwnerThread env tid p)
     (seq (cassert (dbg env) (ret (\<not> tp_started p)))
     (bnd (start_all P (tp_threads p @ replicate (nat (threadNum p)) (Thread_func (tp_func p))))
       (\<lambda>(count, ts). ret (if int count \<noteq> threadNum p then False else True,
          p\<lparr>tp_threads := ts, tp_started := True\<rparr>))))"

fun join_all :: "'k pthreads \<Rightarrow> 'f Thread list \<Rightarrow> ('k, unit) comp" where
  "join_all P [] = ret ()"
| "join_all P (t # ts) = seq (Thread_join P t) (join_all P ts)"

definition ThreadPool_delete :: "'k pthreads \<Rightarrow> 'f ThreadPool \<Rightarrow> ('k, unit) comp" where
  "ThreadPool_delete P p = (if tp_started p then join_all P (tp_threads p) else ret ())"

text \<open>The state after \<open>i\<close> calls of \<open>pthread_create\<close>, and what the next call gives.\<close>

definition creates :: "'k pthreads \<Rightarrow> 'k \<Rightarrow> nat \<Rightarrow> 'k" where
  "creates P k i = ((\<lambda>k. snd (pt_create P k)) ^^ i) k"

definition created :: "'k pthreads \<Rightarrow> 'k \<Rightarrow> nat \<Rightarrow> int \<times> nat" where
  "created P k i = fst (pt_create P (creates P k i))"

lemma creates_Suc: "creates P (snd (pt_create P k)) i = creates P k (Suc i)"
  by (simp add: creates_def funpow_Suc_right del: funpow.simps)

lemma created_Suc: "created P (snd (pt_create P k)) i = created P k (Suc i)"
  by (simp add: created_def creates_Suc)

lemma start_all_run:
  assumes "\<forall>i < j. fst (created P k i) = 0" "j \<le> n" "j < n \<Longrightarrow> fst (created P k j) \<noteq> 0"
  shows "\<exists>ts. start_all P (replicate n t) k = (Inr (j, ts), creates P k (min (Suc j) n)) \<and>
    map th_id ts = map (\<lambda>i. Some (snd (created P k i))) [0..<min (Suc j) n] @ replicate (n - Suc j) (th_id t)"
  using assms
proof (induction n arbitrary: j k)
  case 0
  then show ?case by (simp add: creates_def)
next
  case (Suc n)
  show ?case
  proof (cases j)
    case 0
    then have "fst (fst (pt_create P k)) \<noteq> 0"
      using Suc.prems(3) by (simp add: created_def creates_def)
    then show ?thesis
      using 0 by (simp add: comp_defs Thread_start_def creates_def created_def case_prod_beta map_replicate_const)
  next
    case (Suc i)
    let ?k = "snd (pt_create P k)"
    have ok: "fst (fst (pt_create P k)) = 0"
      using Suc.prems(1) Suc by (auto simp: created_def creates_def dest: spec [of _ 0])
    obtain ts where ts: "start_all P (replicate n t) ?k = (Inr (i, ts), creates P ?k (min (Suc i) n))"
      "map th_id ts = map (\<lambda>i. Some (snd (created P ?k i))) [0..<min (Suc i) n] @ replicate (n - Suc i) (th_id t)"
      using Suc.IH [of i ?k] Suc.prems Suc by (auto simp: created_Suc)
    have "map (\<lambda>i. Some (snd (created P k i))) [0..<Suc (min (Suc i) n)] =
        Some (snd (fst (pt_create P k))) # map (\<lambda>i. Some (snd (created P ?k i))) [0..<min (Suc i) n]"
      by (simp add: map_upt_Suc created_Suc del: upt_Suc) (simp add: created_def creates_def)
    then show ?thesis
      using ok ts Suc by (simp add: comp_defs Thread_start_def creates_Suc case_prod_beta del: upt_Suc)
  qed
qed

lemma join_all_run:
  "join_all P ts k = (Inr (), fold (\<lambda>i k. snd (pt_join P i k)) (map th_id ts) k)"
  by (induction ts arbitrary: k) (simp_all add: comp_defs Thread_join_def)

text \<open>
  C29. Starting a fresh pool calls \<open>pthread_create\<close> until all its threads run or one call fails, and
  returns true exactly in the first case. The threads after a failed one were never started and
  keep the id 0; the destructor joins every thread of the list all the same.
\<close>

theorem pool_start_and_join:
  assumes fresh: "tp_threads p = []" "\<not> tp_started p" "tp_tid p = tid" and n: "threadNum p = int n"
    and ok: "\<forall>i < j. fst (created P k i) = 0" "j \<le> n" "j < n \<Longrightarrow> fst (created P k j) \<noteq> 0"
  shows "\<exists>p'. ThreadPool_start env P tid p k = (Inr (j = n, p'), creates P k (min (Suc j) n)) \<and>
    map th_id (tp_threads p') =
      map (\<lambda>i. Some (snd (created P k i))) [0..<min (Suc j) n] @ replicate (n - Suc j) (Some 0) \<and>
    (\<forall>m. ThreadPool_delete P p' m =
      (Inr (), fold (\<lambda>i m. snd (pt_join P i m)) (map th_id (tp_threads p')) m))"
proof -
  obtain ts where ts: "start_all P (replicate n (Thread_func (tp_func p))) k =
      (Inr (j, ts), creates P k (min (Suc j) n))"
    "map th_id ts = map (\<lambda>i. Some (snd (created P k i))) [0..<min (Suc j) n] @ replicate (n - Suc j) (Some 0)"
    using start_all_run [OF ok, of "Thread_func (tp_func p)"]
    by (auto simp: Thread_func_def Thread_func_named_def)
  have "ThreadPool_start env P tid p k =
      (Inr (j = n, p\<lparr>tp_threads := ts, tp_started := True\<rparr>), creates P k (min (Suc j) n))"
    using fresh n ts(1) by (simp add: ThreadPool_start_def tp_assertInOwnerThread_def comp_defs)
  then show ?thesis
    using ts(2) by (auto simp: ThreadPool_delete_def join_all_run)
qed

text \<open>The second call of \<open>pthread_create\<close> fails, of three.\<close>

theorem pool_start_and_join_witness:
  "let P = \<lparr>pt_create = \<lambda>k. ((if 0 < k then 11 else 0, 100 + k), Suc k), pt_join = \<lambda>_ k. (0, k)\<rparr>;
       p = \<lparr>curThreadNum = 0, threadNum = 3, tp_threads = [], tp_name = ''pool'', tp_func = Some (),
         tp_tid = 7, tp_started = False\<rparr>;
       env = \<lparr>dbg = True, heap_new = \<lambda>_. None, run_entry = 0, swap_ret = 0, bound = \<lambda>_. []\<rparr> in
   \<exists>p'. ThreadPool_start env P 7 p 0 = (Inr (False, p'), 2) \<and>
     map th_id (tp_threads p') = [Some 100, Some 101, Some 0]"
proof -
  let ?P = "\<lparr>pt_create = \<lambda>k. ((if 0 < k then 11 else 0, 100 + k), Suc k), pt_join = \<lambda>_ k. (0, k)\<rparr>"
  let ?p = "\<lparr>curThreadNum = 0, threadNum = 3, tp_threads = [], tp_name = ''pool'', tp_func = Some (),
         tp_tid = 7, tp_started = False\<rparr>"
  have c: "creates ?P 0 i = i" for i
    by (induction i) (simp_all add: creates_def)
  have "fst (created ?P 0 0) = 0" "fst (created ?P 0 (Suc 0)) \<noteq> 0" "snd (created ?P 0 0) = 100"
    "snd (created ?P 0 (Suc 0)) = 101"
    by (simp_all add: created_def c)
  then show ?thesis
    using pool_start_and_join [of ?p 7 3 1 ?P 0 "\<lparr>dbg = True, heap_new = \<lambda>_. None, run_entry = 0, swap_ret = 0, bound = \<lambda>_. []\<rparr>"]
    by (auto simp: c Let_def upt_rec)
qed

end
