(* ===== verification/Timestamp.thy ===== *)
theory Timestamp
  imports Fasco_Prelude "HOL-Library.Signed_Division"
begin

text \<open>
  base/Timestamp.h and Timestamp.cpp: microseconds since the epoch in a signed 64-bit integer.
  \<open>/\<close> and \<open>%\<close> of C++ truncate towards zero, which is \<open>sdiv\<close> and \<open>smod\<close>. \<open>gettimeofday\<close> and
  \<open>gmtime_r\<close> are parameters. The operations on \<open>double\<close> are in TimeDifference.
\<close>

datatype Timestamp = Timestamp (micros: "64 word")

definition kMicroSecondsPerSecond :: int where "kMicroSecondsPerSecond = 1000 * 1000"

definition Timestamp_zero :: Timestamp where "Timestamp_zero = Timestamp 0"

definition invalid :: Timestamp where "invalid = Timestamp_zero"

definition isvalid :: "Timestamp \<Rightarrow> bool" where "isvalid t \<longleftrightarrow> 0 <s micros t"

definition Timestamp_swap :: "Timestamp \<Rightarrow> Timestamp \<Rightarrow> Timestamp \<times> Timestamp" where
  "Timestamp_swap this that = (that, this)"

definition secondsSinceEpoch :: "Timestamp \<Rightarrow> int" where
  "secondsSinceEpoch t = sint (micros t) sdiv kMicroSecondsPerSecond"

definition subseconds :: "Timestamp \<Rightarrow> int" where
  "subseconds t = sint (micros t) smod kMicroSecondsPerSecond"

text \<open>\<open>tv\<close> is what \<open>gettimeofday\<close> stored: \<open>tv_sec\<close> and \<open>tv_usec\<close>.\<close>

definition now :: "64 word \<times> 64 word \<Rightarrow> Timestamp" where
  "now tv = Timestamp (fst tv * word_of_int kMicroSecondsPerSecond + snd tv)"

definition ts_less :: "Timestamp \<Rightarrow> Timestamp \<Rightarrow> bool" where
  "ts_less lhs rhs \<longleftrightarrow> micros lhs <s micros rhs"

definition ts_greater :: "Timestamp \<Rightarrow> Timestamp \<Rightarrow> bool" where
  "ts_greater lhs rhs \<longleftrightarrow> micros rhs <s micros lhs"

definition ts_equal :: "Timestamp \<Rightarrow> Timestamp \<Rightarrow> bool" where
  "ts_equal lhs rhs \<longleftrightarrow> micros lhs = micros rhs"

subsection \<open>Formatting\<close>

text \<open>The conversions of \<open>printf\<close> that the code uses: decimal digits, padded to a width.\<close>

definition digit :: "nat \<Rightarrow> char" where
  "digit d = char_of (48 + d)"

fun dec :: "nat \<Rightarrow> string" where
  "dec n = (if n < 10 then [digit n] else dec (n div 10) @ [digit (n mod 10)])"

declare dec.simps [simp del]

definition fmt_d :: "int \<Rightarrow> string" where
  "fmt_d i = (if i < 0 then CHR ''-'' # dec (nat (- i)) else dec (nat i))"

definition fmt_0d :: "nat \<Rightarrow> int \<Rightarrow> string" where
  "fmt_0d k i = (if i < 0 then CHR ''-'' # replicate (k - 1 - length (dec (nat (- i)))) CHR ''0'' @ dec (nat (- i))
     else replicate (k - length (dec (nat i))) CHR ''0'' @ dec (nat i))"

definition fmt_sd :: "nat \<Rightarrow> int \<Rightarrow> string" where
  "fmt_sd k i = replicate (k - length (fmt_d i)) CHR '' '' @ fmt_d i"

text \<open>\<open>snprintf (buf, n, \<dots>)\<close> keeps \<open>n - 1\<close> characters.\<close>

definition snprintf :: "nat \<Rightarrow> string \<Rightarrow> string" where
  "snprintf n s = take (n - 1) s"

definition toString :: "Timestamp \<Rightarrow> string" where
  "toString t = snprintf (32 - 1)
     (fmt_d (secondsSinceEpoch t) @ ''.'' @ fmt_0d 6 (subseconds t))"

record tm =
  tm_year :: int
  tm_mon :: int
  tm_mday :: int
  tm_hour :: int
  tm_min :: int
  tm_sec :: int

definition toFormattedString :: "(int \<Rightarrow> tm) \<Rightarrow> Timestamp \<Rightarrow> string" where
  "toFormattedString gmtime t = (let tm_time = gmtime (secondsSinceEpoch t) in
     snprintf 32 (fmt_sd 4 (tm_year tm_time + 1900) @ fmt_0d 2 (tm_mon tm_time + 1) @
       fmt_0d 2 (tm_mday tm_time) @ '' '' @ fmt_0d 2 (tm_hour tm_time) @ '':'' @
       fmt_0d 2 (tm_min tm_time) @ '':'' @ fmt_0d 2 (tm_sec tm_time) @ ''.'' @
       fmt_0d 6 (subseconds t)))"

subsection \<open>The order\<close>

instantiation Timestamp :: linorder
begin

definition less_Timestamp :: "Timestamp \<Rightarrow> Timestamp \<Rightarrow> bool" where
  "less_Timestamp = ts_less"

definition less_eq_Timestamp :: "Timestamp \<Rightarrow> Timestamp \<Rightarrow> bool" where
  "less_eq_Timestamp a b \<longleftrightarrow> ts_less a b \<or> ts_equal a b"

instance
proof
  fix x y z :: Timestamp
  show "(x < y) = (x \<le> y \<and> \<not> y \<le> x)"
    by (auto simp: less_Timestamp_def less_eq_Timestamp_def ts_less_def ts_equal_def word_sless_alt)
  show "x \<le> x"
    by (simp add: less_eq_Timestamp_def ts_equal_def)
  show "x \<le> y \<Longrightarrow> y \<le> z \<Longrightarrow> x \<le> z"
    by (auto simp: less_eq_Timestamp_def ts_less_def ts_equal_def word_sless_alt)
  show "x \<le> y \<Longrightarrow> y \<le> x \<Longrightarrow> x = y"
    by (cases x; cases y) (auto simp: less_eq_Timestamp_def ts_less_def ts_equal_def word_sless_alt)
  show "x \<le> y \<or> y \<le> x"
    using linorder_less_linear [of "sint (micros x)" "sint (micros y)"]
      signed_word_eqI [of "micros x" "micros y"]
    by (auto simp: less_eq_Timestamp_def ts_less_def ts_equal_def word_sless_alt)
qed

end

subsection \<open>Reading digits back\<close>

definition undigit :: "char \<Rightarrow> nat" where
  "undigit c = of_char c - 48"

definition undec :: "string \<Rightarrow> nat" where
  "undec s = foldl (\<lambda>n c. 10 * n + undigit c) 0 s"

lemma undigit_digit [simp]: "d < 10 \<Longrightarrow> undigit (digit d) = d"
  by (simp add: undigit_def digit_def)

lemma undec_snoc [simp]: "undec (s @ [c]) = 10 * undec s + undigit c"
  by (simp add: undec_def)

lemma undec_dec [simp]: "undec (dec n) = n"
proof (induction n rule: dec.induct)
  case (1 n)
  show ?case
  proof (cases "n < 10")
    case True
    then show ?thesis by (subst dec.simps) (simp add: undec_def)
  next
    case False
    then show ?thesis using 1 by (subst dec.simps) simp
  qed
qed

lemma foldl_zeros: "undec (replicate k CHR ''0'' @ s) = undec s"
proof -
  have "foldl (\<lambda>n c. 10 * n + undigit c) 0 (replicate k CHR ''0'') = 0"
    by (induction k) (simp_all add: undigit_def)
  then show ?thesis
    by (simp add: undec_def)
qed

lemma dec_digits: "set (dec n) \<subseteq> digit ` {..<10}"
proof (induction n rule: dec.induct)
  case (1 n)
  then show ?case by (subst dec.simps) auto
qed

lemma dec_other:
  assumes "(of_char c :: nat) < 48 \<or> 58 \<le> (of_char c :: nat)"
  shows "c \<notin> set (dec n)"
proof
  assume "c \<in> set (dec n)"
  then obtain d where d: "d < 10" "c = digit d"
    using dec_digits [of n] by auto
  then have "(of_char c :: nat) = 48 + d"
    by (simp add: digit_def)
  with assms d(1) show False by linarith
qed

lemma dec_nodot: "c \<in> set (dec n) \<Longrightarrow> c \<noteq> CHR ''.''"
  using dec_other [of "CHR ''.''" n] by auto

lemma dec_length: "n < 10 ^ Suc k \<Longrightarrow> length (dec n) \<le> Suc k"
proof (induction k arbitrary: n)
  case 0
  then show ?case by (subst dec.simps) simp
next
  case (Suc k)
  have "n div 10 < 10 ^ Suc k"
    using Suc.prems by (simp add: less_mult_imp_div_less)
  from Suc.IH [OF this] show ?case
    by (subst dec.simps) auto
qed

text \<open>The microseconds that a text \<open>seconds.microseconds\<close> stands for.\<close>

definition read_back :: "string \<Rightarrow> nat" where
  "read_back s = undec (takeWhile (\<lambda>c. c \<noteq> CHR ''.'') s) * 10 ^ 6 +
     undec (tl (dropWhile (\<lambda>c. c \<noteq> CHR ''.'') s))"

lemma parts_nonneg:
  assumes "0 \<le> sint (micros t)"
  shows "secondsSinceEpoch t = sint (micros t) div 10 ^ 6" "subseconds t = sint (micros t) mod 10 ^ 6"
  using assms by (simp_all add: secondsSinceEpoch_def subseconds_def kMicroSecondsPerSecond_def
      signed_divide_int_def signed_modulo_int_def sgn_if)

lemma fits:
  "length a \<le> 13 \<Longrightarrow> length b \<le> 6 \<Longrightarrow>
    snprintf (32 - 1) (a @ ''.'' @ replicate (6 - length b) c @ b) =
      a @ CHR ''.'' # replicate (6 - length b) c @ b"
  by (simp add: snprintf_def)

text \<open>
  Timestamps from the epoch on are printed without loss: the 31 characters that \<open>toString\<close> may
  write are enough for every one of them, exactly six digits follow the point, and reading the
  text gives the microseconds back.
\<close>

theorem toString_roundtrip:
  assumes "0 \<le> sint (micros t)"
  shows "int (read_back (toString t)) = sint (micros t) \<and> length (toString t) < 31 \<and>
    length (dropWhile (\<lambda>c. c \<noteq> CHR ''.'') (toString t)) = 7"
proof -
  let ?i = "sint (micros t)"
  let ?s = "nat (?i div 10 ^ 6)" and ?u = "nat (?i mod 10 ^ 6)"
  let ?U = "replicate (6 - length (dec ?u)) CHR ''0'' @ dec ?u"
  have "?i < 2 ^ 63"
    using sint_range_size [of "micros t"] by (simp add: word_size)
  then have s: "?s < 10 ^ Suc 12" and u: "?u < 10 ^ Suc 5"
    using assms by simp_all
  have ls: "length (dec ?s) \<le> 13" and lu: "length (dec ?u) \<le> 6"
    using dec_length [OF s] dec_length [OF u] by simp_all
  have nonneg: "\<not> ?i div 10 ^ 6 < 0" "\<not> ?i mod 10 ^ 6 < 0"
    using assms by (simp_all add: pos_imp_zdiv_neg_iff)
  have "fmt_d (secondsSinceEpoch t) = dec ?s" "fmt_0d 6 (subseconds t) = ?U"
    unfolding parts_nonneg [OF assms] fmt_d_def fmt_0d_def using nonneg by (simp_all only: if_False)
  then have str: "toString t = dec ?s @ CHR ''.'' # ?U"
    unfolding toString_def by (simp only: fits [OF ls lu])
  have nodot: "\<forall>c \<in> set (dec ?s). c \<noteq> CHR ''.''"
    using dec_nodot by blast
  then have "takeWhile (\<lambda>c. c \<noteq> CHR ''.'') (toString t) = dec ?s"
    "dropWhile (\<lambda>c. c \<noteq> CHR ''.'') (toString t) = CHR ''.'' # ?U"
    unfolding str by (simp_all add: takeWhile_append2 dropWhile_append2)
  moreover have "undec ?U = ?u"
    unfolding foldl_zeros by (rule undec_dec)
  moreover have "int (?s * 10 ^ 6 + ?u) = ?i"
    using assms by (simp add: pos_imp_zdiv_nonneg_iff)
  ultimately show ?thesis
    using ls lu str by (simp add: read_back_def)
qed

theorem toString_roundtrip_witness:
  "int (read_back (toString (now (12, 34)))) = 12000034"
  using toString_roundtrip [of "now (12, 34)"] by (simp add: now_def kMicroSecondsPerSecond_def)

text \<open>Before the epoch both parts carry the sign.\<close>

lemma toString_before_epoch: "toString (Timestamp (- 1)) = ''0.-00001''"
  by code_simp

end
