(* ===== verification/Log.thy ===== *)
theory Log
  imports Timestamp Base_World
begin

text \<open>
  base/Log.h, Log.cpp: the configuration of the logging library (glog), whose settings are the
  record \<open>glog\<close>; base/Handler.h: a handler that is called until its event is deleted;
  base/SigIgnore.h, SigIgnore.cpp: ignoring \<open>SIGPIPE\<close>. The \<open>LOGGER\<close> macros print to the standard
  output; the operations of the other theories leave their calls out, which change nothing else.
\<close>

record LogConf =
  logdir :: string
  minlevelout :: int
  warnsuffix :: string
  noticesuffix :: string
  logbufsecs :: int
  maxlogsize :: int
  logtostderr :: bool
  alsologtostderr :: bool

definition LOG_INFO :: int where "LOG_INFO = 1"
definition LOG_WARN :: int where "LOG_WARN = 2"
definition LOG_ERROR :: int where "LOG_ERROR = 3"
definition LOG_FATAL :: int where "LOG_FATAL = 4"

definition LogConf_init :: "LogConf \<Rightarrow> bool \<times> LogConf" where
  "LogConf_init c = (True, c\<lparr>logdir := [], minlevelout := LOG_WARN, warnsuffix := [],
     noticesuffix := [], logbufsecs := 0, maxlogsize := 10, logtostderr := False,
     alsologtostderr := False\<rparr>)"

datatype severity = GLOG_INFO | GLOG_WARNING | GLOG_ERROR | GLOG_FATAL

record glog =
  glog_running :: bool
  destination :: "severity \<rightharpoonup> string"
  flag_logbufsecs :: int
  flag_max_log_size :: int
  flag_stop_if_full :: bool
  flag_logtostderr :: bool
  flag_colorlogtostderr :: bool
  flag_alsologtostderr :: bool
  flag_minloglevel :: int
  filename_extension :: string

record CommonLog =
  cl_logdir :: string
  cl_noticesuffix :: string
  cl_warnsuffix :: string

text \<open>\<open>Instance()\<close>; \<open>made\<close> is whether the allocation succeeds. The caller dereferences the result.\<close>

definition CommonLog_Instance :: "bool \<Rightarrow> CommonLog option \<Rightarrow> CommonLog option" where
  "CommonLog_Instance made logger =
    (if logger = None then if made then Some \<lparr>cl_logdir = [], cl_noticesuffix = [], cl_warnsuffix = []\<rparr>
       else None
     else logger)"

text \<open>\<open>access\<close> is whether the process may read and write the directory.\<close>

definition openLog :: "(string \<Rightarrow> bool) \<Rightarrow> LogConf \<Rightarrow> CommonLog \<Rightarrow> glog \<Rightarrow> bool \<times> CommonLog \<times> glog" where
  "openLog access conf log g =
    (let log = log\<lparr>cl_logdir := logdir conf\<rparr> in
     if \<not> access (cl_logdir log) then (False, log, g)
     else
       let log = log\<lparr>cl_noticesuffix := noticesuffix conf, cl_warnsuffix := warnsuffix conf\<rparr>;
           fataldir = cl_logdir log @ ''/'' @ cl_warnsuffix log;
           errordir = cl_logdir log @ ''/'' @ cl_warnsuffix log;
           warndir = cl_logdir log @ ''/'' @ cl_warnsuffix log;
           noticedir = cl_logdir log @ ''/'' @ cl_noticesuffix log
       in (True, log, g\<lparr>glog_running := True,
            destination := (destination g)(GLOG_FATAL \<mapsto> fataldir, GLOG_ERROR \<mapsto> errordir,
              GLOG_WARNING \<mapsto> warndir, GLOG_INFO \<mapsto> noticedir),
            flag_logbufsecs := logbufsecs conf,
            flag_max_log_size := (if maxlogsize conf > 0 then maxlogsize conf else 6),
            flag_stop_if_full := True,
            flag_logtostderr := logtostderr conf,
            flag_colorlogtostderr := logtostderr conf,
            flag_alsologtostderr := alsologtostderr conf,
            flag_minloglevel := minlevelout conf,
            filename_extension := ''.log.''\<rparr>))"

definition closeLog :: "glog \<Rightarrow> glog" where
  "closeLog g = g\<lparr>glog_running := False\<rparr>"

definition CommonLog_delete :: "glog \<Rightarrow> glog" where
  "CommonLog_delete g = g\<lparr>glog_running := False\<rparr>"

definition OpenLog ::
  "(string \<Rightarrow> bool) \<Rightarrow> bool \<Rightarrow> LogConf \<Rightarrow> (CommonLog option \<times> glog, bool) comp" where
  "OpenLog access made conf = (\<lambda>(logger, g). case CommonLog_Instance made logger of
     None \<Rightarrow> (Inl NullDeref, None, g)
   | Some log \<Rightarrow> (case openLog access conf log g of (ok, log', g') \<Rightarrow> (Inr ok, Some log', g')))"

definition CloseLog :: "bool \<Rightarrow> (CommonLog option \<times> glog, unit) comp" where
  "CloseLog made = (\<lambda>(logger, g). case CommonLog_Instance made logger of
     None \<Rightarrow> (Inl NullDeref, None, g)
   | Some log \<Rightarrow> (Inr (), Some log, closeLog g))"

subsection \<open>The macros\<close>

text \<open>
  All seven \<open>LOGGER\<close> macros print the thread, the place and the message to the standard output \<open>out\<close>,
  whatever the configuration of the library is; \<open>msg\<close> is what the streamed arguments print.
\<close>

datatype level = TRACE | DEBUG | INFO | WARN | ERROR | FATAL | SYSERR

definition LOGGER :: "level \<Rightarrow> int \<Rightarrow> string \<Rightarrow> nat \<Rightarrow> string \<Rightarrow> string \<Rightarrow> string" where
  "LOGGER lv tid file line msg out = out @ ''['' @ fmt_d tid @ '']'' @ file @ '' '' @ fmt_d (int line) @ '' '' @
     msg @ [char_of (10 :: nat)]"

text \<open>A line can be attributed: it ends with its message and begins with the thread, up to the bracket.\<close>

lemma LOGGER_thread:
  "takeWhile (\<lambda>c. c \<noteq> CHR '']'') (drop (Suc (length out)) (LOGGER lv tid file line msg out)) = fmt_d tid"
proof -
  have "c \<noteq> CHR '']''" if "c \<in> set (fmt_d tid)" for c
    using that dec_other [of "CHR '']''"] by (auto simp: fmt_d_def split: if_splits)
  then show ?thesis
    by (simp add: LOGGER_def takeWhile_append2)
qed

subsection \<open>Handlers\<close>

text \<open>
  \<open>doHandle\<close> is the virtual function, \<open>gettimeofday\<close> the clock; \<open>n\<close> is the fuel of the loop.
\<close>

fun DoHandle ::
  "(nat \<Rightarrow> Timestamp \<Rightarrow> ('k base, unit) comp) \<Rightarrow> ('k \<Rightarrow> (64 word \<times> 64 word) \<times> 'k) \<Rightarrow> nat \<Rightarrow> nat \<Rightarrow>
    ('k base, unit) comp" where
  "DoHandle doHandle gettimeofday e 0 = raise NoFuel"
| "DoHandle doHandle gettimeofday e (Suc n) =
    bnd (on_kern (syscall gettimeofday)) (\<lambda>tv.
    seq (doHandle e (now tv))
    (bnd (get_ev e) (\<lambda>events.
      if \<not> isdel events then DoHandle doHandle gettimeofday e n else ret ())))"

subsection \<open>Signals\<close>

datatype disposition = SIG_DFL | SIG_IGN

definition SIGPIPE :: int where "SIGPIPE = 13"

definition SigIgnore :: "(int \<Rightarrow> disposition) \<Rightarrow> int \<Rightarrow> disposition" where
  "SigIgnore d = d(SIGPIPE := SIG_IGN)"

text \<open>
  Opening the log succeeds exactly when the directory is accessible; then every message above
  notice level goes to one and the same file, and a refused call leaves the library's settings.
\<close>

lemma openLog_cases:
  "openLog access conf log g = (ok, log', g') \<Longrightarrow>
    ok = access (logdir conf) \<and> (\<not> ok \<longrightarrow> g' = g) \<and>
    (ok \<longrightarrow> destination g' GLOG_FATAL = destination g' GLOG_WARNING \<and>
       destination g' GLOG_INFO = Some (logdir conf @ ''/'' @ noticesuffix conf) \<and> 0 < flag_max_log_size g')"
  by (auto simp: openLog_def Let_def split: if_splits)

end
