(* ===== verification/TimeDifference.thy ===== *)
theory TimeDifference
  imports Timestamp "HOL-Library.Log_Nat"
begin

text \<open>
  base/Timestamp.cpp: \<open>timeDifference\<close> and \<open>addTime\<close>, the two operations on \<open>double\<close>. A finite
  \<open>double\<close> is the rational number it stands for; an operation on doubles is the exact operation
  rounded to a significand of 53 bits, ties to the even one (the binary64 arithmetic of the
  platform). The exponent is not bounded: the quotients of \<open>timeDifference\<close> are within the range
  of normal numbers, and a product of \<open>addTime\<close> that leaves it is either far below one microsecond,
  which the conversion to an integer drops as well, or too large for the conversion.
\<close>

type_synonym double = rat

definition pow2 :: "int \<Rightarrow> rat" where
  "pow2 k = (if 0 \<le> k then 2 ^ nat k else 1 / 2 ^ nat (- k))"

text \<open>The exponent \<open>k\<close> of a number of size \<open>pow2 k\<close> to \<open>2 * pow2 k\<close>.\<close>

definition binade :: "rat \<Rightarrow> int" where
  "binade x = (let (p, q) = quotient_of \<bar>x\<bar>; k = bitlen p - bitlen q
     in if pow2 k \<le> \<bar>x\<bar> then k else k - 1)"

definition to_even :: "rat \<Rightarrow> int" where
  "to_even x = (let f = \<lfloor>x\<rfloor>; r = x - of_int f
     in if r < 1 / 2 \<or> (r = 1 / 2 \<and> even f) then f else f + 1)"

definition fl :: "rat \<Rightarrow> double" where
  "fl x = (if x = 0 then 0 else let u = pow2 (binade x - 52) in of_int (to_even (x / u)) * u)"

text \<open>The conversion to \<open>int64_t\<close> truncates and is undefined for what does not fit.\<close>

definition to_int64 :: "double \<Rightarrow> 64 word option" where
  "to_int64 x = (let i = (if x < 0 then \<lceil>x\<rceil> else \<lfloor>x\<rfloor>)
     in if - (2 ^ 63) \<le> i \<and> i < 2 ^ 63 then Some (word_of_int i) else None)"

definition timeDifference :: "Timestamp \<Rightarrow> Timestamp \<Rightarrow> double" where
  "timeDifference high low = (let diff = micros high - micros low
     in fl (fl (of_int (sint diff)) / of_int kMicroSecondsPerSecond))"

definition addTime :: "Timestamp \<Rightarrow> double \<Rightarrow> Timestamp option" where
  "addTime timestamp seconds =
     (case to_int64 (fl (seconds * of_int kMicroSecondsPerSecond)) of
        None \<Rightarrow> None
      | Some delta \<Rightarrow> Some (Timestamp (micros timestamp + delta)))"

subsection \<open>Rounding\<close>

lemma pow2_pos [simp]: "0 < pow2 k"
  by (simp add: pow2_def)

lemma pow2_nonzero [simp]: "pow2 k \<noteq> 0"
  using pow2_pos [of k] by (metis less_irrefl)

lemma pow2_add: "pow2 (a + b) = pow2 a * pow2 b"
proof -
  have "pow2 k = 2 powi k" for k
    by (simp add: pow2_def power_int_def power_one_over)
  then show ?thesis
    by (simp only: power_int_add simp_thms zero_neq_numeral [THEN not_sym])
qed

lemma pow2_of_nat: "pow2 (int n) = 2 ^ n"
  by (simp add: pow2_def)

lemma bitlen_pow2: "0 < p \<Longrightarrow> pow2 (bitlen p - 1) \<le> of_int p \<and> of_int p < pow2 (bitlen p)"
proof -
  assume p: "0 < p"
  then have "0 \<le> bitlen p - 1"
    by (simp add: bitlen_alt_def)
  moreover have "rat_of_int (2 ^ nat (bitlen p - 1)) \<le> of_int p" "rat_of_int p < of_int (2 ^ nat (bitlen p))"
    using bitlen_bounds [OF p] by (simp_all only: of_int_le_iff of_int_less_iff)
  ultimately show ?thesis
    by (simp add: pow2_def)
qed

lemma binade_bounds:
  assumes "x \<noteq> 0"
  shows "pow2 (binade x) \<le> \<bar>x\<bar>" "\<bar>x\<bar> < 2 * pow2 (binade x)"
proof -
  obtain p q where pq: "quotient_of \<bar>x\<bar> = (p, q)"
    by fastforce
  have q: "0 < q" and x: "\<bar>x\<bar> = of_int p / of_int q"
    using quotient_of_denom_pos [OF pq] quotient_of_div [OF pq] by simp_all
  then have p: "0 < p"
    using assms by (metis of_int_0_less_iff zero_less_abs_iff zero_less_divide_iff less_asym)
  let ?k = "bitlen p - bitlen q"
  have P: "pow2 (bitlen p - 1) \<le> of_int p" "of_int p < pow2 (bitlen p)"
    and Q: "pow2 (bitlen q - 1) \<le> of_int q" "of_int q < pow2 (bitlen q)"
    using bitlen_pow2 p q by blast+
  have "pow2 (?k - 1) * of_int q \<le> pow2 (?k - 1) * pow2 (bitlen q)"
    using Q(2) by (simp add: less_imp_le)
  also have "\<dots> = pow2 (bitlen p - 1)"
    by (simp flip: pow2_add)
  also note P(1)
  finally have low: "pow2 (?k - 1) \<le> \<bar>x\<bar>"
    using q by (simp add: x le_divide_eq)
  have "rat_of_int p < pow2 (?k + 1) * pow2 (bitlen q - 1)"
    using P(2) by (simp flip: pow2_add)
  also have "\<dots> \<le> pow2 (?k + 1) * of_int q"
    using Q(1) by simp
  finally have high: "\<bar>x\<bar> < 2 * pow2 ?k"
    using q pow2_add [of ?k 1] by (simp add: x divide_less_eq pow2_def [of 1])
  have two: "pow2 ?k = 2 * pow2 (?k - 1)"
    using pow2_add [of "?k - 1" 1] by (simp add: pow2_def [of 1])
  show "pow2 (binade x) \<le> \<bar>x\<bar>" "\<bar>x\<bar> < 2 * pow2 (binade x)"
    using low high two by (auto simp: binade_def pq Let_def)
qed

lemma to_even_near: "\<bar>of_int (to_even x) - x\<bar> \<le> 1 / 2"
proof -
  have "of_int \<lfloor>x\<rfloor> \<le> x" "x < of_int \<lfloor>x\<rfloor> + 1"
    using floor_correct [of x] by simp_all
  then show ?thesis
    by (auto simp: to_even_def Let_def abs_le_iff)
qed

lemma to_even_int [simp]: "to_even (of_int i) = i"
  by (simp add: to_even_def)

lemma fl_near: "\<bar>fl x - x\<bar> \<le> \<bar>x\<bar> / 2 ^ 53"
proof (cases "x = 0")
  case True
  then show ?thesis by (simp add: fl_def)
next
  case False
  let ?u = "pow2 (binade x - 52)"
  have u: "pow2 (binade x) = ?u * 2 ^ 52"
    using pow2_add [of "binade x - 52" 52] pow2_of_nat [of 52] by simp
  have "fl x - x = (of_int (to_even (x / ?u)) - x / ?u) * ?u"
    using False by (simp add: fl_def Let_def left_diff_distrib)
  then have "\<bar>fl x - x\<bar> = \<bar>of_int (to_even (x / ?u)) - x / ?u\<bar> * ?u"
    by (simp only: abs_mult abs_of_pos [OF pow2_pos])
  also have "\<dots> \<le> 1 / 2 * ?u"
    by (intro mult_right_mono to_even_near less_imp_le [OF pow2_pos])
  also have "\<dots> \<le> \<bar>x\<bar> / 2 ^ 53"
    using binade_bounds(1) [OF False] u by (simp add: field_simps)
  finally show ?thesis .
qed

lemma fl_int:
  assumes "\<bar>i\<bar> < 2 ^ 53"
  shows "fl (of_int i) = of_int i"
proof (cases "i = 0")
  case True
  then show ?thesis by (simp add: fl_def)
next
  case False
  let ?b = "binade (of_int i)"
  have "pow2 ?b \<le> of_int \<bar>i\<bar>"
    using binade_bounds(1) [of "of_int i"] False by simp
  also have "rat_of_int \<bar>i\<bar> < of_int (2 ^ 53)"
    using assms by (simp only: of_int_less_iff)
  also have "rat_of_int (2 ^ 53) = 2 ^ 53"
    by simp
  finally have lt: "pow2 ?b < 2 ^ 53"
    by simp
  have "?b < 53"
  proof (rule ccontr)
    assume "\<not> ?b < 53"
    then have "(2::rat) ^ 53 \<le> 2 ^ nat ?b" "0 \<le> ?b"
      by (auto simp del: power_numeral intro!: power_increasing)
    with lt show False by (simp add: pow2_def)
  qed
  then have "1 / pow2 (?b - 52) = of_int (2 ^ nat (52 - ?b))"
    by (auto simp: pow2_def)
  then have "of_int i / pow2 (?b - 52) = rat_of_int (i * 2 ^ nat (52 - ?b))"
    by (metis (no_types, opaque_lifting) mult.right_neutral of_int_mult times_divide_eq_right)
  then have "of_int (to_even (of_int i / pow2 (?b - 52))) = of_int i / pow2 (?b - 52)"
    by (metis to_even_int)
  then show ?thesis
    using False by (simp add: fl_def Let_def)
qed

subsection \<open>There and back\<close>

lemma scale_error:
  fixes s D c e :: rat
  assumes "0 < c" "\<bar>s - D / c\<bar> \<le> \<bar>D / c\<bar> / e"
  shows "\<bar>s * c - D\<bar> \<le> \<bar>D\<bar> / e"
proof -
  have "s * c - D = (s - D / c) * c"
    using assms(1) by (simp add: field_simps)
  then have "\<bar>s * c - D\<bar> = \<bar>s - D / c\<bar> * c"
    using assms(1) by (simp add: abs_mult)
  also have "\<dots> \<le> \<bar>D / c\<bar> / e * c"
    using assms by (intro mult_right_mono) simp_all
  also have "\<dots> = \<bar>D\<bar> / e"
    using assms(1) by (simp add: abs_divide)
  finally show ?thesis .
qed

lemma two_roundings:
  fixes D t p e :: rat
  assumes "\<bar>D\<bar> < e / 4" "1 \<le> e" "\<bar>t - D\<bar> \<le> \<bar>D\<bar> / e" "\<bar>p - t\<bar> \<le> \<bar>t\<bar> / e"
  shows "\<bar>p - D\<bar> < 1"
proof -
  have "\<bar>D\<bar> / e < 1 / 4"
    using assms(1,2) by (simp add: divide_less_eq)
  with assms(3) have t: "\<bar>t - D\<bar> < 1 / 4"
    by (rule le_less_trans)
  then have "\<bar>t\<bar> < e / 2"
    using assms(1,2) by arith
  then have "\<bar>t\<bar> / e < 1 / 2"
    using assms(2) by (simp add: divide_less_eq)
  with assms(4) have "\<bar>p - t\<bar> < 1 / 2"
    by (rule le_less_trans)
  with t show ?thesis
    by arith
qed

lemma back_near:
  assumes "\<bar>d\<bar> < 2 ^ 51"
  shows "\<bar>fl (fl (of_int d / 10 ^ 6) * 10 ^ 6) - of_int d\<bar> < 1"
proof (rule two_roundings [where e = "2 ^ 53"])
  have "rat_of_int \<bar>d\<bar> < of_int (2 ^ 51)"
    using assms by (simp only: of_int_less_iff)
  then show "\<bar>rat_of_int d\<bar> < 2 ^ 53 / 4"
    by simp
  show "\<bar>fl (of_int d / 10 ^ 6) * 10 ^ 6 - of_int d\<bar> \<le> \<bar>of_int d\<bar> / 2 ^ 53"
    by (rule scale_error [OF _ fl_near]) simp
  show "\<bar>fl (fl (of_int d / 10 ^ 6) * 10 ^ 6) - fl (of_int d / 10 ^ 6) * 10 ^ 6\<bar>
      \<le> \<bar>fl (of_int d / 10 ^ 6) * 10 ^ 6\<bar> / 2 ^ 53"
    by (rule fl_near)
qed simp

lemma int64_range:
  "i = d \<or> i = d - 1 \<or> i = d + 1 \<Longrightarrow> \<bar>d\<bar> < 2 ^ 51 \<Longrightarrow> - (2 ^ 63) \<le> i \<and> i < (2 ^ 63 :: int)"
  by auto

lemma truncate_near:
  assumes "\<bar>x - rat_of_int d\<bar> < 1" "d = 0 \<Longrightarrow> x = 0" "\<bar>d\<bar> < 2 ^ 51"
  obtains i where "to_int64 x = Some (word_of_int i)" "i = d \<or> i = d - sgn d"
proof -
  consider "d = 0" | "0 < d" | "d < 0" by linarith
  then show thesis
  proof cases
    case 1
    then show ?thesis using assms(2) that [of 0] by (simp add: to_int64_def)
  next
    case 2
    then have "0 \<le> x"
      using assms(1) of_int_le_iff [of 1 d, where ?'a = rat] by (simp add: abs_if split: if_splits)
    moreover have "\<lfloor>x\<rfloor> = d \<or> \<lfloor>x\<rfloor> = d - 1"
      using assms(1) by (simp add: floor_eq_iff abs_if split: if_splits)
    moreover from calculation have "- (2 ^ 63) \<le> \<lfloor>x\<rfloor> \<and> \<lfloor>x\<rfloor> < 2 ^ 63"
      by (intro int64_range [OF _ assms(3)]) blast
    ultimately have "to_int64 x = Some (word_of_int \<lfloor>x\<rfloor>)" "\<lfloor>x\<rfloor> = d \<or> \<lfloor>x\<rfloor> = d - sgn d"
      using 2 by (auto simp: to_int64_def)
    then show ?thesis by (rule that)
  next
    case 3
    then have "x < 0"
      using assms(1) of_int_le_iff [of d "- 1", where ?'a = rat] by (simp add: abs_if split: if_splits)
    moreover have "\<lceil>x\<rceil> = d \<or> \<lceil>x\<rceil> = d + 1"
      using assms(1) by (auto simp: ceiling_eq_iff abs_if split: if_splits)
    moreover from calculation have "- (2 ^ 63) \<le> \<lceil>x\<rceil> \<and> \<lceil>x\<rceil> < 2 ^ 63"
      by (intro int64_range [OF _ assms(3)]) blast
    ultimately have "to_int64 x = Some (word_of_int \<lceil>x\<rceil>)" "\<lceil>x\<rceil> = d \<or> \<lceil>x\<rceil> = d - sgn d"
      using 3 by (auto simp: to_int64_def)
    then show ?thesis by (rule that)
  qed
qed

lemma difference_word:
  fixes a b :: "64 word"
  assumes "\<bar>sint a - sint b\<bar> < 2 ^ 51"
  shows "sint (a - b) = sint a - sint b"
  using assms by (simp add: sint_word_ariths signed_take_bit_int_eq_self)

lemma timeDifference_eq:
  assumes "\<bar>sint (micros high) - sint (micros low)\<bar> < 2 ^ 51"
  shows "timeDifference high low = fl (of_int (sint (micros high) - sint (micros low)) / 10 ^ 6)"
proof -
  have "\<bar>sint (micros high) - sint (micros low)\<bar> < 2 ^ 53"
    using assms by simp
  from fl_int [OF this] difference_word [OF assms] show ?thesis
    by (simp only: timeDifference_def Let_def kMicroSecondsPerSecond_def) simp
qed

lemma microsecond_lost:
  "addTime Timestamp_zero (timeDifference (Timestamp 249) Timestamp_zero) = Some (Timestamp 248)"
  by code_simp

lemma whole_seconds:
  assumes "\<bar>d\<bar> < 2 ^ 51" "10 ^ 6 dvd d"
  shows "fl (fl (of_int d / 10 ^ 6) * 10 ^ 6) = of_int d"
proof -
  obtain k where k: "d = 10 ^ 6 * k"
    using assms(2) by (auto elim: dvdE)
  with assms(1) have "\<bar>k\<bar> < 2 ^ 53" "\<bar>d\<bar> < 2 ^ 53"
    by simp_all
  from fl_int [OF this(1)] fl_int [OF this(2)] show ?thesis
    by (simp add: k mult.commute)
qed

text \<open>
  C28. Adding a difference of two times within 71 years of each other to the earlier one is always
  defined and gives the later one or misses it by exactly one microsecond on the side of the
  earlier one, and exactly the later one if they are whole seconds apart; the difference in seconds
  is correct up to the last bit of a \<open>double\<close>. The microsecond is lost by truncation, e.g. for a
  difference of 249 microseconds.
\<close>

theorem addTime_of_timeDifference:
  fixes high low :: Timestamp
  defines "d \<equiv> sint (micros high) - sint (micros low)"
  assumes near: "\<bar>d\<bar> < 2 ^ 51"
  shows "addTime low (timeDifference high low) \<in>
      {Some high, Some (Timestamp (micros high - word_of_int (sgn d)))} \<and>
    (10 ^ 6 dvd d \<longrightarrow> addTime low (timeDifference high low) = Some high) \<and>
    \<bar>timeDifference high low - of_int d / 10 ^ 6\<bar> \<le> \<bar>of_int d / 10 ^ 6\<bar> / 2 ^ 53 \<and>
    addTime Timestamp_zero (timeDifference (Timestamp 249) Timestamp_zero) \<noteq> Some (Timestamp 249)"
proof -
  let ?x = "fl (fl (of_int d / 10 ^ 6) * 10 ^ 6)"
  have diff: "timeDifference high low = fl (of_int d / 10 ^ 6)"
    using near unfolding d_def by (rule timeDifference_eq)
  then have add: "addTime low (timeDifference high low) =
      map_option (\<lambda>delta. Timestamp (micros low + delta)) (to_int64 ?x)"
    by (simp add: addTime_def kMicroSecondsPerSecond_def split: option.split)
  have high: "Timestamp (micros low + word_of_int d) = high"
    by (cases high) (simp add: d_def)
  have zero: "d = 0 \<Longrightarrow> ?x = 0"
    by (simp add: fl_def)
  have micros: "micros high = micros low + word_of_int d"
    by (simp flip: high)
  obtain i where "to_int64 ?x = Some (word_of_int i)" "i = d \<or> i = d - sgn d"
    by (rule truncate_near [OF back_near [OF near] zero near])
  then have one: "addTime low (timeDifference high low) \<in>
      {Some high, Some (Timestamp (micros high - word_of_int (sgn d)))}"
    unfolding add using high by (cases high; elim disjE) auto
  have "addTime low (timeDifference high low) = Some high" if "10 ^ 6 dvd d"
    using high int64_range [of d d] near
    unfolding add whole_seconds [OF near that] by (simp add: to_int64_def)
  moreover have "\<bar>timeDifference high low - of_int d / 10 ^ 6\<bar> \<le> \<bar>of_int d / 10 ^ 6\<bar> / 2 ^ 53"
    unfolding diff by (rule fl_near)
  ultimately show ?thesis
    using one by (simp only: microsecond_lost) simp
qed

theorem addTime_of_timeDifference_witness:
  "addTime (Timestamp 5) (timeDifference (Timestamp 3000005) (Timestamp 5)) = Some (Timestamp 3000005)"
  using addTime_of_timeDifference [of "Timestamp 3000005" "Timestamp 5"] by simp

end
